(* ===== verification/Prelude.thy ===== *)
theory Prelude
  imports
    Main
    "HOL-Library.Word"
    "HOL-Library.AList"
    "HOL-Library.Multiset"
    "HOL-Library.Char_ord"
    "HOL-Library.List_Lexorder"
begin

text \<open>
  What every component of the chain-registry model shares: the machine integers, the byte
  strings and the string functions of Rust's standard library that the code calls, the
  result type of the fallible operations, hash maps, the parameters that stand for the
  cryptographic crates, and the three interfaces (locales) the components are clients of:
  a key-value map, a Byzantine quorum rule, and a system whose steps keep an invariant.

  Strings are lists of bytes (\<^typ>\<open>char\<close> is a byte): a Rust \<^verbatim>\<open>String\<close> is its UTF-8
  encoding, and \<^verbatim>\<open>as_bytes\<close> is the identity. Comparison of strings is the byte-wise
  lexicographic order of \<^verbatim>\<open>Char_ord\<close> and \<^verbatim>\<open>List_Lexorder\<close>.

  A Rust \<^verbatim>\<open>HashMap\<close> is an association list with distinct keys. The list order is one
  possible iteration order; Rust leaves the order open, so a property of code that
  iterates over a map is stated for every list with the same entries.
\<close>

section \<open>Machine integers, time, results\<close>

type_synonym u8 = "8 word"
type_synonym u32 = "32 word"
type_synonym u64 = "64 word"

text \<open>
  \<^verbatim>\<open>Instant\<close> and \<^verbatim>\<open>Duration\<close> are nanosecond counts. \<^verbatim>\<open>Instant::elapsed\<close> saturates at
  zero, as subtraction on \<^typ>\<open>nat\<close> does. \<^verbatim>\<open>DateTime<Utc>\<close> is a signed nanosecond count.
  Operations that read the clock take the time they read as an argument.
\<close>

type_synonym instant = nat
type_synonym duration = nat
type_synonym datetime = int

definition from_secs :: "nat \<Rightarrow> duration" where
  "from_secs s = s * 1000000000"

definition elapsed :: "instant \<Rightarrow> instant \<Rightarrow> duration" where
  "elapsed now t = now - t"

text \<open>\<^verbatim>\<open>chrono::Duration::num_seconds\<close>: whole seconds, truncated towards zero.\<close>

definition num_seconds :: "int \<Rightarrow> int" where
  "num_seconds d = (if 0 \<le> d then d div 1000000000 else - ((- d) div 1000000000))"

text \<open>The question mark operator: the first error ends the computation.\<close>

definition and_then :: "'e + 'a \<Rightarrow> ('a \<Rightarrow> 'e + 'b) \<Rightarrow> 'e + 'b" where
  "and_then r f = (case r of Inl e \<Rightarrow> Inl e | Inr a \<Rightarrow> f a)"

definition is_ok :: "'e + 'a \<Rightarrow> bool" where
  "is_ok r = (case r of Inl _ \<Rightarrow> False | Inr _ \<Rightarrow> True)"

text \<open>Saturating and wrapping arithmetic on words.\<close>

definition saturating_sub :: "'a::len word \<Rightarrow> 'a word \<Rightarrow> 'a word" where
  "saturating_sub a b = (if a < b then 0 else a - b)"

definition saturating_add :: "'a::len word \<Rightarrow> 'a word \<Rightarrow> 'a word" where
  "saturating_add a b = (if unat a + unat b < 2 ^ LENGTH('a) then a + b else - 1)"

section \<open>Strings\<close>

definition ascii_lower :: "char \<Rightarrow> char" where
  "ascii_lower c =
     (let n = of_char c :: nat in if 65 \<le> n \<and> n \<le> 90 then char_of (n + 32) else c)"

definition to_ascii_lowercase :: "string \<Rightarrow> string" where
  "to_ascii_lowercase s = map ascii_lower s"

text \<open>\<^verbatim>\<open>trim_start_matches("0x")\<close> removes the prefix as often as it occurs.\<close>

fun trim_start_0x :: "string \<Rightarrow> string" where
  "trim_start_0x [] = []"
| "trim_start_0x [a] = [a]"
| "trim_start_0x (a # b # s) =
     (if a = CHR ''0'' \<and> b = CHR ''x'' then trim_start_0x s else a # b # s)"

text \<open>\<^verbatim>\<open>strip_prefix\<close> removes it once, if it is there.\<close>

fun strip_prefix :: "string \<Rightarrow> string \<Rightarrow> string option" where
  "strip_prefix [] s = Some s"
| "strip_prefix (p # ps) [] = None"
| "strip_prefix (p # ps) (c # s) = (if p = c then strip_prefix ps s else None)"

definition starts_with :: "string \<Rightarrow> string \<Rightarrow> bool" where
  "starts_with s p = (strip_prefix p s \<noteq> None)"

text \<open>
  \<^verbatim>\<open>str::trim\<close> removes the characters with the Unicode property White_Space at both
  ends. These are their UTF-8 encodings.
\<close>

definition byte :: "nat \<Rightarrow> char" where
  "byte n = char_of n"

definition white_space_utf8 :: "string list" where
  "white_space_utf8 =
     map (map byte)
       ([[9], [10], [11], [12], [13], [32], [0xC2, 0x85], [0xC2, 0xA0], [0xE1, 0x9A, 0x80]]
        @ map (\<lambda>n. [0xE2, 0x80, n]) [0x80..<0x8B]
        @ [[0xE2, 0x80, 0xA8], [0xE2, 0x80, 0xA9], [0xE2, 0x80, 0xAF], [0xE2, 0x81, 0x9F],
           [0xE3, 0x80, 0x80]])"

fun first_strip :: "string list \<Rightarrow> string \<Rightarrow> string option" where
  "first_strip [] s = None"
| "first_strip (w # ws) s =
     (case strip_prefix w s of Some r \<Rightarrow> Some r | None \<Rightarrow> first_strip ws s)"

text \<open>
  One white-space character is removed per round; the number of bytes bounds the number
  of rounds, so that much fuel is always enough.
\<close>

fun trim_rounds :: "nat \<Rightarrow> string list \<Rightarrow> string \<Rightarrow> string" where
  "trim_rounds 0 ws s = s"
| "trim_rounds (Suc n) ws s =
     (case first_strip ws s of None \<Rightarrow> s | Some r \<Rightarrow> trim_rounds n ws r)"

definition trim_start :: "string \<Rightarrow> string" where
  "trim_start s = trim_rounds (length s) white_space_utf8 s"

definition trim_end :: "string \<Rightarrow> string" where
  "trim_end s = rev (trim_rounds (length s) (map rev white_space_utf8) (rev s))"

definition trim :: "string \<Rightarrow> string" where
  "trim s = trim_end (trim_start s)"

text \<open>\<^verbatim>\<open>Display\<close> of an unsigned integer: its decimal digits.\<close>

fun show_nat :: "nat \<Rightarrow> string" where
  "show_nat n =
     (if n < 10 then [byte (48 + n)] else show_nat (n div 10) @ [byte (48 + n mod 10)])"

declare show_nat.simps [simp del]

definition show_bool :: "bool \<Rightarrow> string" where
  "show_bool b = (if b then ''true'' else ''false'')"

text \<open>\<^verbatim>\<open>[..].join(sep)\<close>.\<close>

fun join_with :: "string \<Rightarrow> string list \<Rightarrow> string" where
  "join_with sep [] = []"
| "join_with sep [s] = s"
| "join_with sep (s # t # ss) = s @ sep @ join_with sep (t # ss)"

section \<open>Hash maps\<close>

type_synonym ('k, 'v) hash_map = "('k \<times> 'v) list"

definition hm_ok :: "('k, 'v) hash_map \<Rightarrow> bool" where
  "hm_ok m = distinct (map fst m)"

abbreviation hm_get :: "('k, 'v) hash_map \<Rightarrow> 'k \<Rightarrow> 'v option" where
  "hm_get \<equiv> map_of"

abbreviation hm_insert :: "'k \<Rightarrow> 'v \<Rightarrow> ('k, 'v) hash_map \<Rightarrow> ('k, 'v) hash_map" where
  "hm_insert \<equiv> AList.update"

abbreviation hm_remove :: "'k \<Rightarrow> ('k, 'v) hash_map \<Rightarrow> ('k, 'v) hash_map" where
  "hm_remove \<equiv> AList.delete"

text \<open>\<^verbatim>\<open>get_mut\<close> followed by a mutation of the entry.\<close>

abbreviation hm_modify :: "'k \<Rightarrow> ('v \<Rightarrow> 'v) \<Rightarrow> ('k, 'v) hash_map \<Rightarrow> ('k, 'v) hash_map" where
  "hm_modify \<equiv> AList.map_entry"

abbreviation hm_values :: "('k, 'v) hash_map \<Rightarrow> 'v list" where
  "hm_values \<equiv> map snd"

abbreviation hm_keys :: "('k, 'v) hash_map \<Rightarrow> 'k list" where
  "hm_keys \<equiv> map fst"

text \<open>\<^verbatim>\<open>iter().filter(..).count()\<close>.\<close>

definition count_where :: "('a \<Rightarrow> bool) \<Rightarrow> 'a list \<Rightarrow> nat" where
  "count_where P xs = length (filter P xs)"

text \<open>\<^verbatim>\<open>iter().position(..)\<close>.\<close>

fun position :: "('a \<Rightarrow> bool) \<Rightarrow> 'a list \<Rightarrow> nat option" where
  "position P [] = None"
| "position P (x # xs) = (if P x then Some 0 else map_option Suc (position P xs))"

section \<open>The cryptographic crates\<close>

text \<open>
  The crates \<^verbatim>\<open>sha2\<close>, \<^verbatim>\<open>hex\<close> and \<^verbatim>\<open>ed25519_dalek\<close> are not part of the repository. Their
  functions are the fields of a record that every definition that uses them takes as an
  argument. A verifying key or signature that parsed is represented by its bytes:
  \<open>vk_try_from\<close> and \<open>sig_try_from\<close> say which byte strings parse.
\<close>

record crypto =
  sha256_digest :: "string \<Rightarrow> string"
  hex_encode :: "string \<Rightarrow> string"
  hex_decode :: "string \<Rightarrow> string option"
  vk_try_from :: "string \<Rightarrow> bool"
  sig_try_from :: "string \<Rightarrow> bool"
  ed_verify :: "string \<Rightarrow> string \<Rightarrow> string \<Rightarrow> bool"
  ed_public :: "string \<Rightarrow> string"
  ed_sign :: "string \<Rightarrow> string \<Rightarrow> string"

text \<open>\<^verbatim>\<open>common::sha256\<close> and \<^verbatim>\<open>common::sha256_hex\<close>.\<close>

definition sha256 :: "'a crypto_scheme \<Rightarrow> string \<Rightarrow> string" where
  "sha256 c data = sha256_digest c data"

definition sha256_hex :: "'a crypto_scheme \<Rightarrow> string \<Rightarrow> string" where
  "sha256_hex c data = hex_encode c (sha256 c data)"

section \<open>Collections of rewrite rules\<close>

named_theorems creg_defs \<open>definitions of straight-line code that proofs unfold\<close>
named_theorems creg_inv \<open>operations keep the component invariants\<close>

lemmas [creg_defs] = and_then_def is_ok_def Let_def

section \<open>Generic lemmas\<close>

lemma and_then_Inr [simp]: "and_then (Inr a) f = f a"
  by (simp add: and_then_def)

lemma and_then_Inl [simp]: "and_then (Inl e) f = Inl e"
  by (simp add: and_then_def)

lemma and_then_eq_Inr: "and_then r f = Inr b \<longleftrightarrow> (\<exists>a. r = Inr a \<and> f a = Inr b)"
  by (cases r) simp_all

lemma is_ok_Inr [simp]: "is_ok (Inr a)"
  by (simp add: is_ok_def)

lemma is_ok_Inl [simp]: "\<not> is_ok (Inl e)"
  by (simp add: is_ok_def)

lemma is_ok_iff: "is_ok r \<longleftrightarrow> (\<exists>a. r = Inr a)"
  by (cases r) simp_all

lemma unat_saturating_sub: "unat (saturating_sub a b) = unat a - unat b"
  by (simp add: saturating_sub_def word_less_nat_alt unat_sub word_le_nat_alt)

lemma saturating_sub_le: "saturating_sub a b \<le> a"
  by (simp add: word_le_nat_alt unat_saturating_sub)

lemma unat_saturating_add:
  "unat (saturating_add a b) = min (2 ^ LENGTH('a) - 1) (unat a + unat (b :: 'a::len word))"
  by (auto simp: saturating_add_def unat_word_ariths unsigned_minus_1_eq_mask mask_eq_exp_minus_1)

subsection \<open>Strings\<close>

lemma ascii_lower_idem [simp]: "ascii_lower (ascii_lower c) = ascii_lower c"
proof -
  have "(of_char (char_of (of_char c + 32 :: nat) :: char) :: nat) = of_char c + 32"
    if "of_char c \<le> (90 :: nat)"
    using that by simp
  then show ?thesis by (simp add: ascii_lower_def Let_def)
qed

lemma to_ascii_lowercase_idem [simp]:
  "to_ascii_lowercase (to_ascii_lowercase s) = to_ascii_lowercase s"
  by (simp add: to_ascii_lowercase_def comp_def)

lemma length_to_ascii_lowercase [simp]: "length (to_ascii_lowercase s) = length s"
  by (simp add: to_ascii_lowercase_def)

lemma to_ascii_lowercase_empty [simp]: "to_ascii_lowercase s = [] \<longleftrightarrow> s = []"
  by (simp add: to_ascii_lowercase_def)

lemma strip_prefix_Some: "strip_prefix p s = Some r \<longleftrightarrow> s = p @ r"
  by (induction p s rule: strip_prefix.induct) auto

lemma starts_with_append [simp]: "starts_with (p @ r) p"
  by (simp add: starts_with_def strip_prefix_Some [THEN iffD2, OF refl])

lemma starts_with_iff: "starts_with s p \<longleftrightarrow> (\<exists>r. s = p @ r)"
  by (auto simp: starts_with_def strip_prefix_Some)

lemma trim_start_0x_idem [simp]: "trim_start_0x (trim_start_0x s) = trim_start_0x s"
  by (induction s rule: trim_start_0x.induct) auto

subsection \<open>Counting\<close>

text \<open>Text that starts and ends with a graphic ASCII character is not trimmed.\<close>

definition plain_char :: "char \<Rightarrow> bool" where
  "plain_char ch = (33 \<le> (of_char ch :: nat) \<and> (of_char ch :: nat) < 128)"

lemma white_space_not_plain:
  "w \<in> set white_space_utf8 \<Longrightarrow> w \<noteq> [] \<and> \<not> plain_char (hd w) \<and> \<not> plain_char (last w)"
  by (auto simp: white_space_utf8_def byte_def plain_char_def)

lemma first_strip_plain:
  assumes "\<forall>w \<in> set ws. w \<noteq> [] \<and> \<not> plain_char (hd w)" and "s \<noteq> []" and "plain_char (hd s)"
  shows "first_strip ws s = None"
  using assms(1)
proof (induction ws)
  case (Cons w ws)
  have "strip_prefix w s = None"
    using Cons.prems assms(2,3) by (cases w; cases s) auto
  with Cons show ?case by simp
qed simp

lemma trim_rounds_plain:
  assumes "\<forall>w \<in> set ws. w \<noteq> [] \<and> \<not> plain_char (hd w)" and "s \<noteq> []" and "plain_char (hd s)"
  shows "trim_rounds n ws s = s"
  using first_strip_plain [OF assms] by (cases n) simp_all

lemma trim_plain:
  assumes "s \<noteq> []" and "plain_char (hd s)" and "plain_char (last s)"
  shows "trim s = s"
proof -
  have "trim_start s = s"
    unfolding trim_start_def using white_space_not_plain assms by (intro trim_rounds_plain) auto
  moreover have "trim_end s = s"
    unfolding trim_end_def using white_space_not_plain assms
    by (subst trim_rounds_plain) (auto simp: hd_rev)
  ultimately show ?thesis by (simp add: trim_def)
qed

lemma count_where_le: "count_where P xs \<le> length xs"
  by (simp add: count_where_def)

lemma count_where_Nil [simp]: "count_where P [] = 0"
  by (simp add: count_where_def)

lemma count_where_Cons [simp]:
  "count_where P (x # xs) = (if P x then Suc (count_where P xs) else count_where P xs)"
  by (simp add: count_where_def)

lemma count_where_append [simp]:
  "count_where P (xs @ ys) = count_where P xs + count_where P ys"
  by (simp add: count_where_def)

lemma count_where_mset: "mset xs = mset ys \<Longrightarrow> count_where P xs = count_where P ys"
  unfolding count_where_def by (metis mset_filter size_mset)

lemma count_where_split: "count_where P xs + count_where (\<lambda>x. \<not> P x) xs = length xs"
  unfolding count_where_def by (rule sum_length_filter_compl)

lemma sort_mset_cong: "mset xs = mset ys \<Longrightarrow> sort xs = sort ys"
  by (metis sorted_list_of_multiset_mset)

lemma hd_sort_key_least:
  assumes "xs \<noteq> []"
  shows "hd (sort_key f xs) \<in> set xs" and "z \<in> set xs \<Longrightarrow> f (hd (sort_key f xs)) \<le> f z"
proof -
  have "length (sort_key f xs) \<noteq> 0" using assms by simp
  then obtain y ys where eq: "sort_key f xs = y # ys" by (cases "sort_key f xs") auto
  have set_eq: "set xs = insert y (set ys)" using set_sort [of f xs] by (simp add: eq)
  have "sorted (map f (y # ys))" using sorted_sort_key [of f xs] by (simp only: eq)
  then show "hd (sort_key f xs) \<in> set xs" and "z \<in> set xs \<Longrightarrow> f (hd (sort_key f xs)) \<le> f z"
    by (auto simp: eq set_eq)
qed

lemma position_Some:
  "position P xs = Some i \<Longrightarrow> i < length xs \<and> P (xs ! i) \<and> (\<forall>j<i. \<not> P (xs ! j))"
proof (induction xs arbitrary: i)
  case (Cons x xs)
  then show ?case
    by (cases i) (auto split: if_splits simp: less_Suc_eq_0_disj)
qed simp

lemma position_None: "position P xs = None \<longleftrightarrow> (\<forall>x\<in>set xs. \<not> P x)"
  by (induction xs) auto

subsection \<open>Hash maps\<close>

lemma hm_ok_Nil [simp]: "hm_ok []"
  by (simp add: hm_ok_def)

lemma hm_ok_insert [simp, creg_inv]: "hm_ok m \<Longrightarrow> hm_ok (hm_insert k v m)"
  by (simp add: hm_ok_def distinct_update)

lemma hm_ok_remove [simp, creg_inv]: "hm_ok m \<Longrightarrow> hm_ok (hm_remove k m)"
  by (simp add: hm_ok_def distinct_delete)

lemma hm_ok_modify [simp, creg_inv]: "hm_ok (hm_modify k f m) = hm_ok m"
  by (induction m) (auto simp: hm_ok_def dom_map_entry)

lemma hm_ok_filter [simp, creg_inv]: "hm_ok m \<Longrightarrow> hm_ok (filter P m)"
  by (simp add: hm_ok_def distinct_map_filter)

lemma hm_keys_modify [simp]: "hm_keys (hm_modify k f m) = hm_keys m"
  by (induction m) auto

end
