(* ===== verification/Interfaces.thy ===== *)
theory Interfaces
  imports Prelude
begin

text \<open>
  The interfaces the components are clients of, each as a locale with the laws its provider
  promises and the client lemmas that follow from them:

  \<^item> \<open>key_value_store\<close>: what a map promises of lookup after insertion and removal. It is
    interpreted here by the association lists that model Rust's hash maps.
  \<^item> \<open>bft_quorum\<close>: what a quorum rule of a Byzantine protocol promises. It is interpreted
    by every quorum rule of the code, in the theory of the component that has it.
  \<^item> \<open>invariant_system\<close>: a component whose operations keep an invariant. It is interpreted
    by the consensus round, the vote round, the pools and the rate limiters.
  \<^item> \<open>order_insensitive\<close>: a function of a list that does not depend on the order of its
    elements, as digests of a set of validators must not.
\<close>

section \<open>Key-value stores\<close>

locale key_value_store =
  fixes empty_store :: "'m"
    and lookup :: "'m \<Rightarrow> 'k \<Rightarrow> 'v option"
    and put :: "'k \<Rightarrow> 'v \<Rightarrow> 'm \<Rightarrow> 'm"
    and drop_key :: "'k \<Rightarrow> 'm \<Rightarrow> 'm"
    and entries :: "'m \<Rightarrow> ('k \<times> 'v) list"
    and valid :: "'m \<Rightarrow> bool"
  assumes lookup_empty: "lookup empty_store k = None"
    and lookup_put: "valid m \<Longrightarrow> lookup (put k v m) = (lookup m)(k \<mapsto> v)"
    and lookup_drop: "valid m \<Longrightarrow> lookup (drop_key k m) = (lookup m)(k := None)"
    and entries_lookup: "valid m \<Longrightarrow> (k, v) \<in> set (entries m) \<longleftrightarrow> lookup m k = Some v"
    and entries_distinct: "valid m \<Longrightarrow> distinct (map fst (entries m))"
    and valid_empty: "valid empty_store"
    and valid_put: "valid m \<Longrightarrow> valid (put k v m)"
    and valid_drop: "valid m \<Longrightarrow> valid (drop_key k m)"
begin

lemma lookup_dom: "valid m \<Longrightarrow> dom (lookup m) = fst ` set (entries m)"
  by (force simp: entries_lookup [symmetric] dom_def)

lemma size_dom: "valid m \<Longrightarrow> length (entries m) = card (dom (lookup m))"
  by (metis lookup_dom distinct_card entries_distinct length_map list.set_map)

lemma finite_dom: "valid m \<Longrightarrow> finite (dom (lookup m))"
  by (simp add: lookup_dom)

lemma size_put:
  assumes "valid m"
  shows "length (entries (put k v m)) =
    (if lookup m k = None then Suc (length (entries m)) else length (entries m))"
proof -
  have "length (entries (put k v m)) = card (insert k (dom (lookup m)))"
    by (simp add: size_dom valid_put assms lookup_put)
  then show ?thesis
    by (auto simp: card_insert_if size_dom finite_dom assms insert_absorb domIff)
qed

lemma size_drop_le: "valid m \<Longrightarrow> length (entries (drop_key k m)) \<le> length (entries m)"
  by (simp add: size_dom valid_drop lookup_drop card_Diff1_le finite_dom)

lemma drop_put_other: "valid m \<Longrightarrow> k \<noteq> j \<Longrightarrow> lookup (drop_key k (put j v m)) j = Some v"
  by (simp add: lookup_put lookup_drop valid_put)

text \<open>The values that satisfy a predicate are as many as the keys whose value does.\<close>

lemma count_values:
  assumes "valid m"
  shows "count_where P (map snd (entries m)) = card {k. \<exists>v. lookup m k = Some v \<and> P v}"
proof -
  let ?es = "filter (\<lambda>e. P (snd e)) (entries m)"
  have "{k. \<exists>v. lookup m k = Some v \<and> P v} = fst ` set ?es"
    by (force simp: entries_lookup [OF assms, symmetric])
  moreover have "distinct (map fst ?es)"
    by (rule distinct_map_filter [OF entries_distinct [OF assms]])
  ultimately have "card {k. \<exists>v. lookup m k = Some v \<and> P v} = length ?es"
    by (metis distinct_card length_map list.set_map)
  then show ?thesis
    by (simp add: count_where_def filter_map comp_def)
qed

end

interpretation hm: key_value_store "[]" hm_get hm_insert hm_remove "\<lambda>m. m" hm_ok
proof unfold_locales
  fix m :: "('a, 'b) hash_map" and k v
  assume ok: "hm_ok m"
  show "map_of (AList.update k v m) = (map_of m)(k \<mapsto> v)"
    by (rule update_conv')
  show "map_of (AList.delete k m) = (map_of m)(k := None)"
    by (rule delete_conv')
  show "((k, v) \<in> set m) = (map_of m k = Some v)"
    using ok by (simp add: hm_ok_def)
  show "distinct (map fst m)"
    using ok by (simp add: hm_ok_def)
qed simp_all

lemma hm_get_modify: "hm_get (hm_modify k f m) j = (if j = k then map_option f (hm_get m k) else hm_get m j)"
  by (induction m) auto

lemma hm_values_insert: "set (hm_values (hm_insert k v m)) \<subseteq> insert v (set (hm_values m))"
  by (induction m) auto

lemma hm_get_values: "hm_get m k = Some v \<Longrightarrow> v \<in> set (hm_values m)"
  by (metis image_eqI list.set_map map_of_SomeD snd_conv)

section \<open>Byzantine quorums\<close>

text \<open>
  A quorum of \<open>n\<close> validators is more than two thirds of them, and no more than one above
  two thirds. The first law gives safety (any two quorums share an honest validator), the
  second liveness (the honest validators alone are a quorum).
\<close>

locale bft_quorum =
  fixes quorum :: "nat \<Rightarrow> nat"
  assumes two_thirds: "0 < n \<Longrightarrow> 2 * n < 3 * quorum n"
    and at_most: "0 < n \<Longrightarrow> 3 * quorum n \<le> 2 * n + 3"
begin

lemma attainable: "0 < n \<Longrightarrow> quorum n \<le> n"
  using at_most [of n] by linarith

lemma honest_suffice: "3 * f < n \<Longrightarrow> quorum n \<le> n - f"
  using at_most [of n] by linarith

lemma overlap:
  assumes fin: "finite V" and "V \<noteq> {}" and sub: "A \<subseteq> V" "B \<subseteq> V"
    and "quorum (card V) \<le> card A" and "quorum (card V) \<le> card B"
  shows "card V < 3 * card (A \<inter> B)"
proof -
  have "finite A" "finite B" using sub fin finite_subset by blast+
  then have "card A + card B = card (A \<union> B) + card (A \<inter> B)"
    by (rule card_Un_Int)
  moreover have "card (A \<union> B) \<le> card V"
    using sub by (intro card_mono [OF fin]) blast
  moreover have "2 * card V < 3 * quorum (card V)"
    using assms by (intro two_thirds) (simp add: card_gt_0_iff)
  ultimately show ?thesis using assms(5,6) by linarith
qed

lemma honest_overlap:
  assumes "finite V" and "V \<noteq> {}" and "A \<subseteq> V" and "B \<subseteq> V"
    and "quorum (card V) \<le> card A" and "quorum (card V) \<le> card B"
    and "3 * card F \<le> card V" and "finite F"
  shows "\<exists>v. v \<in> A \<and> v \<in> B \<and> v \<notin> F"
proof (rule ccontr)
  assume "\<not> ?thesis"
  then have "A \<inter> B \<subseteq> F" by blast
  then have "card (A \<inter> B) \<le> card F" by (rule card_mono [OF assms(8)])
  with overlap [OF assms(1-6)] assms(7) show False by linarith
qed

text \<open>Two thirds is the best possible: what is left of a quorum is never a quorum too.\<close>

lemma no_two_disjoint:
  assumes "finite V" and "V \<noteq> {}" and "A \<subseteq> V" and "B \<subseteq> V"
    and "quorum (card V) \<le> card A" and "quorum (card V) \<le> card B"
  shows "A \<inter> B \<noteq> {}"
  using honest_overlap [OF assms, of "{}"] by auto

end

section \<open>Systems that keep an invariant\<close>

locale invariant_system =
  fixes step :: "'s \<Rightarrow> 'e \<Rightarrow> 's"
    and inv :: "'s \<Rightarrow> bool"
  assumes step_inv: "inv s \<Longrightarrow> inv (step s e)"
begin

lemma run_inv: "inv s \<Longrightarrow> inv (foldl step s es)"
  by (induction es arbitrary: s) (simp_all add: step_inv)

text \<open>
  A quantity that no step decreases while the invariant holds is not decreased by a run.
\<close>

lemma run_mono:
  assumes mono: "\<And>s e. inv s \<Longrightarrow> (f s :: 'a::preorder) \<le> f (step s e)" and "inv s"
  shows "f s \<le> f (foldl step s es)"
  using assms(2)
proof (induction es arbitrary: s)
  case (Cons e es)
  then show ?case
    using mono [OF Cons.prems] by (auto intro: order_trans step_inv)
qed simp

text \<open>A property of the state that every step keeps, given the invariant, survives a run.\<close>

lemma run_stable:
  assumes stable: "\<And>s e. inv s \<Longrightarrow> P s \<Longrightarrow> P (step s e)" and "inv s" and "P s"
  shows "P (foldl step s es)"
  using assms(2,3) by (induction es arbitrary: s) (auto simp: step_inv stable)

end

section \<open>Digests of a set\<close>

locale order_insensitive =
  fixes digest :: "'a list \<Rightarrow> 'b"
  assumes mset_cong: "mset xs = mset ys \<Longrightarrow> digest xs = digest ys"
begin

lemma digest_rev: "digest (rev xs) = digest xs"
  by (rule mset_cong) simp

lemma digest_append_commute: "digest (xs @ ys) = digest (ys @ xs)"
  by (rule mset_cong) (simp add: union_commute)

lemma digest_same_elements:
  "distinct xs \<Longrightarrow> distinct ys \<Longrightarrow> set xs = set ys \<Longrightarrow> digest xs = digest ys"
  by (rule mset_cong) (simp add: set_eq_iff_mset_eq_distinct)

end

end
