(* ===== verification/Blocks.thy ===== *)
theory Blocks
  imports Package
begin

text \<open>
  Blocks and transactions of \<^verbatim>\<open>crates/common/src/block.rs\<close>, with the hash of a block header
  and the Merkle root of a block's transactions.

  \<^verbatim>\<open>serde_json::to_vec\<close> is not part of the repository: the JSON encodings of a header and of
  a transaction are two more parameters, in the record that extends the cryptographic
  ones. A block height is a \<^verbatim>\<open>u64\<close> in the code and a \<^typ>\<open>nat\<close> here: heights are
  compared and counted up by one from a stored block, so that only a chain of
  \<open>2 ^ 64\<close> blocks could tell the two apart.

  The lemmas show that the Merkle loop terminates, how many levels it has, and which lists
  of transactions it cannot tell apart.
\<close>

section \<open>Data\<close>

record block_signature =
  bs_validator_id :: string
  bs_pubkey :: string
  bs_signature :: string

record block_header =
  height :: nat
  prev_hash :: string
  merkle_root_field :: string
  proposer_id :: string
  timestamp :: datetime
  validator_set_hash :: string
  vrf_output :: "string option"
  vrf_proof :: "string option"

text \<open>
  \<^verbatim>\<open>Transaction\<close>: the constructors carry the fields of the source in its order.
\<close>

datatype transaction =
    Publish chain_record
  | Revoke string string string string
  | Slash string u64 string
  | ValidatorJoin string string u64
  | ValidatorLeave string
  | RotatePublisherKey string string string string string datetime u64

record block =
  header :: block_header
  transactions :: "transaction list"
  pbft_signatures :: "block_signature list"

record env = crypto +
  ser_header :: "block_header \<Rightarrow> string"
  ser_tx :: "transaction \<Rightarrow> string"

section \<open>Hashing\<close>

definition header_hash :: "env \<Rightarrow> block_header \<Rightarrow> string" where
  "header_hash c h = sha256_hex c (ser_header c h)"

definition block_hash_of :: "env \<Rightarrow> block \<Rightarrow> string" where
  "block_hash_of c b = header_hash c (header b)"

text \<open>The genesis time 2024-01-01T00:00:00Z is 1704067200 seconds after the epoch.\<close>

definition genesis :: block where
  "genesis =
     \<lparr> header =
         \<lparr> height = 0, prev_hash = replicate 64 (CHR ''0''),
           merkle_root_field = replicate 64 (CHR ''0''), proposer_id = ''genesis'',
           timestamp = 1704067200 * 1000000000,
           validator_set_hash = replicate 64 (CHR ''0''),
           vrf_output = None, vrf_proof = None \<rparr>,
       transactions = [], pbft_signatures = [] \<rparr>"

section \<open>Merkle root\<close>

definition tx_hash_of :: "env \<Rightarrow> transaction \<Rightarrow> string" where
  "tx_hash_of c tx = sha256_hex c (ser_tx c tx)"

text \<open>An odd level is padded with a copy of its last hash.\<close>

definition merkle_pad :: "string list \<Rightarrow> string list" where
  "merkle_pad hashes = (if length hashes mod 2 \<noteq> 0 then hashes @ [last hashes] else hashes)"

text \<open>
  \<^verbatim>\<open>chunks(2)\<close> with the pair hashed. A level is padded first, so the last chunk has two
  elements (\<open>even_length_merkle_pad\<close> below); the equation for one element is not reached.
\<close>

fun merkle_pairs :: "'a crypto_scheme \<Rightarrow> string list \<Rightarrow> string list" where
  "merkle_pairs c (x # y # hashes) = sha256_hex c (x @ y) # merkle_pairs c hashes"
| "merkle_pairs c [x] = []"
| "merkle_pairs c [] = []"

lemma even_length_merkle_pad: "even (length (merkle_pad hashes))"
  by (simp add: merkle_pad_def) presburger

lemma length_merkle_pairs: "length (merkle_pairs c hashes) = length hashes div 2"
  by (induction c hashes rule: merkle_pairs.induct) auto

lemma length_merkle_level:
  "length (merkle_pairs c (merkle_pad hashes)) = (length hashes + 1) div 2"
  by (simp add: length_merkle_pairs merkle_pad_def) presburger

function merkle_loop :: "'a crypto_scheme \<Rightarrow> string list \<Rightarrow> string list" where
  "merkle_loop c hashes =
     (if 1 < length hashes then merkle_loop c (merkle_pairs c (merkle_pad hashes)) else hashes)"
  by pat_completeness auto
termination
  by (relation "measure (\<lambda>(c, hashes). length hashes)") (auto simp: length_merkle_level)

declare merkle_loop.simps [simp del]

definition merkle_root :: "env \<Rightarrow> transaction list \<Rightarrow> string" where
  "merkle_root c txs =
     (if txs = [] then sha256_hex c ''empty''
      else hd (merkle_loop c (map (tx_hash_of c) txs)))"

section \<open>Lemmas\<close>

lemma merkle_loop_single [simp]: "merkle_loop c [x] = [x]"
  by (simp add: merkle_loop.simps)

lemma merkle_loop_step:
  "1 < length hashes \<Longrightarrow> merkle_loop c hashes = merkle_loop c (merkle_pairs c (merkle_pad hashes))"
  by (subst merkle_loop.simps) simp

text \<open>The loop ends with exactly one hash, so that removing the first one cannot fail.\<close>

lemma length_merkle_loop: "hashes \<noteq> [] \<Longrightarrow> length (merkle_loop c hashes) = 1"
proof (induction c hashes rule: merkle_loop.induct)
  case (1 c hashes)
  show ?case
  proof (cases "1 < length hashes")
    case True
    then have "0 < length (merkle_pairs c (merkle_pad hashes))"
      by (simp add: length_merkle_level)
    then have "merkle_pairs c (merkle_pad hashes) \<noteq> []" by blast
    with True "1.IH" show ?thesis by (simp add: merkle_loop_step)
  next
    case False
    with "1.prems" show ?thesis
      by (simp add: merkle_loop.simps [of c hashes]) (metis One_nat_def Suc_lessI length_greater_0_conv)
  qed
qed

lemma merkle_pad_even [simp]: "even (length hashes) \<Longrightarrow> merkle_pad hashes = hashes"
  by (simp add: merkle_pad_def)

lemma merkle_pad_odd [simp]: "odd (length hashes) \<Longrightarrow> merkle_pad hashes = hashes @ [last hashes]"
  by (simp add: merkle_pad_def odd_iff_mod_2_eq_one)

text \<open>Repeating the last hash of an odd level is not visible in the root.\<close>

lemma merkle_loop_repeat_last:
  assumes "odd (length hashes)" and "1 < length hashes"
  shows "merkle_loop c (hashes @ [last hashes]) = merkle_loop c hashes"
proof -
  have "merkle_loop c (hashes @ [last hashes])
      = merkle_loop c (merkle_pairs c (merkle_pad (hashes @ [last hashes])))"
    using assms by (intro merkle_loop_step) auto
  also have "merkle_pad (hashes @ [last hashes]) = merkle_pad hashes"
    using assms by simp
  finally show ?thesis using assms by (simp add: merkle_loop_step)
qed

lemma merkle_pairs_nth:
  "2 * i + 1 < length hashes \<Longrightarrow>
     merkle_pairs c hashes ! i = sha256_hex c (hashes ! (2 * i) @ hashes ! (2 * i + 1))"
proof (induction c hashes arbitrary: i rule: merkle_pairs.induct)
  case (1 c x y hashes)
  then show ?case by (cases i) auto
qed simp_all

lemma merkle_pad_nth [simp]: "i < length hashes \<Longrightarrow> merkle_pad hashes ! i = hashes ! i"
  by (simp add: merkle_pad_def nth_append)

lemma set_merkle_pad [simp]: "hashes \<noteq> [] \<Longrightarrow> set (merkle_pad hashes) = set hashes"
  by (auto simp: merkle_pad_def)

lemma merkle_pairs_set:
  "h \<in> set (merkle_pairs c hashes) \<Longrightarrow>
     \<exists>x y. x \<in> set hashes \<and> y \<in> set hashes \<and> h = sha256_hex c (x @ y)"
  by (induction c hashes rule: merkle_pairs.induct) auto

end
