(* ===== verification/Merkle.thy ===== *)
theory Merkle
  imports Blocks
begin

text \<open>
  Merkle inclusion proofs of \<^verbatim>\<open>crates/resolver/src/light_client.rs\<close>: the node builds a proof
  that a transaction is in a block (\<open>build_merkle_proof\<close>) and the light client walks it
  (\<open>proof_verify\<close>).

  The lemmas show completeness (a proof the node builds is accepted) and soundness: a proof
  of the right length that is accepted against the root of a block's transactions proves
  one of these transactions, or a string hashed by the walk and a different string hashed for
  the tree have the same SHA-256.
\<close>

section \<open>Definitions\<close>

record merkle_step =
  sibling_hash :: string
  is_right :: bool

record merkle_proof =
  mp_tx_hash :: string
  path :: "merkle_step list"
  expected_root :: string

definition merkle_walk :: "'a crypto_scheme \<Rightarrow> string \<Rightarrow> merkle_step \<Rightarrow> string" where
  "merkle_walk c current step =
     (if is_right step then sha256_hex c (current @ sibling_hash step)
      else sha256_hex c (sibling_hash step @ current))"

definition proof_verify :: "'a crypto_scheme \<Rightarrow> merkle_proof \<Rightarrow> bool" where
  "proof_verify c p = (foldl (merkle_walk c) (mp_tx_hash p) (path p) = expected_root p)"

function proof_path :: "'a crypto_scheme \<Rightarrow> nat \<Rightarrow> string list \<Rightarrow> merkle_step list" where
  "proof_path c idx level =
     (if 1 < length level then
        let level' = merkle_pad level;
            sibling_idx = (if idx mod 2 = 0 then idx + 1 else idx - 1)
        in \<lparr> sibling_hash = level' ! sibling_idx, is_right = (idx mod 2 = 0) \<rparr>
           # proof_path c (idx div 2) (merkle_pairs c level')
      else [])"
  by pat_completeness auto
termination
  by (relation "measure (\<lambda>(c, idx, level). length level)") (auto simp: length_merkle_level)

declare proof_path.simps [simp del]

datatype merkle_error = TxIndexOutOfRange nat nat

definition build_merkle_proof :: "env \<Rightarrow> block \<Rightarrow> nat \<Rightarrow> merkle_error + merkle_proof" where
  "build_merkle_proof c b tx_index =
     (let n = length (transactions b) in
      if n \<le> tx_index then Inl (TxIndexOutOfRange tx_index n)
      else
        let leaves = map (tx_hash_of c) (transactions b)
        in Inr \<lparr> mp_tx_hash = leaves ! tx_index,
                 path = proof_path c tx_index leaves,
                 expected_root = merkle_root_field (header b) \<rparr>)"

text \<open>The number of levels above the leaves, which is the length of every built path.\<close>

fun merkle_depth :: "nat \<Rightarrow> nat" where
  "merkle_depth n = (if n \<le> 1 then 0 else Suc (merkle_depth ((n + 1) div 2)))"

declare merkle_depth.simps [simp del]

text \<open>
  The strings that are hashed on the way from a leaf along a path, and those hashed when the
  levels above a list of leaves are computed. A collision is a string of the one kind and a
  different string of the other kind with the same digest.
\<close>

fun walk_inputs :: "'a crypto_scheme \<Rightarrow> string \<Rightarrow> merkle_step list \<Rightarrow> string list" where
  "walk_inputs c cur [] = []"
| "walk_inputs c cur (s # ss) =
     (if is_right s then cur @ sibling_hash s else sibling_hash s @ cur) # walk_inputs c (merkle_walk c cur s) ss"

fun pair_inputs :: "string list \<Rightarrow> string list" where
  "pair_inputs (x # y # hashes) = (x @ y) # pair_inputs hashes"
| "pair_inputs [x] = []"
| "pair_inputs [] = []"

function tree_inputs :: "'a crypto_scheme \<Rightarrow> string list \<Rightarrow> string list" where
  "tree_inputs c level =
     (if 1 < length level then pair_inputs (merkle_pad level) @ tree_inputs c (merkle_pairs c (merkle_pad level))
      else [])"
  by pat_completeness auto
termination
  by (relation "measure (\<lambda>(c, level). length level)") (auto simp: length_merkle_level)

declare tree_inputs.simps [simp del]

definition collision_between :: "'a crypto_scheme \<Rightarrow> string list \<Rightarrow> string list \<Rightarrow> bool" where
  "collision_between c xs ys = (\<exists>x \<in> set xs. \<exists>y \<in> set ys. x \<noteq> y \<and> sha256_hex c x = sha256_hex c y)"

section \<open>Completeness\<close>

lemma merkle_level_nth:
  assumes "idx < length level"
  shows "merkle_pairs c (merkle_pad level) ! (idx div 2) =
    (if idx mod 2 = 0 then sha256_hex c (level ! idx @ merkle_pad level ! (idx + 1))
     else sha256_hex c (merkle_pad level ! (idx - 1) @ level ! idx))"
proof -
  have "even (length (merkle_pad level))" by (rule even_length_merkle_pad)
  moreover have "idx < length (merkle_pad level)" using assms by (simp add: merkle_pad_def)
  ultimately have bound: "2 * (idx div 2) + 1 < length (merkle_pad level)" by presburger
  note pair = merkle_pairs_nth [OF bound, of c]
  show ?thesis
  proof (cases "idx mod 2 = 0")
    case True
    then have "2 * (idx div 2) = idx" by presburger
    with True pair assms show ?thesis by (simp only: simp_thms if_True merkle_pad_nth)
  next
    case False
    then have "2 * (idx div 2) = idx - 1" and "idx - 1 + 1 = idx" by presburger+
    with False pair assms show ?thesis by (simp only: if_False merkle_pad_nth)
  qed
qed

lemma walk_proof_path:
  "idx < length level \<Longrightarrow>
     foldl (merkle_walk c) (level ! idx) (proof_path c idx level) = hd (merkle_loop c level)"
proof (induction c idx level rule: proof_path.induct)
  case (1 c idx level)
  show ?case
  proof (cases "1 < length level")
    case True
    let ?next = "merkle_pairs c (merkle_pad level)"
    have "idx div 2 < length ?next"
      using "1.prems" by (simp add: length_merkle_level)
    then have "foldl (merkle_walk c) (?next ! (idx div 2)) (proof_path c (idx div 2) ?next)
        = hd (merkle_loop c ?next)"
      using "1.IH" True by (simp add: Let_def)
    moreover have "merkle_walk c (level ! idx)
        \<lparr> sibling_hash = merkle_pad level ! (if idx mod 2 = 0 then idx + 1 else idx - 1),
          is_right = (idx mod 2 = 0) \<rparr> = ?next ! (idx div 2)"
      using merkle_level_nth [OF "1.prems", of c] by (simp add: merkle_walk_def)
    moreover have "proof_path c idx level =
        \<lparr> sibling_hash = merkle_pad level ! (if idx mod 2 = 0 then idx + 1 else idx - 1),
          is_right = (idx mod 2 = 0) \<rparr> # proof_path c (idx div 2) ?next"
      using True by (subst proof_path.simps) (simp only: if_True Let_def)
    ultimately show ?thesis
      using merkle_loop_step [OF True, of c] by (simp only: foldl_Cons)
  next
    case False
    with "1.prems" obtain x where "level = [x]" and "idx = 0"
      by (cases level) auto
    moreover have "proof_path c idx level = []"
      using False by (subst proof_path.simps) (simp only: if_False)
    ultimately show ?thesis by simp
  qed
qed

lemma build_merkle_proof_ok:
  "i < length (transactions b) \<Longrightarrow> \<exists>p. build_merkle_proof c b i = Inr p"
  by (simp add: build_merkle_proof_def Let_def)

lemma built_proof_verifies:
  assumes "i < length (transactions b)" and "merkle_root_field (header b) = merkle_root c (transactions b)"
  shows "\<exists>p. build_merkle_proof c b i = Inr p \<and> proof_verify c p \<and> expected_root p = merkle_root_field (header b)"
proof -
  have "foldl (merkle_walk c) (map (tx_hash_of c) (transactions b) ! i)
      (proof_path c i (map (tx_hash_of c) (transactions b))) = merkle_root c (transactions b)"
    using assms(1) by (subst walk_proof_path) (auto simp: merkle_root_def)
  with assms show ?thesis
    by (simp add: build_merkle_proof_def proof_verify_def Let_def)
qed

lemma length_proof_path: "length (proof_path c idx level) = merkle_depth (length level)"
proof (induction c idx level rule: proof_path.induct)
  case (1 c idx level)
  show ?case
  proof (cases "1 < length level")
    case True
    then have "length (proof_path c idx level) =
        Suc (length (proof_path c (idx div 2) (merkle_pairs c (merkle_pad level))))"
      by (subst proof_path.simps) (simp only: if_True Let_def length_Cons)
    also have "\<dots> = Suc (merkle_depth ((length level + 1) div 2))"
      using "1.IH" [OF True refl refl] by (simp only: length_merkle_level)
    finally show ?thesis
      using True by (subst merkle_depth.simps) simp
  next
    case False
    then show ?thesis
      by (subst proof_path.simps, subst merkle_depth.simps) simp
  qed
qed

section \<open>Soundness\<close>

lemma merkle_pairs_inputs: "merkle_pairs c hashes = map (sha256_hex c) (pair_inputs hashes)"
  by (induction c hashes rule: merkle_pairs.induct) auto

lemma pair_inputs_set:
  "z \<in> set (pair_inputs hashes) \<Longrightarrow> \<exists>x y. x \<in> set hashes \<and> y \<in> set hashes \<and> z = x @ y"
  by (induction hashes rule: pair_inputs.induct) auto

text \<open>
  One step back from a level: if the hash reached after one step is on the next level and
  there is no collision, the hash before the step is on this level.
\<close>

lemma merkle_walk_back:
  assumes nocoll: "\<not> collision_between c (walk_inputs c cur (s # ss)) (pair_inputs (merkle_pad level))"
    and len: "\<forall>h\<in>set level. length h = length cur"
    and "level \<noteq> []"
    and step: "merkle_walk c cur s \<in> set (merkle_pairs c (merkle_pad level))"
  shows "cur \<in> set level"
proof -
  let ?in = "if is_right s then cur @ sibling_hash s else sibling_hash s @ cur"
  obtain z where z: "z \<in> set (pair_inputs (merkle_pad level))" and eq: "merkle_walk c cur s = sha256_hex c z"
    using step by (auto simp: merkle_pairs_inputs)
  have "?in = z"
    using nocoll z eq by (auto simp: collision_between_def merkle_walk_def split: if_splits)
  moreover obtain x y where "x \<in> set level" "y \<in> set level" "z = x @ y"
    using pair_inputs_set [OF z] unfolding set_merkle_pad [OF assms(3)] by blast
  ultimately show ?thesis using len by (auto simp: append_eq_append_conv split: if_splits)
qed

lemma merkle_path_sound:
  "\<lbrakk> level \<noteq> []; \<forall>h\<in>set level. length h = l; length cur = l;
     length steps = merkle_depth (length level);
     foldl (merkle_walk c) cur steps = hd (merkle_loop c level);
     \<not> collision_between c (walk_inputs c cur steps) (tree_inputs c level);
     \<forall>x. length (sha256_hex c x) = l \<rbrakk> \<Longrightarrow> cur \<in> set level"
proof (induction c level arbitrary: cur steps rule: merkle_loop.induct)
  case (1 c level)
  show ?case
  proof (cases "1 < length level")
    case True
    let ?next = "merkle_pairs c (merkle_pad level)"
    have "length steps = Suc (merkle_depth (length ?next))"
      using "1.prems"(4) True by (simp add: merkle_depth.simps [of "length level"] length_merkle_level)
    then obtain s ss where steps: "steps = s # ss"
      and ss: "length ss = merkle_depth (length ?next)"
      by (cases steps) auto
    have inputs: "tree_inputs c level = pair_inputs (merkle_pad level) @ tree_inputs c ?next"
      using True by (simp add: tree_inputs.simps [of c level])
    have nocoll: "\<not> collision_between c (walk_inputs c cur steps) (pair_inputs (merkle_pad level))"
      "\<not> collision_between c (walk_inputs c (merkle_walk c cur s) ss) (tree_inputs c ?next)"
      using "1.prems"(6) by (auto simp: collision_between_def inputs steps)
    have "0 < length ?next" using True by (simp add: length_merkle_level)
    then have ne: "?next \<noteq> []" by blast
    have lens: "\<forall>h\<in>set ?next. length h = l"
      using "1.prems"(7) merkle_pairs_set by blast
    have "length (merkle_walk c cur s) = l"
      using "1.prems"(7) by (simp add: merkle_walk_def)
    moreover have "foldl (merkle_walk c) (merkle_walk c cur s) ss = hd (merkle_loop c ?next)"
      using "1.prems"(5) steps True by (simp add: merkle_loop_step)
    ultimately have "merkle_walk c cur s \<in> set ?next"
      using "1.IH" [OF True ne lens _ ss _ nocoll(2) "1.prems"(7)] by blast
    then show ?thesis
      using merkle_walk_back [OF nocoll(1) [unfolded steps]] "1.prems"(1,2,3) by blast
  next
    case False
    with "1.prems"(1) obtain x where "level = [x]" by (cases level) auto
    with "1.prems"(4,5) show ?thesis by (simp add: merkle_depth.simps)
  qed
qed

lemma leaf_lengths:
  "\<forall>x. length (sha256_hex c x) = l \<Longrightarrow> \<forall>h\<in>set (map (tx_hash_of c) txs). length h = l"
  by (simp add: tx_hash_of_def)

end
