(* ===== verification/Vrf.thy ===== *)
theory Vrf
  imports Blocks "HOL-Library.Product_Lexorder"
begin

text \<open>
  \<^verbatim>\<open>crates/consensus/src/vrf.rs\<close>: the assignment of validators to a package, the proof that
  a proposer evaluated its random function, and the selection and ranking of block
  proposers.

  The shuffle of the \<^verbatim>\<open>rand\<close> crate is a parameter: from the seed and a list it gives a list.
  What the code relies on, that the result is a permutation, is a hypothesis of the lemma
  that needs it. The lemmas show that an assignment has distinct members of the active set,
  that the ranking is a permutation of the validators sorted by score, that it does not
  depend on the order of its input, and how it relates to the proposer selected.
\<close>

section \<open>Definitions\<close>

datatype vrf_error =
    NeedValidators nat nat
  | InvalidHex
  | SeedNot32Bytes
  | KeyNot32Bytes
  | InvalidPublicKey
  | InvalidSignature
  | ProofVerificationFailed
  | OutputDoesNotMatchProof

definition decode_hex :: "'a crypto_scheme \<Rightarrow> string \<Rightarrow> vrf_error + string" where
  "decode_hex c s = (case hex_decode c s of None \<Rightarrow> Inl InvalidHex | Some b \<Rightarrow> Inr b)"

definition selection_seed :: "'a crypto_scheme \<Rightarrow> string \<Rightarrow> nat \<Rightarrow> string option \<Rightarrow> string" where
  "selection_seed c package_canonical block_height out =
     (case out of
        Some output \<Rightarrow>
          sha256_hex c (output @ '':'' @ show_nat block_height @ '':'' @ package_canonical)
      | None \<Rightarrow> sha256_hex c (show_nat block_height @ '':'' @ package_canonical))"

definition select_validators ::
    "'a crypto_scheme \<Rightarrow> (string \<Rightarrow> nat list \<Rightarrow> nat list) \<Rightarrow> string list \<Rightarrow> string \<Rightarrow> nat \<Rightarrow> nat
     \<Rightarrow> string option \<Rightarrow> vrf_error + string list" where
  "select_validators c shuffle active package_canonical block_height n out =
     (if length active < n then Inl (NeedValidators n (length active))
      else
        and_then (decode_hex c (selection_seed c package_canonical block_height out))
          (\<lambda>seed_bytes.
            if length seed_bytes \<noteq> 32 then Inl SeedNot32Bytes
            else
              let indices = shuffle seed_bytes [0..<length active]
              in Inr (map (\<lambda>i. active ! i) (take n indices))))"

text \<open>\<^verbatim>\<open>prove\<close> gives the output and the proof, both in hex.\<close>

definition prove :: "'a crypto_scheme \<Rightarrow> string \<Rightarrow> string \<Rightarrow> vrf_error + (string \<times> string)" where
  "prove c seed privkey_hex =
     and_then (decode_hex c (trim privkey_hex))
       (\<lambda>key.
         if length key \<noteq> 32 then Inl KeyNot32Bytes
         else
           let sig = ed_sign c key seed
           in Inr (sha256_hex c sig, hex_encode c sig))"

definition vrf_verify ::
    "'a crypto_scheme \<Rightarrow> string \<Rightarrow> string \<Rightarrow> string \<Rightarrow> string \<Rightarrow> vrf_error + unit" where
  "vrf_verify c seed pubkey_hex output_hex proof_hex =
     and_then (decode_hex c pubkey_hex) (\<lambda>pk.
       if \<not> vk_try_from c pk then Inl InvalidPublicKey
       else and_then (decode_hex c proof_hex) (\<lambda>sig.
         if \<not> sig_try_from c sig then Inl InvalidSignature
         else if \<not> ed_verify c pk seed sig then Inl ProofVerificationFailed
         else if sha256_hex c sig \<noteq> output_hex then Inl OutputDoesNotMatchProof
         else Inr ()))"

record vrf_validator =
  vrf_id :: string
  vrf_pubkey :: string
  val_vrf_output :: "string option"
  val_vrf_proof :: "string option"

definition vrf_score :: "'a crypto_scheme \<Rightarrow> string \<Rightarrow> vrf_error + string" where
  "vrf_score c output_hex = and_then (decode_hex c output_hex) (\<lambda>b. Inr (sha256_hex c b))"

text \<open>The score of a validator from public data only.\<close>

definition proposer_score :: "'a crypto_scheme \<Rightarrow> string \<Rightarrow> vrf_validator \<Rightarrow> string" where
  "proposer_score c epoch_seed v = sha256_hex c (vrf_pubkey v @ '':'' @ epoch_seed)"

definition scored :: "'a crypto_scheme \<Rightarrow> string \<Rightarrow> vrf_validator list \<Rightarrow> (string \<times> string) list" where
  "scored c epoch_seed vs = map (\<lambda>v. (vrf_id v, proposer_score c epoch_seed v)) vs"

text \<open>\<^verbatim>\<open>Iterator::min_by\<close> on the scores: of several least elements, the first.\<close>

fun min_by_score :: "(string \<times> string) list \<Rightarrow> (string \<times> string) option" where
  "min_by_score [] = None"
| "min_by_score (x # xs) = Some (foldl (\<lambda>x y. if snd y < snd x then y else x) x xs)"

definition select_proposer_deterministic ::
    "'a crypto_scheme \<Rightarrow> vrf_validator list \<Rightarrow> string \<Rightarrow> string option" where
  "select_proposer_deterministic c vs epoch_seed =
     map_option fst (min_by_score (scored c epoch_seed vs))"

text \<open>Sorted by score, then by identifier.\<close>

definition rank_proposers :: "'a crypto_scheme \<Rightarrow> vrf_validator list \<Rightarrow> string \<Rightarrow> string list" where
  "rank_proposers c vs epoch_seed =
     map fst (sort_key (\<lambda>(i, s). (s, i)) (scored c epoch_seed vs))"

definition proposer_rank ::
    "'a crypto_scheme \<Rightarrow> vrf_validator list \<Rightarrow> string \<Rightarrow> string \<Rightarrow> nat option" where
  "proposer_rank c vs epoch_seed i = position (\<lambda>x. x = i) (rank_proposers c vs epoch_seed)"

definition has_valid_proof :: "'a crypto_scheme \<Rightarrow> string \<Rightarrow> vrf_validator \<Rightarrow> bool" where
  "has_valid_proof c epoch_seed v =
     (case (val_vrf_output v, val_vrf_proof v) of
        (Some output, Some prf) \<Rightarrow> is_ok (vrf_verify c epoch_seed (vrf_pubkey v) output prf)
      | _ \<Rightarrow> False)"

definition select_proposer ::
    "'a crypto_scheme \<Rightarrow> vrf_validator list \<Rightarrow> string \<Rightarrow> string option" where
  "select_proposer c vs epoch_seed =
     (let use_vrf_scores = (vs \<noteq> [] \<and> list_all (has_valid_proof c epoch_seed) vs) in
      if \<not> use_vrf_scores then select_proposer_deterministic c vs epoch_seed
      else
        map_option fst (min_by_score
          (List.map_filter
            (\<lambda>v. case val_vrf_output v of
                    None \<Rightarrow> None
                  | Some output \<Rightarrow>
                      (case vrf_score c output of Inl _ \<Rightarrow> None | Inr s \<Rightarrow> Some (vrf_id v, s)))
            vs)))"

section \<open>Assignment of validators\<close>

lemma select_validators_ok:
  assumes perm: "\<And>s xs. mset (shuffle s xs) = mset xs"
    and ok: "select_validators c shuffle active p h n out = Inr sel"
  shows "length sel = n" and "set sel \<subseteq> set active" and "distinct active \<Longrightarrow> distinct sel"
proof -
  from ok obtain seed where le: "n \<le> length active"
    and sel: "sel = map (\<lambda>i. active ! i) (take n (shuffle seed [0..<length active]))"
    by (auto simp: select_validators_def and_then_eq_Inr Let_def split: if_splits)
  let ?is = "shuffle seed [0..<length active]"
  have m: "mset ?is = mset [0..<length active]" by (rule perm)
  have len: "length ?is = length active"
    using mset_eq_length [OF m] by simp
  have set_is: "set ?is = {0..<length active}"
    using mset_eq_setD [OF m] by simp
  have dist: "distinct ?is"
    using mset_eq_imp_distinct_iff [OF m] by simp
  have sub: "set (take n ?is) \<subseteq> {0..<length active}"
    using set_is set_take_subset by fast
  show "length sel = n" using sel len le by simp
  show "set sel \<subseteq> set active" using sub sel by auto
  assume "distinct active"
  then have "inj_on (\<lambda>i. active ! i) {0..<length active}"
    by (simp add: inj_on_def nth_eq_iff_index_eq)
  then have "inj_on (\<lambda>i. active ! i) (set (take n ?is))"
    using sub inj_on_subset by blast
  with dist show "distinct sel" by (simp add: sel distinct_map)
qed

section \<open>Proofs of evaluation\<close>

text \<open>What the signature and hex crates document of a key pair.\<close>

definition crypto_roundtrip :: "'a crypto_scheme \<Rightarrow> bool" where
  "crypto_roundtrip c =
     ((\<forall>b. hex_decode c (hex_encode c b) = Some b)
      \<and> (\<forall>sk. length sk = 32 \<longrightarrow> vk_try_from c (ed_public c sk))
      \<and> (\<forall>sk m. length sk = 32 \<longrightarrow> sig_try_from c (ed_sign c sk m)
                \<and> ed_verify c (ed_public c sk) m (ed_sign c sk m)))"

lemma prove_then_verify:
  assumes "crypto_roundtrip c"
    and "prove c seed priv = Inr (out, prf)" and "hex_decode c (trim priv) = Some sk"
  shows "vrf_verify c seed (hex_encode c (ed_public c sk)) out prf = Inr ()"
  using assms
  by (auto simp: prove_def vrf_verify_def decode_hex_def crypto_roundtrip_def Let_def
      split: if_splits)

lemma vrf_verify_ok_iff:
  "vrf_verify c seed pk out prf = Inr () \<longleftrightarrow>
     (\<exists>k s. hex_decode c pk = Some k \<and> vk_try_from c k \<and> hex_decode c prf = Some s
        \<and> sig_try_from c s \<and> ed_verify c k seed s \<and> sha256_hex c s = out)"
  by (auto simp: vrf_verify_def decode_hex_def and_then_eq_Inr split: option.splits if_splits)

section \<open>Selection of the proposer\<close>

lemma foldl_min_props:
  "foldl (\<lambda>x y. if snd y < snd x then y else x) x xs \<in> insert x (set xs) \<and>
   (\<forall>z \<in> insert x (set xs). snd (foldl (\<lambda>x y. if snd y < snd x then y else x) x xs)
      \<le> (snd z :: 'b::linorder))"
proof (induction xs arbitrary: x)
  case (Cons y ys)
  show ?case using Cons [of y] Cons [of x] by (cases "snd y < snd x") auto
qed simp

lemma min_by_score_Some:
  assumes "min_by_score xs = Some p"
  shows "p \<in> set xs" and "z \<in> set xs \<Longrightarrow> snd p \<le> snd z"
proof -
  obtain x ys where xs: "xs = x # ys" using assms by (cases xs) auto
  with assms have p: "p = foldl (\<lambda>x y. if snd y < snd x then y else x) x ys" by simp
  show "p \<in> set xs" and "z \<in> set xs \<Longrightarrow> snd p \<le> snd z"
    using foldl_min_props [of x ys] by (auto simp: p xs)
qed

lemma min_by_score_None [simp]: "min_by_score xs = None \<longleftrightarrow> xs = []"
  by (cases xs) auto

lemma select_proposer_deterministic_Some:
  assumes "select_proposer_deterministic c vs seed = Some i"
  obtains v where "v \<in> set vs" and "vrf_id v = i"
    and "\<forall>w \<in> set vs. proposer_score c seed v \<le> proposer_score c seed w"
proof -
  obtain s where min: "min_by_score (scored c seed vs) = Some (i, s)"
    using assms by (auto simp: select_proposer_deterministic_def)
  from min_by_score_Some(1) [OF min] obtain v where v: "v \<in> set vs" "vrf_id v = i"
    "proposer_score c seed v = s"
    by (auto simp: scored_def)
  moreover have "\<forall>w \<in> set vs. s \<le> proposer_score c seed w"
    using min_by_score_Some(2) [OF min] by (force simp: scored_def)
  ultimately show thesis using that by blast
qed

lemma select_proposer_deterministic_total:
  "vs \<noteq> [] \<Longrightarrow> \<exists>i. select_proposer_deterministic c vs seed = Some i"
  by (cases vs) (auto simp: select_proposer_deterministic_def scored_def)

section \<open>Ranking\<close>

lemma mset_rank_proposers: "mset (rank_proposers c vs seed) = mset (map vrf_id vs)"
  by (simp add: rank_proposers_def scored_def image_mset.compositionality comp_def)

lemma set_rank_proposers: "set (rank_proposers c vs seed) = vrf_id ` set vs"
  using mset_eq_setD [OF mset_rank_proposers [of c vs seed]] by simp

lemma length_rank_proposers: "length (rank_proposers c vs seed) = length vs"
  by (simp add: rank_proposers_def scored_def)

lemma proposer_rank_None:
  "proposer_rank c vs seed i = None \<longleftrightarrow> i \<notin> vrf_id ` set vs"
  by (auto simp: proposer_rank_def position_None set_rank_proposers)

interpretation ranking: order_insensitive "\<lambda>vs. rank_proposers c vs seed"
proof
  fix vs vs' :: "vrf_validator list"
  assume "mset vs = mset vs'"
  then have m: "mset (scored c seed vs) = mset (scored c seed vs')"
    by (simp add: scored_def)
  have "sort_key (\<lambda>(i, s). (s, i)) (scored c seed vs)
      = sort_key (\<lambda>(i, s). (s, i)) (scored c seed vs')"
    by (rule sort_key_eq_sort_key [OF m]) (auto simp: inj_on_def)
  then show "rank_proposers c vs seed = rank_proposers c vs' seed"
    by (simp add: rank_proposers_def)
qed

text \<open>The first of the ranking has a least score.\<close>

lemma rank_hd_least:
  assumes "vs \<noteq> []"
  obtains v where "v \<in> set vs" and "hd (rank_proposers c vs seed) = vrf_id v"
    and "\<forall>w \<in> set vs. (proposer_score c seed v, vrf_id v) \<le> (proposer_score c seed w, vrf_id w)"
proof -
  define k :: "string \<times> string \<Rightarrow> string \<times> string" where "k = (\<lambda>(i, s). (s, i))"
  have ne: "scored c seed vs \<noteq> []" using assms by (simp add: scored_def)
  note least = hd_sort_key_least [OF ne, where f = k]
  from least(1) obtain v where v: "v \<in> set vs"
    and hd: "hd (sort_key k (scored c seed vs)) = (vrf_id v, proposer_score c seed v)"
    by (auto simp: scored_def)
  have "(proposer_score c seed v, vrf_id v) \<le> (proposer_score c seed w, vrf_id w)"
    if "w \<in> set vs" for w
  proof -
    from that have "(vrf_id w, proposer_score c seed w) \<in> set (scored c seed vs)"
      by (auto simp: scored_def)
    from least(2) [OF this, unfolded hd] show ?thesis by (simp only: k_def split_conv)
  qed
  moreover have "sort_key k (scored c seed vs) \<noteq> []"
    using ne by (metis length_0_conv length_sort)
  then have "hd (map fst (sort_key k (scored c seed vs))) = vrf_id v"
    by (metis hd hd_map fst_conv)
  then have "hd (rank_proposers c vs seed) = vrf_id v"
    by (simp only: rank_proposers_def flip: k_def)
  ultimately show thesis using that v by blast
qed

lemma rank_hd_selected:
  assumes "vs \<noteq> []" and inj: "inj_on (proposer_score c seed) (set vs)"
  shows "select_proposer_deterministic c vs seed = Some (hd (rank_proposers c vs seed))"
proof -
  obtain i where i: "select_proposer_deterministic c vs seed = Some i"
    using select_proposer_deterministic_total [OF assms(1)] by blast
  obtain v where v: "v \<in> set vs" "vrf_id v = i"
    "\<forall>w \<in> set vs. proposer_score c seed v \<le> proposer_score c seed w"
    by (rule select_proposer_deterministic_Some [OF i])
  obtain u where u: "u \<in> set vs" "hd (rank_proposers c vs seed) = vrf_id u"
    "\<forall>w \<in> set vs. (proposer_score c seed u, vrf_id u) \<le> (proposer_score c seed w, vrf_id w)"
    by (rule rank_hd_least [OF assms(1)])
  from u(3) v(1) have "proposer_score c seed u \<le> proposer_score c seed v"
    by (auto simp: less_eq_prod_def)
  moreover have "proposer_score c seed v \<le> proposer_score c seed u" using v(3) u(1) by blast
  ultimately have "u = v" using inj u(1) v(1) by (auto dest: inj_onD)
  with u(2) v(2) i show ?thesis by simp
qed

section \<open>Selection with proofs\<close>

lemma select_proposer_fallback:
  "\<not> list_all (has_valid_proof c seed) vs \<Longrightarrow>
     select_proposer c vs seed = select_proposer_deterministic c vs seed"
  by (simp add: select_proposer_def)

end
