(* ===== verification/Galois_Field.thy ===== *)
theory Galois_Field
  imports Prelude
begin

text \<open>
  The field GF(256) of \<^verbatim>\<open>crates/threshold-encryption/src/shamir.rs\<close>: addition is bitwise
  exclusive or, multiplication and division go through the tables of powers and logarithms of
  the generator 3. The lemmas show that the tables are right (the 255 powers of the generator
  are the non-zero bytes, the logarithm inverts the power) and that the byte operations of the
  code form a field: the type \<open>gf\<close> of bytes is an instance of the library's \<^verbatim>\<open>field\<close> class, so
  that sums, products and the field simplification rules apply to them.
\<close>

unbundle bit_operations_syntax

section \<open>Tables\<close>

definition irreducible_poly :: "16 word" where
  "irreducible_poly = 0x11b"

definition exp_step :: "16 word \<Rightarrow> 16 word" where
  "exp_step val =
     (let v = push_bit 1 val XOR val in
      if v AND 0x100 \<noteq> 0 then v XOR irreducible_poly else v)"

fun exp_loop :: "nat \<Rightarrow> 16 word \<Rightarrow> u8 list" where
  "exp_loop 0 val = []"
| "exp_loop (Suc n) val = ucast val # exp_loop n (exp_step val)"

definition build_exp_table :: "u8 list" where
  "build_exp_table = exp_loop 256 1"

definition build_log_table :: "u8 list" where
  "build_log_table = fold (\<lambda>i table. table[unat (build_exp_table ! i) := of_nat i]) [0..<255] (replicate 256 0)"

section \<open>Operations\<close>

definition gf_add :: "u8 \<Rightarrow> u8 \<Rightarrow> u8" where
  "gf_add a b = a XOR b"

definition gf_sub :: "u8 \<Rightarrow> u8 \<Rightarrow> u8" where
  "gf_sub a b = a XOR b"

definition gf_mul :: "u8 \<Rightarrow> u8 \<Rightarrow> u8" where
  "gf_mul a b =
     (if a = 0 \<or> b = 0 then 0
      else
        let log_a = ucast (build_log_table ! unat a) :: 16 word;
            log_b = ucast (build_log_table ! unat b);
            log_sum = (log_a + log_b) mod 255
        in build_exp_table ! unat log_sum)"

definition gf_div :: "u8 \<Rightarrow> u8 \<Rightarrow> u8" where
  "gf_div a b =
     (if a = 0 \<or> b = 0 then 0
      else
        let log_a = ucast (build_log_table ! unat a) :: 16 word;
            log_b = ucast (build_log_table ! unat b);
            log_diff = (log_a + 255 - log_b) mod 255
        in build_exp_table ! unat log_diff)"

definition gf_inverse :: "u8 \<Rightarrow> u8" where
  "gf_inverse a =
     (if a = 0 then 0
      else
        let log_a = ucast (build_log_table ! unat a) :: 16 word;
            log_inv = (255 - log_a) mod 255
        in build_exp_table ! unat log_inv)"

section \<open>The powers of the generator\<close>

lemma exp_step_alt: "exp_step x = (let v = push_bit 1 x XOR x in v XOR (if bit v 8 then irreducible_poly else 0))"
proof -
  have "v AND 0x100 \<noteq> 0 \<longleftrightarrow> bit v 8" for v :: "16 word"
    using and_exp_eq_0_iff_not_bit [of v 8] by simp
  then show ?thesis by (simp add: exp_step_def Let_def)
qed

lemma exp_step_linear: "exp_step (x XOR y) = exp_step x XOR exp_step y"
  by (auto simp: exp_step_alt Let_def push_bit_xor bit_xor_iff ac_simps)

lemma exp_step_0 [simp]: "exp_step 0 = 0"
  by (simp add: exp_step_def)

lemma exp_pow_linear: "(exp_step ^^ n) (x XOR y) = (exp_step ^^ n) x XOR (exp_step ^^ n) y"
  by (induction n) (simp_all add: exp_step_linear)

lemma exp_pow_0 [simp]: "(exp_step ^^ n) 0 = 0"
  by (induction n) simp_all

lemma exp_15: "(exp_step ^^ 15) x = exp_step (exp_step (exp_step (exp_step (exp_step (exp_step (exp_step (exp_step (exp_step (exp_step (exp_step (exp_step (exp_step (exp_step (exp_step x))))))))))))))"
  by (simp add: numeral_eq_Suc)

lemma exp_17: "(exp_step ^^ 17) x = exp_step (exp_step (exp_step (exp_step (exp_step (exp_step (exp_step (exp_step (exp_step (exp_step (exp_step (exp_step (exp_step (exp_step (exp_step (exp_step (exp_step x))))))))))))))))"
  by (simp add: numeral_eq_Suc)

lemma exp_chunks:
  "(exp_step ^^ 17) 1 = 0xe1"
  "(exp_step ^^ 17) 0xe1 = 0x5c"
  "(exp_step ^^ 17) 0x5c = 0xc"
  "(exp_step ^^ 17) 0xc = 0xe0"
  "(exp_step ^^ 17) 0xe0 = 0xbd"
  "(exp_step ^^ 17) 0xbd = 0x50"
  "(exp_step ^^ 17) 0x50 = 0xec"
  "(exp_step ^^ 17) 0xec = 0x5d"
  "(exp_step ^^ 17) 0x5d = 0xed"
  "(exp_step ^^ 17) 0xed = 0xbc"
  "(exp_step ^^ 17) 0xbc = 0xb1"
  "(exp_step ^^ 17) 0xb1 = 0xb0"
  "(exp_step ^^ 17) 0xb0 = 0x51"
  "(exp_step ^^ 17) 0x51 = 0xd"
  "(exp_step ^^ 17) 0xd = 1"
  by (simp_all add: exp_17 exp_step_def irreducible_poly_def)

abbreviation gen_pow :: "nat \<Rightarrow> 16 word" where
  "gen_pow n \<equiv> (exp_step ^^ n) 1"

lemma gen_pow_add: "gen_pow (m + n) = (exp_step ^^ m) (gen_pow n)"
  by (simp add: funpow_add)

lemma gen_pow_values: "gen_pow 51 = 0xc" "gen_pow 85 = 0xbd" "gen_pow 255 = 1" "gen_pow 15 = 0x35"
proof -
  have "gen_pow (17 + (17 + (17 + 0))) = 0xc"
    "gen_pow (17 + (17 + (17 + (17 + (17 + 0))))) = 0xbd"
    "gen_pow (17 + (17 + (17 + (17 + (17 + (17 + (17 + (17 + (17 + (17 + (17 + (17 + (17 + (17 + (17 + 0))))))))))))))) = 1"
    by (simp_all only: gen_pow_add exp_chunks funpow_0)
  then show "gen_pow 51 = 0xc" "gen_pow 85 = 0xbd" "gen_pow 255 = 1" by simp_all
  show "gen_pow 15 = 0x35" by (simp add: exp_15 exp_step_def irreducible_poly_def)
qed

lemma gen_pow_period: "gen_pow (255 * k + n) = gen_pow n"
proof -
  have "gen_pow (255 * k) = 1" by (induction k) (simp_all add: gen_pow_add gen_pow_values)
  then show ?thesis by (simp add: gen_pow_add add.commute [of "255 * k"])
qed

lemma gen_pow_mod: "gen_pow (n mod 255) = gen_pow n"
  using gen_pow_period [of "n div 255" "n mod 255"] by simp

lemma gen_pow_multiple: "gen_pow n = 1 \<Longrightarrow> gen_pow (n * k) = 1"
  by (induction k) (simp_all add: gen_pow_add)

text \<open>The order of the generator is 255: no proper divisor of 255 is a period.\<close>

lemma divisors_255: "d dvd 255 \<Longrightarrow> d < 255 \<Longrightarrow> d dvd 15 \<or> d dvd 51 \<or> d dvd (85 :: nat)"
proof -
  assume d: "d dvd 255" "d < (255 :: nat)"
  have "list_all (\<lambda>d. d dvd 255 \<longrightarrow> d dvd 15 \<or> d dvd 51 \<or> d dvd (85 :: nat)) [0..<255]" by code_simp
  then show ?thesis using d by (simp add: list_all_iff del: upt_Suc)
qed

lemma gen_pow_order:
  assumes "0 < n" and "n < 255"
  shows "gen_pow n \<noteq> 1"
proof
  assume one: "gen_pow n = 1"
  let ?g = "gcd n 255"
  obtain x y where "n * x = 255 * y + ?g" using bezout_nat [of n 255] assms(1) by auto
  then have g: "gen_pow ?g = 1" using gen_pow_multiple [OF one, of x] gen_pow_period [of y ?g] by simp
  have "?g < 255" using gcd_le1_nat [of n 255] assms by linarith
  then have "?g dvd 15 \<or> ?g dvd 51 \<or> ?g dvd 85" by (rule divisors_255 [OF gcd_dvd2])
  then have "gen_pow 15 = 1 \<or> gen_pow 51 = 1 \<or> gen_pow 85 = 1"
    using gen_pow_multiple [OF g] by (metis dvdE)
  then show False by (simp add: gen_pow_values)
qed

lemma gen_pow_inj: "inj_on gen_pow {..<255}"
proof (rule linorder_inj_onI')
  fix i j :: nat assume ij: "i \<in> {..<255}" "j \<in> {..<255}" "i < j"
  show "gen_pow i \<noteq> gen_pow j"
  proof
    assume "gen_pow i = gen_pow j"
    then have "gen_pow (255 - j + i) = gen_pow (255 - j + j)" by (simp only: gen_pow_add)
    moreover have "255 - j + j = 255" "0 < 255 - j + i" "255 - j + i < 255" using ij by auto
    ultimately show False using gen_pow_order [of "255 - j + i"] by (simp only: gen_pow_values)
  qed
qed

lemma gen_pow_nonzero: "gen_pow n \<noteq> 0"
proof
  assume "gen_pow n = 0"
  then have "gen_pow (n mod 255) = 0" by (simp add: gen_pow_mod)
  then have "gen_pow (255 - n mod 255 + n mod 255) = 0" by (simp only: gen_pow_add exp_pow_0)
  then show False by (simp add: gen_pow_values less_imp_le)
qed

section \<open>The tables are right\<close>

lemma poly_bits: "bit irreducible_poly n \<Longrightarrow> n \<le> 8"
proof -
  assume bit: "bit irreducible_poly n"
  then have "n < 16" using bit_imp_le_length [of irreducible_poly n] by simp
  moreover have "list_all (\<lambda>n. bit (0x11b :: 16 word) n \<longrightarrow> n \<le> 8) [0..<16]" by (simp add: upt_rec)
  ultimately show "n \<le> 8" using bit by (simp add: list_all_iff irreducible_poly_def)
qed

lemma exp_step_high:
  assumes "\<And>n. 8 \<le> n \<Longrightarrow> \<not> bit x n" and "8 \<le> n"
  shows "\<not> bit (exp_step x) n"
proof (cases "n = 8")
  case True
  have "bit irreducible_poly 8" by (simp add: irreducible_poly_def)
  with True show ?thesis by (simp add: exp_step_alt Let_def bit_xor_iff)
next
  case False
  then have "\<not> bit (push_bit 1 x XOR x) n" using assms(1) [of "n - 1"] assms(1) [of n] assms(2)
    unfolding bit_xor_iff bit_push_bit_iff by auto
  moreover have "\<not> bit irreducible_poly n" using False assms(2) poly_bits by force
  ultimately show ?thesis by (simp add: exp_step_alt Let_def bit_xor_iff)
qed

lemma gen_pow_high: "8 \<le> n \<Longrightarrow> \<not> bit (gen_pow k) n"
proof (induction k arbitrary: n)
  case 0
  then show ?case by (simp add: bit_1_iff)
next
  case (Suc k)
  from exp_step_high [of "gen_pow k" n] Suc show ?case by simp
qed

text \<open>The power as a byte.\<close>

abbreviation gen_byte :: "nat \<Rightarrow> u8" where
  "gen_byte n \<equiv> ucast (gen_pow n)"

lemma ucast_gen_byte: "ucast (gen_byte n) = gen_pow n"
  by (rule bit_word_eqI) (use gen_pow_high in \<open>force simp: bit_ucast_iff not_le\<close>)

lemma gen_byte_eq: "gen_byte i = gen_byte j \<longleftrightarrow> gen_pow i = gen_pow j"
  by (metis ucast_gen_byte)

lemma gen_byte_inj: "inj_on gen_byte {..<255}"
  using gen_pow_inj by (simp add: inj_on_def gen_byte_eq)

lemma gen_byte_nonzero: "gen_byte n \<noteq> 0"
  using gen_pow_nonzero [of n] ucast_gen_byte [of n] by auto

lemma gen_byte_onto: "gen_byte ` {..<255} = - {0}"
proof (rule card_subset_eq)
  show "card (gen_byte ` {..<255}) = card (- {0 :: u8})"
    by (simp add: card_image [OF gen_byte_inj] Compl_eq_Diff_UNIV card_Diff_subset card_word)
qed (use gen_byte_nonzero in auto)

lemma exp_loop_nth: "i < n \<Longrightarrow> exp_loop n v ! i = ucast ((exp_step ^^ i) v)"
  by (induction n arbitrary: i v) (auto simp: nth_Cons' less_Suc_eq_0_disj funpow_swap1)

lemma exp_table_nth: "i < 256 \<Longrightarrow> build_exp_table ! i = gen_byte i"
  by (simp add: build_exp_table_def exp_loop_nth)

lemma fold_update_nth:
  assumes "distinct (map f is)" and "\<forall>i \<in> set is. f i < length t" and "i \<in> set is"
  shows "fold (\<lambda>i t. t[f i := g i]) is t ! f i = g i"
  using assms
proof (induction "is" arbitrary: t)
  case (Cons j js)
  have other: "fold (\<lambda>i t. t[f i := g i]) js t ! k = t ! k" if "k \<notin> f ` set js" for t :: "'b list" and k
    using that by (induction js arbitrary: t) auto
  show ?case
  proof (cases "i \<in> set js")
    case True
    then show ?thesis using Cons by simp
  next
    case False
    then show ?thesis using Cons.prems other [of "f i"] by auto
  qed
qed simp

lemma log_table_nth:
  assumes "i < 255"
  shows "build_log_table ! unat (gen_byte i) = of_nat i"
proof -
  have d: "distinct (map (\<lambda>i. unat (build_exp_table ! i)) [0..<255])"
    using gen_byte_inj by (auto simp: distinct_map inj_on_def exp_table_nth simp flip: word_unat_eq_iff)
  have "unat (b :: u8) < 2 ^ LENGTH(8)" for b by (rule unsigned_less)
  then have "unat (build_exp_table ! i) < 256" for i by (simp add: numeral_eq_Suc)
  then have "build_log_table ! unat (build_exp_table ! i) = of_nat i"
    unfolding build_log_table_def using assms by (intro fold_update_nth [OF d]) auto
  then show ?thesis using assms by (simp add: exp_table_nth)
qed

section \<open>The byte operations form a field\<close>

definition gf_log :: "u8 \<Rightarrow> nat" where
  "gf_log a = unat (build_log_table ! unat a)"

lemma gf_log_gen_byte: "i < 255 \<Longrightarrow> gf_log (gen_byte i) = i"
  by (simp add: gf_log_def log_table_nth unsigned_of_nat take_bit_nat_eq_self)

lemma gen_byte_log:
  assumes "a \<noteq> 0"
  shows "gen_byte (gf_log a) = a" and "gf_log a < 255"
proof -
  from assms gen_byte_onto obtain i where "i < 255" "a = gen_byte i" by auto
  then show "gen_byte (gf_log a) = a" "gf_log a < 255" by (simp_all add: gf_log_gen_byte)
qed

lemma word_index:
  assumes "a \<noteq> 0" and "b \<noteq> 0"
  shows "unat ((ucast (build_log_table ! unat a) + ucast (build_log_table ! unat b)) mod (255 :: 16 word)) = (gf_log a + gf_log b) mod 255"
    and "unat ((ucast (build_log_table ! unat a) + 255 - ucast (build_log_table ! unat b)) mod (255 :: 16 word)) = (gf_log a + (255 - gf_log b)) mod 255"
proof -
  have "unat (b :: u8) < 2 ^ LENGTH(8)" for b by (rule unsigned_less)
  then have "unat (b :: u8) < 65536" for b by (rule less_trans) simp
  then have u: "unat (ucast (build_log_table ! unat x) :: 16 word) = gf_log x" for x
    by (simp add: gf_log_def unsigned_ucast_eq take_bit_nat_eq_self)
  show "unat ((ucast (build_log_table ! unat a) + ucast (build_log_table ! unat b)) mod (255 :: 16 word)) = (gf_log a + gf_log b) mod 255"
    using gen_byte_log [OF assms(1)] gen_byte_log [OF assms(2)] by (simp add: unat_mod unat_word_ariths u)
  let ?a = "ucast (build_log_table ! unat a) :: 16 word" and ?b = "ucast (build_log_table ! unat b) :: 16 word"
  have sum: "unat (?a + 255) = gf_log a + 255"
    using gen_byte_log [OF assms(1)] by (simp add: unat_word_ariths u)
  then have "?b \<le> ?a + 255" using gen_byte_log [OF assms(2)] by (simp add: word_le_nat_alt u)
  then have "unat (?a + 255 - ?b) = gf_log a + 255 - gf_log b" by (simp only: unat_sub sum u)
  then show "unat ((?a + 255 - ?b) mod (255 :: 16 word)) = (gf_log a + (255 - gf_log b)) mod 255"
    using gen_byte_log [OF assms(2)] by (simp add: unat_mod)
qed

lemma gf_mul_gen: "a \<noteq> 0 \<Longrightarrow> b \<noteq> 0 \<Longrightarrow> gf_mul a b = gen_byte (gf_log a + gf_log b)"
  by (simp add: gf_mul_def Let_def word_index exp_table_nth gen_byte_eq gen_pow_mod)

lemma gf_div_gen: "a \<noteq> 0 \<Longrightarrow> b \<noteq> 0 \<Longrightarrow> gf_div a b = gen_byte (gf_log a + (255 - gf_log b))"
  by (simp add: gf_div_def Let_def word_index exp_table_nth gen_byte_eq gen_pow_mod)

lemma gf_mul_0 [simp]: "gf_mul 0 a = 0" "gf_mul a 0 = 0"
  by (simp_all add: gf_mul_def)

lemma gf_log_gen_byte_mod: "gf_log (gen_byte n) = n mod 255"
  using gf_log_gen_byte [of "n mod 255"] by (simp add: gen_pow_mod)

lemma gf_mul_nonzero: "a \<noteq> 0 \<Longrightarrow> b \<noteq> 0 \<Longrightarrow> gf_mul a b \<noteq> 0"
  by (simp add: gf_mul_gen gen_byte_nonzero)

lemma gf_mul_commute: "gf_mul a b = gf_mul b a"
  by (cases "a = 0 \<or> b = 0") (auto simp: gf_mul_gen add.commute)

lemma gen_byte_mod_cong: "m mod 255 = n mod 255 \<Longrightarrow> gen_byte m = gen_byte n"
  by (metis gen_pow_mod)

lemma gf_mul_assoc: "gf_mul (gf_mul a b) d = gf_mul a (gf_mul b d)"
proof (cases "a = 0 \<or> b = 0 \<or> d = 0")
  case False
  then show ?thesis
    by (simp add: gf_mul_gen gen_byte_nonzero gf_log_gen_byte_mod)
      (rule gen_byte_mod_cong, simp add: mod_simps add.assoc)
qed auto

lemma gen_byte_0 [simp]: "gen_byte 0 = 1"
  by simp

lemma gf_log_1: "gf_log 1 = 0"
  using gf_log_gen_byte [of 0] by simp

lemma gf_mul_1 [simp]: "gf_mul 1 a = a" "gf_mul a 1 = a"
  by (cases "a = 0"; simp add: gf_mul_gen gf_log_1 gen_byte_log)+

text \<open>Multiplication by a fixed non-zero byte is a power of the generator step, hence linear.\<close>

lemma gf_mul_pow:
  assumes "a \<noteq> 0"
  shows "ucast (gf_mul a b) = (exp_step ^^ gf_log a) (ucast b)"
proof (cases "b = 0")
  case False
  then have "ucast b = gen_pow (gf_log b)" using ucast_gen_byte [of "gf_log b"] gen_byte_log [OF False] by simp
  moreover have "ucast (gf_mul a b) = gen_pow (gf_log a + gf_log b)"
    by (simp only: gf_mul_gen [OF assms False] ucast_gen_byte)
  ultimately show ?thesis by (simp only: gen_pow_add)
qed simp

lemma byte_ucast_inj: "(ucast (a :: u8) :: 16 word) = ucast b \<Longrightarrow> a = b"
proof -
  have "(ucast (ucast x :: 16 word) :: u8) = x" for x :: u8
    by (rule bit_word_eqI) (auto simp: bit_ucast_iff)
  moreover assume "(ucast a :: 16 word) = ucast b"
  ultimately show "a = b" by metis
qed

lemma gf_mul_xor: "gf_mul a (b XOR d) = gf_mul a b XOR gf_mul a d"
proof (cases "a = 0")
  case False
  have "(ucast (gf_mul a (b XOR d)) :: 16 word) = ucast (gf_mul a b XOR gf_mul a d)"
    by (simp add: gf_mul_pow [OF False] unsigned_xor_eq exp_pow_linear)
  then show ?thesis by (rule byte_ucast_inj)
qed simp

lemma gf_xor_mul: "gf_mul (a XOR b) d = gf_mul a d XOR gf_mul b d"
  using gf_mul_xor [of d a b] by (simp add: gf_mul_commute)

lemma gf_div_mul:
  assumes "b \<noteq> 0"
  shows "gf_mul (gf_div a b) b = a"
proof (cases "a = 0")
  case False
  have "((gf_log a + (255 - gf_log b)) mod 255 + gf_log b) mod 255 = (gf_log a + (255 - gf_log b) + gf_log b) mod 255"
    by (simp only: mod_add_left_eq)
  also have "\<dots> = gf_log a mod 255" using gen_byte_log(2) [OF assms] by simp
  finally have "gen_byte ((gf_log a + (255 - gf_log b)) mod 255 + gf_log b) = a"
    using gen_byte_mod_cong gen_byte_log(1) [OF False] by metis
  then show ?thesis
    by (simp only: gf_div_gen [OF False assms] gf_mul_gen [OF gen_byte_nonzero assms] gf_log_gen_byte_mod)
qed (simp add: gf_div_def)

lemma gf_inverse_mul:
  assumes "a \<noteq> 0"
  shows "gf_mul (gf_inverse a) a = 1" and "gf_inverse a \<noteq> 0"
proof -
  note la = gen_byte_log [OF assms]
  let ?a = "ucast (build_log_table ! unat a) :: 16 word"
  have "unat (b :: u8) < 2 ^ LENGTH(8)" for b by (rule unsigned_less)
  then have "unat (b :: u8) < 65536" for b by (rule less_trans) simp
  then have u: "unat ?a = gf_log a" by (simp add: gf_log_def unsigned_ucast_eq take_bit_nat_eq_self)
  then have "?a \<le> 255" using la by (simp add: word_le_nat_alt)
  then have "unat ((255 - ?a) mod 255) = (255 - gf_log a) mod 255" by (simp add: unat_mod unat_sub u)
  then have inv: "gf_inverse a = gen_byte (255 - gf_log a)"
    using assms by (simp add: gf_inverse_def Let_def exp_table_nth gen_byte_eq gen_pow_mod)
  then show "gf_inverse a \<noteq> 0" by (simp only: gen_byte_nonzero not_False_eq_True)
  have "((255 - gf_log a) mod 255 + gf_log a) mod 255 = 0 mod 255" using la by (simp add: mod_add_left_eq)
  then have "gen_byte ((255 - gf_log a) mod 255 + gf_log a) = gen_byte 0" by (rule gen_byte_mod_cong)
  then show "gf_mul (gf_inverse a) a = 1"
    by (simp only: inv gf_mul_gen [OF gen_byte_nonzero assms] gf_log_gen_byte_mod gen_byte_0)
qed

text \<open>The bytes as a type of their own, an instance of the library's fields.\<close>

typedef gf = "UNIV :: u8 set" by simp

setup_lifting type_definition_gf

instantiation gf :: field
begin

lift_definition zero_gf :: gf is 0 .
lift_definition one_gf :: gf is 1 .
lift_definition plus_gf :: "gf \<Rightarrow> gf \<Rightarrow> gf" is gf_add .
lift_definition minus_gf :: "gf \<Rightarrow> gf \<Rightarrow> gf" is gf_sub .
lift_definition uminus_gf :: "gf \<Rightarrow> gf" is "\<lambda>a. a" .
lift_definition times_gf :: "gf \<Rightarrow> gf \<Rightarrow> gf" is gf_mul .
lift_definition divide_gf :: "gf \<Rightarrow> gf \<Rightarrow> gf" is gf_div .
lift_definition inverse_gf :: "gf \<Rightarrow> gf" is gf_inverse .

instance
proof
  fix a b c :: gf
  show "a + b + c = a + (b + c)" by transfer (simp add: gf_add_def ac_simps)
  show "a + b = b + a" by transfer (simp add: gf_add_def ac_simps)
  show "0 + a = a" by transfer (simp add: gf_add_def)
  show "- a + a = 0" by transfer (simp add: gf_add_def)
  show "a - b = a + - b" by transfer (simp add: gf_add_def gf_sub_def)
  show "a * b * c = a * (b * c)" by transfer (rule gf_mul_assoc)
  show "a * b = b * a" by transfer (rule gf_mul_commute)
  show "1 * a = a" by transfer simp
  show "(a + b) * c = a * c + b * c"
    by transfer (simp add: gf_add_def gf_xor_mul)
  show "(0 :: gf) \<noteq> 1" by transfer simp
  show "a \<noteq> 0 \<Longrightarrow> inverse a * a = 1" by transfer (rule gf_inverse_mul)
  show "inverse (0 :: gf) = 0" by transfer (simp add: gf_inverse_def)
  show "a div b = a * inverse b"
  proof transfer
    fix a b :: u8
    show "gf_div a b = gf_mul a (gf_inverse b)"
    proof (cases "b = 0")
      case False
      have "gf_div a b = gf_mul (gf_div a b) (gf_mul b (gf_inverse b))"
        using gf_inverse_mul [OF False] by (simp add: gf_mul_commute [of b])
      also have "\<dots> = gf_mul a (gf_inverse b)" using gf_div_mul [OF False] by (simp flip: gf_mul_assoc)
      finally show ?thesis .
    qed (simp add: gf_div_def gf_inverse_def)
  qed
qed

end

end
