(* ===== verification/Interpolation.thy ===== *)
theory Interpolation
  imports Main
begin

text \<open>
  Polynomials as lists of coefficients over a field, what the correctness of secret sharing
  rests on: a polynomial with no more coefficients than it has distinct roots is zero, the
  Lagrange formula gives back a polynomial from enough of its values, and any values at
  distinct points are those of a polynomial.
\<close>

section \<open>Polynomials\<close>

fun peval :: "'a::comm_ring_1 list \<Rightarrow> 'a \<Rightarrow> 'a" where
  "peval [] x = 0"
| "peval (a # p) x = a + x * peval p x"

fun padd :: "'a::comm_ring_1 list \<Rightarrow> 'a list \<Rightarrow> 'a list" where
  "padd [] q = q"
| "padd p [] = p"
| "padd (a # p) (b # q) = (a + b) # padd p q"

lemma padd_length [simp]: "length (padd p q) = max (length p) (length q)"
  by (induction p q rule: padd.induct) simp_all

lemma padd_eval [simp]: "peval (padd p q) x = peval p x + peval q x"
  by (induction p q rule: padd.induct) (simp_all add: algebra_simps)

lemma psmult_eval [simp]: "peval (map ((*) a) p) x = a * peval p x"
  by (induction p) (simp_all add: algebra_simps)

lemma peval_zeros [simp]: "peval (replicate n 0) x = 0"
  by (induction n) simp_all

lemma peval_append_zeros [simp]: "peval (p @ replicate n 0) x = peval p x"
  by (induction p) simp_all

lemma peval_0: "peval p 0 = (case p of [] \<Rightarrow> 0 | a # _ \<Rightarrow> a)"
  by (cases p) simp_all

text \<open>Functions given by a polynomial with at most so many coefficients.\<close>

definition poly_fun :: "nat \<Rightarrow> ('a::comm_ring_1 \<Rightarrow> 'a) \<Rightarrow> bool" where
  "poly_fun n f \<longleftrightarrow> (\<exists>p. length p \<le> n \<and> (\<forall>x. f x = peval p x))"

lemma poly_fun_peval: "length p \<le> n \<Longrightarrow> poly_fun n (peval p)"
  by (auto simp: poly_fun_def)

lemma poly_fun_add: "poly_fun n f \<Longrightarrow> poly_fun n g \<Longrightarrow> poly_fun n (\<lambda>x. f x + g x)"
  unfolding poly_fun_def by (metis padd_eval padd_length max.bounded_iff)

lemma poly_fun_smult: "poly_fun n f \<Longrightarrow> poly_fun n (\<lambda>x. a * f x)"
  unfolding poly_fun_def by (metis psmult_eval length_map)

lemma poly_fun_zero: "poly_fun n (\<lambda>x. 0)"
  unfolding poly_fun_def by (intro exI [of _ "[]"]) simp

lemma poly_fun_sum: "(\<And>i. i \<in> I \<Longrightarrow> poly_fun n (f i)) \<Longrightarrow> poly_fun n (\<lambda>x. \<Sum>i\<in>I. f i x)"
  by (induction I rule: infinite_finite_induct) (simp_all add: poly_fun_zero poly_fun_add)

lemma poly_fun_linear:
  assumes "poly_fun n f"
  shows "poly_fun (Suc n) (\<lambda>x. (x - t) * f x)"
proof -
  obtain p where p: "length p \<le> n" "\<And>x. f x = peval p x" using assms by (auto simp: poly_fun_def)
  show ?thesis unfolding poly_fun_def
    by (intro exI [of _ "padd (0 # p) (map ((*) (- t)) p)"]) (simp add: p algebra_simps)
qed

lemma poly_fun_prod: "finite T \<Longrightarrow> poly_fun (Suc (card T)) (\<lambda>x. \<Prod>t\<in>T. x - t)"
proof (induction T rule: finite_induct)
  case empty
  show ?case unfolding poly_fun_def by (intro exI [of _ "[1]"]) simp
next
  case (insert t T)
  from poly_fun_linear [OF insert.IH, of t] insert.hyps show ?case by simp
qed

section \<open>Roots\<close>

lemma synthetic_division:
  "p \<noteq> [] \<Longrightarrow> \<exists>q. length q = length p - 1 \<and> (\<forall>x. peval p x = peval p r + (x - r) * peval q x)"
proof (induction p)
  case (Cons a p)
  show ?case
  proof (cases "p = []")
    case False
    with Cons.IH obtain q where q: "length q = length p - 1" "\<And>x. peval p x = peval p r + (x - r) * peval q x" by blast
    have "a + x * (u + (x - r) * v) = a + r * u + (x - r) * (u + x * v)" for x u v
      by (simp add: algebra_simps)
    then have "\<forall>x. peval (a # p) x = peval (a # p) r + (x - r) * peval (peval p r # q) x"
      unfolding peval.simps by (subst q(2)) blast
    moreover have "length (peval p r # q) = length (a # p) - 1" using q(1) False by simp
    ultimately show ?thesis by blast
  qed simp
qed simp

lemma too_many_roots:
  fixes p :: "'a::idom list"
  assumes "finite S" and "length p \<le> card S" and "\<forall>r \<in> S. peval p r = 0"
  shows "peval p x = 0"
  using assms
proof (induction "card S" arbitrary: S p x)
  case (Suc n)
  show ?case
  proof (cases "p = []")
    case False
    from Suc.hyps(2) Suc.prems(1) obtain r where r: "r \<in> S" by (metis card_eq_0_iff equals0I nat.distinct(1))
    obtain q where q: "length q = length p - 1" "\<And>x. peval p x = peval p r + (x - r) * peval q x"
      using synthetic_division [OF False] by blast
    have p: "peval p x = (x - r) * peval q x" for x using q(2) [of x] r Suc.prems(3) by simp
    have "peval q x = 0"
    proof (rule Suc.hyps(1))
      show "n = card (S - {r})" "finite (S - {r})" using Suc.hyps(2) Suc.prems(1) r by simp_all
      show "length q \<le> card (S - {r})" using q(1) Suc.prems(1,2) r by simp
      show "\<forall>s \<in> S - {r}. peval q s = 0" using p Suc.prems(3) by auto
    qed
    then show ?thesis by (simp add: p)
  qed simp
qed simp

lemma poly_fun_roots:
  fixes f :: "'a::idom \<Rightarrow> 'a"
  assumes "finite S" and "poly_fun (card S) f" and "\<And>r. r \<in> S \<Longrightarrow> f r = 0"
  shows "f x = 0"
  using assms too_many_roots unfolding poly_fun_def by metis

section \<open>Interpolation\<close>

definition lag :: "'a::field set \<Rightarrow> 'a \<Rightarrow> 'a \<Rightarrow> 'a" where
  "lag S x z = (\<Prod>t \<in> S - {x}. (z - t) / (x - t))"

lemma lag_same: "finite S \<Longrightarrow> lag S x x = 1"
  unfolding lag_def by (intro prod.neutral) auto

lemma lag_other: "finite S \<Longrightarrow> y \<in> S \<Longrightarrow> y \<noteq> x \<Longrightarrow> lag S x y = 0"
  unfolding lag_def by (intro prod_zero) auto

lemma poly_fun_lag:
  assumes "finite S" and "x \<in> S"
  shows "poly_fun (card S) (lag S x)"
proof -
  have "poly_fun (Suc (card (S - {x}))) (\<lambda>z. \<Prod>t\<in>S - {x}. z - t)" using assms by (intro poly_fun_prod) simp
  then have "poly_fun (card S) (\<lambda>z. inverse (\<Prod>t\<in>S - {x}. x - t) * (\<Prod>t\<in>S - {x}. z - t))"
    using assms card_Suc_Diff1 [OF assms] by (intro poly_fun_smult) simp
  moreover have "lag S x = (\<lambda>z. inverse (\<Prod>t\<in>S - {x}. x - t) * (\<Prod>t\<in>S - {x}. z - t))"
    by (intro ext) (simp only: lag_def prod_dividef, simp only: divide_inverse_commute)
  ultimately show ?thesis by simp
qed

text \<open>Values at the points of \<open>S\<close> are taken by a polynomial with as many coefficients.\<close>

definition interpolant :: "'a::field set \<Rightarrow> ('a \<Rightarrow> 'a) \<Rightarrow> 'a \<Rightarrow> 'a" where
  "interpolant S y z = (\<Sum>x\<in>S. y x * lag S x z)"

lemma interpolant_at: "finite S \<Longrightarrow> x \<in> S \<Longrightarrow> interpolant S y x = y x"
proof -
  assume S: "finite S" "x \<in> S"
  have "interpolant S y x = (\<Sum>s\<in>S. if s = x then y x else 0)"
    unfolding interpolant_def using S by (intro sum.cong) (auto simp: lag_same lag_other)
  also have "\<dots> = y x" using S by simp
  finally show ?thesis .
qed

lemma poly_fun_interpolant: "finite S \<Longrightarrow> poly_fun (card S) (interpolant S y)"
  unfolding interpolant_def by (intro poly_fun_sum poly_fun_smult poly_fun_lag)

lemma lagrange_interpolation:
  assumes "finite S" and "poly_fun (card S) f"
  shows "f z = interpolant S f z"
proof -
  have "poly_fun (card S) (\<lambda>z. f z + (- 1) * interpolant S f z)"
    by (intro poly_fun_add poly_fun_smult poly_fun_interpolant assms)
  then have "f z + (- 1) * interpolant S f z = 0"
    by (rule poly_fun_roots [OF assms(1)]) (simp add: interpolant_at assms(1))
  then show ?thesis by simp
qed

lemma interpolating_coefficients:
  fixes S :: "'a::field set"
  assumes "finite S" and "card S \<le> n"
  obtains p where "length p = n" and "\<And>x. x \<in> S \<Longrightarrow> peval p x = y x"
proof -
  obtain p where p: "length p \<le> card S" "\<And>x. interpolant S y x = peval p x"
    using poly_fun_interpolant [OF assms(1), of y] by (auto simp: poly_fun_def)
  show thesis
  proof (rule that)
    show "length (p @ replicate (n - length p) 0) = n" using p(1) assms(2) by simp
    show "peval (p @ replicate (n - length p) 0) x = y x" if "x \<in> S" for x
      using that p(2) [of x] interpolant_at [OF assms(1) that, of y] by simp
  qed
qed

end
