(* ===== verification/Shamir.thy ===== *)
theory Shamir
  imports Galois_Field Interpolation
begin

text \<open>
  Secret sharing of \<^verbatim>\<open>crates/threshold-encryption/src/shamir.rs\<close>. The random coefficients that
  \<^verbatim>\<open>split_secret\<close> draws are an argument: \<open>rnd k i\<close> is the coefficient of degree \<open>i\<close> for the
  byte at place \<open>k\<close>. An index out of range panics in Rust; \<open>reconstruct_secret\<close> returns \<open>None\<close>
  there.

  The theorems state that any threshold of distinct shares gives back the secret, and that
  fewer shares fit every secret of the same length.
\<close>

section \<open>Definitions\<close>

record share =
  share_index :: u8
  share_value :: "u8 list"

datatype threshold_error =
    InvalidThreshold u8 u8
  | ReconstructionFailed
  | EncryptionError
  | DecryptionError
  | InvalidShare
  | InsufficientShares u8 u8

record shamir_secret_sharing =
  sss_threshold :: u8
  sss_total_shares :: u8

definition evaluate_polynomial :: "u8 list \<Rightarrow> u8 \<Rightarrow> u8" where
  "evaluate_polynomial coefficients x =
     fst (foldl (\<lambda>(result, power) coeff. (gf_add result (gf_mul coeff power), gf_mul power x)) (0, 1) coefficients)"

text \<open>The evaluations for one byte, pushed onto the shares.\<close>

definition push_byte :: "u8 list \<Rightarrow> u8 list list \<Rightarrow> u8 list list" where
  "push_byte coefficients shares =
     map (\<lambda>(i, value). value @ [evaluate_polynomial coefficients (of_nat (Suc i))]) (enumerate 0 shares)"

definition split_secret ::
    "shamir_secret_sharing \<Rightarrow> (nat \<Rightarrow> nat \<Rightarrow> u8) \<Rightarrow> u8 list \<Rightarrow> threshold_error + share list" where
  "split_secret sss rnd secret =
     (let shares = foldl (\<lambda>shares (k, byte). push_byte (byte # map (rnd k) [1..<unat (sss_threshold sss)]) shares)
                     (replicate (unat (sss_total_shares sss)) []) (enumerate 0 secret)
      in Inr (map (\<lambda>(i, value). \<lparr> share_index = of_nat (Suc i), share_value = value \<rparr>) (enumerate 0 shares)))"

definition lagrange_coeff :: "(u8 \<times> u8) list \<Rightarrow> nat \<Rightarrow> u8 \<Rightarrow> u8" where
  "lagrange_coeff points i x_i =
     (case foldl (\<lambda>(numerator, denominator) (j, x_j, _).
                if i \<noteq> j then (gf_mul numerator x_j, gf_mul denominator (gf_sub x_j x_i))
                else (numerator, denominator)) (1, 1) (enumerate 0 points) of
        (numerator, denominator) \<Rightarrow> gf_div numerator denominator)"

definition lagrange_interpolate_at_zero :: "(u8 \<times> u8) list \<Rightarrow> u8" where
  "lagrange_interpolate_at_zero points =
     foldl (\<lambda>result (i, x_i, y_i). gf_add result (gf_mul y_i (lagrange_coeff points i x_i))) 0 (enumerate 0 points)"

definition reconstruct_secret ::
    "shamir_secret_sharing \<Rightarrow> share list \<Rightarrow> (threshold_error + u8 list) option" where
  "reconstruct_secret sss shares =
     (if length shares < unat (sss_threshold sss)
      then Some (Inl (InsufficientShares (of_nat (length shares)) (sss_threshold sss)))
      else case shares of
             [] \<Rightarrow> None
           | first # _ \<Rightarrow>
               let secret_len = length (share_value first) in
               if list_ex (\<lambda>s. length (share_value s) < secret_len) shares then None
               else Some (Inr (map (\<lambda>i. lagrange_interpolate_at_zero
                                 (map (\<lambda>s. (share_index s, share_value s ! i)) shares)) [0..<secret_len])))"

section \<open>Evaluation and interpolation in the field\<close>

lemma Abs_gf_simps [simp]:
  "Abs_gf (gf_add a b) = Abs_gf a + Abs_gf b" "Abs_gf (gf_sub a b) = Abs_gf a - Abs_gf b"
  "Abs_gf (gf_mul a b) = Abs_gf a * Abs_gf b" "Abs_gf (gf_div a b) = Abs_gf a / Abs_gf b"
  "Abs_gf 0 = 0" "Abs_gf 1 = 1" "Abs_gf a = Abs_gf b \<longleftrightarrow> a = b"
  by (simp_all add: plus_gf.abs_eq minus_gf.abs_eq times_gf.abs_eq divide_gf.abs_eq zero_gf.abs_eq one_gf.abs_eq
      eq_onp_same_args Abs_gf_inject)

lemma evaluate_polynomial_peval: "Abs_gf (evaluate_polynomial cs x) = peval (map Abs_gf cs) (Abs_gf x)"
proof -
  have "Abs_gf (fst (foldl (\<lambda>(result, power) coeff. (gf_add result (gf_mul coeff power), gf_mul power x)) (r, q) cs)) =
      Abs_gf r + Abs_gf q * peval (map Abs_gf cs) (Abs_gf x)" for r q
    by (induction cs arbitrary: r q) (simp_all add: algebra_simps)
  from this [of 0 1] show ?thesis by (simp add: evaluate_polynomial_def)
qed

text \<open>The weights of the code are those of the Lagrange formula at zero.\<close>

lemma lag_zero: "lag S x 0 = (\<Prod>t \<in> S - {x}. t / (t - x))"
proof -
  have "(0 - t) / (x - t) = t / (t - x)" for t :: "'a::field"
    by (metis diff_0 minus_diff_eq minus_divide_divide)
  then show ?thesis by (simp add: lag_def)
qed

lemma distinct_Abs: "distinct (map (Abs_gf \<circ> fst) ps) \<longleftrightarrow> distinct (map fst ps)"
  unfolding map_map [symmetric] by (subst distinct_map) (auto simp: inj_on_def)

lemma others_enumerate:
  "map snd (filter (\<lambda>(j, _). n + i \<noteq> j) (enumerate n xs)) = take i xs @ drop (Suc i) xs"
proof (induction xs arbitrary: n i)
  case (Cons x xs)
  have later: "filter (\<lambda>(j, _). n \<noteq> j) (enumerate (Suc n) ys) = enumerate (Suc n) ys" for ys :: "'a list"
    by (intro filter_True) (auto simp: in_set_enumerate_eq)
  show ?case using Cons [of "Suc n" "i - 1"] later by (cases i) (simp_all add: enumerate_Suc_eq [symmetric])
qed simp

lemma lagrange_coeff_prod:
  "Abs_gf (lagrange_coeff points i x_i) =
     prod_list (map (\<lambda>(x, _). Abs_gf x / (Abs_gf x - Abs_gf x_i)) (take i points @ drop (Suc i) points))"
proof -
  let ?step = "\<lambda>(numerator, denominator) (j, x_j, _ :: u8).
      if i \<noteq> j then (gf_mul numerator x_j, gf_mul denominator (gf_sub x_j x_i)) else (numerator, denominator)"
  have "(case foldl ?step (n, d) ps of (n', d') \<Rightarrow> Abs_gf n' / Abs_gf d') = Abs_gf n / Abs_gf d *
      prod_list (map (\<lambda>(x, _). Abs_gf x / (Abs_gf x - Abs_gf x_i)) (map snd (filter (\<lambda>(j, _). i \<noteq> j) ps)))" for n d ps
  proof (induction ps arbitrary: n d)
    case (Cons p ps)
    obtain j x y where p: "p = (j, x, y)" by (cases p)
    show ?case
      using Cons.IH [of "gf_mul n x" "gf_mul d (gf_sub x x_i)"] Cons.IH [of n d]
      by (cases "j = i") (simp_all add: p mult.commute mult.left_commute)
  qed simp
  note fold = this [of 1 1 "enumerate 0 points"]
  have "map snd (filter (\<lambda>(j, _). i \<noteq> j) (enumerate 0 points)) = take i points @ drop (Suc i) points"
    using others_enumerate [of 0 i points] by simp
  from fold [unfolded this] show ?thesis by (simp add: lagrange_coeff_def split: prod.splits)
qed

lemma lagrange_coeff_lag:
  assumes "distinct (map fst points)" and "i < length points"
  shows "Abs_gf (lagrange_coeff points i (fst (points ! i))) = lag (Abs_gf ` fst ` set points) (Abs_gf (fst (points ! i))) 0"
proof -
  let ?x = "fst (points ! i)" and ?rest = "take i points @ drop (Suc i) points"
  have split: "points = take i points @ points ! i # drop (Suc i) points" by (rule id_take_nth_drop [OF assms(2)])
  have "distinct (map fst (take i points @ points ! i # drop (Suc i) points))" using assms(1) split by simp
  then have "distinct (map fst ?rest)" and new: "?x \<notin> fst ` set ?rest" by auto
  then have d: "distinct (map (Abs_gf \<circ> fst) ?rest)" by (simp only: distinct_Abs)
  have "set points = insert (points ! i) (set ?rest)" using arg_cong [OF split, of set] by auto
  then have "Abs_gf ` fst ` set points - {Abs_gf ?x} = set (map (Abs_gf \<circ> fst) ?rest)"
    using new by (auto simp: image_iff)
  then have "lag (Abs_gf ` fst ` set points) (Abs_gf ?x) 0 = prod_list (map (\<lambda>t. t / (t - Abs_gf ?x)) (map (Abs_gf \<circ> fst) ?rest))"
    unfolding lag_zero by (simp only: prod.distinct_set_conv_list [OF d])
  then show ?thesis by (simp add: lagrange_coeff_prod comp_def case_prod_unfold)
qed

lemma lagrange_interpolate_interpolant:
  assumes "distinct (map fst points)" and "\<And>x y. (x, y) \<in> set points \<Longrightarrow> Abs_gf y = f (Abs_gf x)"
  shows "Abs_gf (lagrange_interpolate_at_zero points) = interpolant (Abs_gf ` fst ` set points) f 0"
proof -
  let ?S = "Abs_gf ` fst ` set points"
  have "Abs_gf (foldl (\<lambda>result (i, x_i, y_i). gf_add result (gf_mul y_i (w i x_i))) r ps) =
      Abs_gf r + sum_list (map (\<lambda>(i, x_i, y_i). Abs_gf y_i * Abs_gf (w i x_i)) ps)" for r ps and w :: "nat \<Rightarrow> u8 \<Rightarrow> u8"
    by (induction ps arbitrary: r) (auto simp: algebra_simps)
  from this [of "lagrange_coeff points" 0 "enumerate 0 points"]
  have "Abs_gf (lagrange_interpolate_at_zero points) =
      sum_list (map (\<lambda>(i, x_i, y_i). Abs_gf y_i * Abs_gf (lagrange_coeff points i x_i)) (enumerate 0 points))"
    by (simp add: lagrange_interpolate_at_zero_def)
  also have "\<dots> = sum_list (map (\<lambda>x. f x * lag ?S x 0) (map (Abs_gf \<circ> fst) points))"
  proof (rule arg_cong [of _ _ sum_list], rule nth_equalityI)
    fix i assume "i < length (map (\<lambda>(i, x_i, y_i). Abs_gf y_i * Abs_gf (lagrange_coeff points i x_i)) (enumerate 0 points))"
    then have i: "i < length points" by simp
    show "map (\<lambda>(i, x_i, y_i). Abs_gf y_i * Abs_gf (lagrange_coeff points i x_i)) (enumerate 0 points) ! i =
        map (\<lambda>x. f x * lag ?S x 0) (map (Abs_gf \<circ> fst) points) ! i"
      using i lagrange_coeff_lag [OF assms(1) i] assms(2) [of "fst (points ! i)" "snd (points ! i)"]
      by (simp add: nth_enumerate_eq case_prod_unfold)
  qed simp
  also have "\<dots> = interpolant ?S f 0"
  proof -
    have "distinct (map (Abs_gf \<circ> fst) points)" using assms(1) by (simp only: distinct_Abs)
    from sum.distinct_set_conv_list [OF this, of "\<lambda>x. f x * lag ?S x 0"] show ?thesis
      by (simp add: interpolant_def image_comp)
  qed
  finally show ?thesis .
qed

section \<open>The shares of a secret\<close>

text \<open>The polynomial of a byte of the secret, and a share by its index.\<close>

definition byte_poly :: "shamir_secret_sharing \<Rightarrow> (nat \<Rightarrow> nat \<Rightarrow> u8) \<Rightarrow> u8 list \<Rightarrow> nat \<Rightarrow> u8 list" where
  "byte_poly sss rnd secret k = secret ! k # map (rnd k) [1..<unat (sss_threshold sss)]"

definition share_of :: "shamir_secret_sharing \<Rightarrow> (nat \<Rightarrow> nat \<Rightarrow> u8) \<Rightarrow> u8 list \<Rightarrow> nat \<Rightarrow> share" where
  "share_of sss rnd secret i =
     \<lparr> share_index = of_nat (Suc i),
       share_value = map (\<lambda>k. evaluate_polynomial (byte_poly sss rnd secret k) (of_nat (Suc i))) [0..<length secret] \<rparr>"

lemma push_bytes:
  "foldl (\<lambda>shares (k, byte). push_byte (byte # cs k) shares) (map f [0..<n]) (enumerate m bytes) =
     map (\<lambda>i. f i @ map (\<lambda>k. evaluate_polynomial (bytes ! k # cs (m + k)) (of_nat (Suc i))) [0..<length bytes]) [0..<n]"
proof (induction bytes arbitrary: m f)
  case (Cons b bytes)
  have push: "push_byte p (map f [0..<n]) = map (\<lambda>i. f i @ [evaluate_polynomial p (of_nat (Suc i))]) [0..<n]" for p f
    by (rule nth_equalityI) (simp_all add: push_byte_def nth_enumerate_eq)
  have upt: "[0..<length (b # bytes)] = 0 # map Suc [0..<length bytes]" by (simp add: upt_conv_Cons map_Suc_upt del: upt_Suc)
  show ?case
    unfolding upt using Cons [of "\<lambda>i. f i @ [evaluate_polynomial (b # cs m) (of_nat (Suc i))]" "Suc m"]
    by (simp add: push comp_def del: upt_Suc)
qed simp

lemma split_secret_shares:
  "split_secret sss rnd secret = Inr (map (share_of sss rnd secret) [0..<unat (sss_total_shares sss)])"
proof -
  let ?n = "unat (sss_total_shares sss)"
  have "replicate ?n [] = map (\<lambda>i. [] :: u8 list) [0..<?n]" by (simp add: map_replicate_const)
  then have "foldl (\<lambda>shares (k, byte). push_byte (byte # map (rnd k) [1..<unat (sss_threshold sss)]) shares) (replicate ?n []) (enumerate 0 secret) =
      map (\<lambda>i. share_value (share_of sss rnd secret i)) [0..<?n]"
    by (simp add: push_bytes share_of_def byte_poly_def)
  then show ?thesis
    by (simp add: split_secret_def Let_def)
      (rule nth_equalityI, simp_all add: nth_enumerate_eq share_of_def)
qed

lemma share_index_inj:
  assumes "i < 255" and "j < 255" and "(of_nat (Suc i) :: u8) = of_nat (Suc j)"
  shows "i = j"
proof -
  have "unat (of_nat (Suc i) :: u8) = Suc i" "unat (of_nat (Suc j) :: u8) = Suc j"
    using assms(1,2) by (simp_all add: unsigned_of_nat take_bit_nat_eq_self del: of_nat_Suc)
  with assms(3) show ?thesis by simp
qed

lemma share_index_nonzero: "i < 255 \<Longrightarrow> (of_nat (Suc i) :: u8) \<noteq> 0"
proof
  assume "i < 255" "(of_nat (Suc i) :: u8) = 0"
  moreover have "unat (of_nat (Suc i) :: u8) = Suc i"
    using \<open>i < 255\<close> by (simp add: unsigned_of_nat take_bit_nat_eq_self del: of_nat_Suc)
  ultimately show False by simp
qed

lemma total_shares_bound: "unat (n :: u8) \<le> 255"
proof -
  have "unat n < 2 ^ LENGTH(8)" by (rule unsigned_less)
  then show ?thesis by simp
qed

lemma share_of_index [simp]: "share_index (share_of sss rnd secret i) = of_nat (Suc i)"
  by (simp add: share_of_def)

lemma share_index_inj_on: "inj_on share_index (share_of sss rnd secret ` {..<255})"
  by (rule inj_onI) (auto simp del: of_nat_Suc dest: share_index_inj)

lemma distinct_shares:
  assumes "distinct vs" and "set vs \<subseteq> {..<255}"
  shows "distinct (map (share_of sss rnd secret) vs)"
proof -
  have "x = y" if "x \<in> set vs" "y \<in> set vs" "share_of sss rnd secret x = share_of sss rnd secret y" for x y
    using arg_cong [OF that(3), of share_index] assms(2) that(1,2) by (intro share_index_inj) (auto simp del: of_nat_Suc)
  then show ?thesis using assms(1) by (auto simp: distinct_map inj_on_def)
qed

lemma byte_poly_eval:
  "k < length secret \<Longrightarrow> Abs_gf (share_value (share_of sss rnd secret i) ! k) =
     peval (map Abs_gf (byte_poly sss rnd secret k)) (Abs_gf (of_nat (Suc i)))"
  by (simp add: share_of_def evaluate_polynomial_peval)

lemma reconstruct_split:
  assumes split: "split_secret sss rnd secret = Inr shares"
    and chosen: "set chosen \<subseteq> set shares" "distinct chosen" "unat (sss_threshold sss) \<le> length chosen" "chosen \<noteq> []"
  shows "reconstruct_secret sss chosen = Some (Inr secret)"
proof -
  have shares: "set shares = share_of sss rnd secret ` {..<unat (sss_total_shares sss)}"
    using split by (auto simp: split_secret_shares)
  then have sub: "set chosen \<subseteq> share_of sss rnd secret ` {..<255}"
    using chosen(1) total_shares_bound [of "sss_total_shares sss"] by fastforce
  then have len: "length (share_value s) = length secret" if "s \<in> set chosen" for s
    using that by (auto simp: share_of_def)
  have idx: "distinct (map share_index chosen)"
    using chosen(2) inj_on_subset [OF share_index_inj_on sub] by (simp add: distinct_map)
  have byte: "lagrange_interpolate_at_zero (map (\<lambda>s. (share_index s, share_value s ! k)) chosen) = secret ! k"
    if k: "k < length secret" for k
  proof -
    let ?points = "map (\<lambda>s. (share_index s, share_value s ! k)) chosen" and ?p = "map Abs_gf (byte_poly sss rnd secret k)"
    let ?S = "Abs_gf ` fst ` set ?points"
    have d: "distinct (map fst ?points)" using idx by (simp add: comp_def)
    have "card ?S = card (fst ` set ?points)" by (intro card_image) (simp add: inj_on_def)
    then have "card ?S = length chosen" using distinct_card [OF d] by (simp add: image_image)
    moreover have "length ?p = Suc (unat (sss_threshold sss) - 1)" by (simp add: byte_poly_def)
    ultimately have "poly_fun (card ?S) (peval ?p)"
      using chosen(3,4) by (intro poly_fun_peval) (cases chosen, auto)
    then have "peval ?p 0 = interpolant ?S (peval ?p) 0" by (intro lagrange_interpolation) simp
    moreover have "Abs_gf (lagrange_interpolate_at_zero ?points) = interpolant ?S (peval ?p) 0"
      by (rule lagrange_interpolate_interpolant [OF d]) (use sub byte_poly_eval [OF k] in fastforce)
    ultimately have "Abs_gf (lagrange_interpolate_at_zero ?points) = Abs_gf (secret ! k)"
      by (simp add: byte_poly_def)
    then show ?thesis by simp
  qed
  obtain first rest where c: "chosen = first # rest" using chosen(4) by (cases chosen) auto
  have "map (\<lambda>i. lagrange_interpolate_at_zero (map (\<lambda>s. (share_index s, share_value s ! i)) chosen)) [0..<length secret] = secret"
    by (rule nth_equalityI) (simp_all add: byte)
  moreover have "\<not> list_ex (\<lambda>s. length (share_value s) < length secret) chosen" using len by (auto simp: list_ex_iff)
  ultimately show ?thesis
    using chosen(3) len [of first] c by (simp add: reconstruct_secret_def)
qed

text \<open>
  C24. Reconstruction: any shares of a split secret, distinct and at least as many as the
  threshold, give back the secret, whatever coefficients were drawn.
\<close>

theorem shamir_reconstructs:
  assumes split: "split_secret sss rnd secret = Inr shares"
    and chosen: "set chosen \<subseteq> set shares" "distinct chosen" "unat (sss_threshold sss) \<le> length chosen" "chosen \<noteq> []"
  shows "reconstruct_secret sss chosen = Some (Inr secret)"
  by (rule reconstruct_split [OF assms])

text \<open>
  C25. Secrecy: what the holders of fewer shares than the threshold see fits every secret of the
  same length. For any other secret there are coefficients with which exactly these shares come
  out the same.
\<close>

theorem shares_hide_secret:
  assumes few: "card I < unat (sss_threshold sss)" and len: "length secret' = length secret"
  shows "\<exists>rnd' shares shares'. split_secret sss rnd secret = Inr shares \<and> split_secret sss rnd' secret' = Inr shares' \<and>
    filter (\<lambda>s. share_index s \<in> I) shares' = filter (\<lambda>s. share_index s \<in> I) shares"
proof -
  let ?t = "unat (sss_threshold sss)" and ?S = "insert 0 (Abs_gf ` (I - {0}))"
  let ?p = "\<lambda>k. map Abs_gf (byte_poly sss rnd secret k)"
  let ?y = "\<lambda>k x. if x = 0 then Abs_gf (secret' ! k) else peval (?p k) x"
  have "card (Abs_gf ` (I - {0})) \<le> card I" by (meson card_image_le card_mono Diff_subset finite le_trans)
  then have "card ?S \<le> ?t" using few card_insert_le_m1 [of ?t "Abs_gf ` (I - {0})" 0] by simp
  then have "\<exists>q. length q = ?t \<and> (\<forall>x \<in> ?S. peval q x = ?y k x)" for k
    by (rule interpolating_coefficients [of ?S ?t "?y k", rotated]) auto
  then have "\<forall>k. \<exists>q. length q = ?t \<and> (\<forall>x \<in> ?S. peval q x = ?y k x)" by blast
  from choice [OF this] obtain q where "\<forall>k. length (q k) = ?t \<and> (\<forall>x \<in> ?S. peval (q k) x = ?y k x)" ..
  then have q: "\<And>k. length (q k) = ?t" "\<And>k x. x \<in> ?S \<Longrightarrow> peval (q k) x = ?y k x" by blast+
  define rnd' where "rnd' k i = Rep_gf (q k ! i)" for k i
  have poly: "map Abs_gf (byte_poly sss rnd' secret' k) = q k" for k
  proof (rule nth_equalityI)
    show "length (map Abs_gf (byte_poly sss rnd' secret' k)) = length (q k)" using few q(1) [of k] by (simp add: byte_poly_def)
    fix i assume "i < length (map Abs_gf (byte_poly sss rnd' secret' k))"
    then have "i < ?t" using few by (simp add: byte_poly_def)
    moreover have "q k ! 0 = Abs_gf (secret' ! k)"
      using q(2) [of 0 k] q(1) [of k] few by (cases "q k") (simp_all add: peval_0)
    ultimately show "map Abs_gf (byte_poly sss rnd' secret' k) ! i = q k ! i"
      by (cases i) (simp_all add: byte_poly_def rnd'_def Rep_gf_inverse)
  qed
  have same: "share_of sss rnd' secret' i = share_of sss rnd secret i" if "i < 255" "of_nat (Suc i) \<in> I" for i
  proof -
    have "evaluate_polynomial (byte_poly sss rnd' secret' k) (of_nat (Suc i)) = evaluate_polynomial (byte_poly sss rnd secret k) (of_nat (Suc i))" for k
    proof -
      have "Abs_gf (of_nat (Suc i)) \<in> ?S" "Abs_gf (of_nat (Suc i)) \<noteq> 0"
        using that share_index_nonzero [OF that(1)] Abs_gf_simps(7) [of "of_nat (Suc i)" 0] by (auto simp del: of_nat_Suc)
      then have "Abs_gf (evaluate_polynomial (byte_poly sss rnd' secret' k) (of_nat (Suc i))) =
          Abs_gf (evaluate_polynomial (byte_poly sss rnd secret k) (of_nat (Suc i)))"
        unfolding evaluate_polynomial_peval poly using q(2) by simp
      then show ?thesis by simp
    qed
    then show ?thesis by (simp add: share_of_def len)
  qed
  have "filter (\<lambda>s. share_index s \<in> I) (map (share_of sss rnd' secret') [0..<n]) = filter (\<lambda>s. share_index s \<in> I) (map (share_of sss rnd secret) [0..<n])"
    if "n \<le> 255" for n
    using that by (induction n) (auto simp: same simp del: of_nat_Suc)
  from this [OF total_shares_bound] show ?thesis by (intro exI [of _ rnd']) (simp add: split_secret_shares)
qed

definition three_of_five :: shamir_secret_sharing where
  "three_of_five = \<lparr> sss_threshold = 3, sss_total_shares = 5 \<rparr>"

theorem shamir_reconstructs_witness:
  "reconstruct_secret three_of_five (map (share_of three_of_five (\<lambda>k i. of_nat (7 * k + i)) [42, 0, 255]) [4, 0, 2]) = Some (Inr [42, 0, 255])"
proof -
  let ?sh = "share_of three_of_five (\<lambda>k i. of_nat (7 * k + i)) [42, 0, 255]"
  have "share_index (?sh 4) = 5" "share_index (?sh 0) = 1" "share_index (?sh 2) = 3" by simp_all
  then have "distinct (map ?sh [4, 0, 2])" by (auto dest: arg_cong [of _ _ share_index])
  then show ?thesis
    by (intro shamir_reconstructs [OF split_secret_shares]) (auto simp: three_of_five_def)
qed

theorem shares_hide_secret_witness:
  "\<exists>rnd' shares shares'. split_secret three_of_five (\<lambda>k i. 9) [42] = Inr shares \<and> split_secret three_of_five rnd' [13] = Inr shares' \<and>
    filter (\<lambda>s. share_index s \<in> {1, 4}) shares' = filter (\<lambda>s. share_index s \<in> {1, 4}) shares"
  by (rule shares_hide_secret) (simp_all add: three_of_five_def)

end
