(* ===== verification/Threshold_Encryption.thy ===== *)
theory Threshold_Encryption
  imports Shamir
begin

text \<open>
  \<^verbatim>\<open>crates/threshold-encryption/src/lib.rs\<close>: a package is encrypted under a fresh key, the key is
  split into shares, and each share is encrypted to a validator. The AES-GCM, secp256k1 and
  SHA-256 crates are the fields of a parameter; the random key, nonces, ephemeral keys and
  coefficients are arguments.

  The theorems state that the wire format of a share is read back, and that any threshold of
  validators can decrypt a package together: each decrypts its own share and the shares give
  back the content.
\<close>

section \<open>Parameters\<close>

record te_crypto =
  te_sha256 :: "u8 list \<Rightarrow> u8 list"
  aes_encrypt :: "u8 list \<Rightarrow> u8 list \<Rightarrow> u8 list \<Rightarrow> u8 list \<Rightarrow> u8 list option"
  aes_decrypt :: "u8 list \<Rightarrow> u8 list \<Rightarrow> u8 list \<Rightarrow> u8 list \<Rightarrow> u8 list option"
  pk_valid :: "u8 list \<Rightarrow> bool"
  sk_valid :: "u8 list \<Rightarrow> bool"
  ec_public :: "u8 list \<Rightarrow> u8 list"
  ecdh :: "u8 list \<Rightarrow> u8 list \<Rightarrow> u8 list"

text \<open>
  What the crates document: decryption inverts encryption under the same key, nonce and
  associated data, and a ciphertext is 16 bytes longer than its message; the two sides of a key
  agreement compute the same secret, and a compressed public key is a valid one of 33 bytes.
\<close>

definition aead_laws :: "'a te_crypto_scheme \<Rightarrow> bool" where
  "aead_laws c \<longleftrightarrow> (\<forall>k n a m ct. aes_encrypt c k n a m = Some ct \<longrightarrow>
     aes_decrypt c k n a ct = Some m \<and> length ct = length m + 16)"

definition ecdh_laws :: "'a te_crypto_scheme \<Rightarrow> bool" where
  "ecdh_laws c \<longleftrightarrow> (\<forall>sk sk'. ecdh c sk (ec_public c sk') = ecdh c sk' (ec_public c sk)) \<and>
     (\<forall>sk. sk_valid c sk \<longrightarrow> pk_valid c (ec_public c sk) \<and> length (ec_public c sk) = 33)"

section \<open>Shares on the wire\<close>

record key_share =
  ks_index :: u8
  ks_value :: "u8 list"
  ks_public_key :: "u8 list"

definition to_be_bytes :: "u32 \<Rightarrow> u8 list" where
  "to_be_bytes w = [ucast (drop_bit 24 w), ucast (drop_bit 16 w), ucast (drop_bit 8 w), ucast w]"

definition from_be_bytes :: "u8 \<Rightarrow> u8 \<Rightarrow> u8 \<Rightarrow> u8 \<Rightarrow> u32" where
  "from_be_bytes b0 b1 b2 b3 =
     push_bit 24 (ucast b0) OR push_bit 16 (ucast b1) OR push_bit 8 (ucast b2) OR ucast b3"

definition share_to_bytes :: "key_share \<Rightarrow> u8 list" where
  "share_to_bytes s = [ks_index s] @ to_be_bytes (of_nat (length (ks_value s))) @ ks_value s @ ks_public_key s"

definition share_from_bytes :: "u8 list \<Rightarrow> threshold_error + key_share" where
  "share_from_bytes bytes =
     (if length bytes < 5 then Inl InvalidShare
      else
        let index = bytes ! 0;
            value_len = unat (from_be_bytes (bytes ! 1) (bytes ! 2) (bytes ! 3) (bytes ! 4))
        in if length bytes < 5 + value_len then Inl InvalidShare
           else Inr \<lparr> ks_index = index, ks_value = take value_len (drop 5 bytes), ks_public_key = drop (5 + value_len) bytes \<rparr>)"

section \<open>Packages\<close>

definition threshold_new :: "u8 \<Rightarrow> u8 \<Rightarrow> threshold_error + shamir_secret_sharing" where
  "threshold_new threshold total_shares =
     (if threshold = 0 \<or> total_shares < threshold then Inl (InvalidThreshold threshold total_shares)
      else Inr \<lparr> sss_threshold = threshold, sss_total_shares = total_shares \<rparr>)"

definition derive_public_key :: "'a te_crypto_scheme \<Rightarrow> u8 list \<Rightarrow> u8 list" where
  "derive_public_key c value = te_sha256 c value"

definition generate_shares ::
    "'a te_crypto_scheme \<Rightarrow> shamir_secret_sharing \<Rightarrow> (nat \<Rightarrow> nat \<Rightarrow> u8) \<Rightarrow> u8 list \<Rightarrow> threshold_error + key_share list" where
  "generate_shares c te rnd secret =
     and_then (split_secret te rnd secret) (\<lambda>shares.
       Inr (map (\<lambda>s. \<lparr> ks_index = share_index s, ks_value = share_value s,
                      ks_public_key = derive_public_key c (share_value s) \<rparr>) shares))"

text \<open>The tag in front of the shared secret, \<^verbatim>\<open>b"creg-ecies-v1"\<close>.\<close>

definition ecies_tag :: "u8 list" where
  "ecies_tag = map (\<lambda>ch. of_nat (of_char ch)) ''creg-ecies-v1''"

definition ecies_key :: "'a te_crypto_scheme \<Rightarrow> u8 list \<Rightarrow> u8 list" where
  "ecies_key c shared = te_sha256 c (ecies_tag @ shared)"

definition encrypt_share ::
    "'a te_crypto_scheme \<Rightarrow> u8 list \<Rightarrow> u8 list \<Rightarrow> key_share \<Rightarrow> u8 list \<Rightarrow> threshold_error + u8 list" where
  "encrypt_share c ephemeral_secret nonce share validator_key =
     (if \<not> pk_valid c validator_key then Inl EncryptionError
      else
        let ephemeral_pub = ec_public c ephemeral_secret;
            aes_key = ecies_key c (ecdh c ephemeral_secret validator_key)
        in case aes_encrypt c aes_key nonce [ks_index share] (ks_value share) of
             None \<Rightarrow> Inl EncryptionError
           | Some ciphertext \<Rightarrow> Inr ([ks_index share] @ ephemeral_pub @ nonce @ ciphertext))"

definition decrypt_share :: "'a te_crypto_scheme \<Rightarrow> u8 list \<Rightarrow> u8 list \<Rightarrow> threshold_error + key_share" where
  "decrypt_share c encrypted_share validator_private_key =
     (if length encrypted_share < 62 then Inl InvalidShare
      else
        let index = encrypted_share ! 0;
            eph_pub = take 33 (drop 1 encrypted_share);
            nonce = take 12 (drop 34 encrypted_share);
            ciphertext = drop 46 encrypted_share
        in if \<not> pk_valid c eph_pub then Inl DecryptionError
           else if \<not> sk_valid c validator_private_key then Inl DecryptionError
           else case aes_decrypt c (ecies_key c (ecdh c validator_private_key eph_pub)) nonce [index] ciphertext of
                  None \<Rightarrow> Inl DecryptionError
                | Some value \<Rightarrow> Inr \<lparr> ks_index = index, ks_value = value, ks_public_key = derive_public_key c value \<rparr>)"

record encrypted_package =
  ep_ciphertext :: "u8 list"
  ep_nonce :: "u8 list"
  ep_content_hash :: "u8 list"
  ep_threshold :: u8
  ep_total_shares :: u8
  ep_encrypted_shares :: "(u8, u8 list) hash_map"

text \<open>The loop that encrypts share \<open>i\<close> with the key of validator \<open>i\<close>.\<close>

fun encrypt_shares ::
    "'a te_crypto_scheme \<Rightarrow> (nat \<Rightarrow> u8 list) \<Rightarrow> (nat \<Rightarrow> u8 list) \<Rightarrow> u8 list list \<Rightarrow> (nat \<times> key_share) list
     \<Rightarrow> (u8, u8 list) hash_map \<Rightarrow> threshold_error + (u8, u8 list) hash_map" where
  "encrypt_shares c eph nonces validator_keys [] acc = Inr acc"
| "encrypt_shares c eph nonces validator_keys ((i, share) # shares) acc =
     and_then (encrypt_share c (eph i) (nonces i) share (validator_keys ! i)) (\<lambda>encrypted.
       encrypt_shares c eph nonces validator_keys shares (hm_insert (ks_index share) encrypted acc))"

record package_randomness =
  pr_key :: "u8 list"
  pr_coefficients :: "nat \<Rightarrow> nat \<Rightarrow> u8"
  pr_nonce :: "u8 list"
  pr_ephemeral :: "nat \<Rightarrow> u8 list"
  pr_share_nonces :: "nat \<Rightarrow> u8 list"

definition encrypt_package ::
    "'a te_crypto_scheme \<Rightarrow> shamir_secret_sharing \<Rightarrow> package_randomness \<Rightarrow> u8 list \<Rightarrow> u8 list list
     \<Rightarrow> threshold_error + encrypted_package" where
  "encrypt_package c te pr content validator_keys =
     (if length validator_keys \<noteq> unat (sss_total_shares te) then Inl InvalidShare
      else
        and_then (generate_shares c te (pr_coefficients pr) (pr_key pr)) (\<lambda>shares.
          case aes_encrypt c (pr_key pr) (pr_nonce pr) [] content of
            None \<Rightarrow> Inl EncryptionError
          | Some ciphertext \<Rightarrow>
              and_then (encrypt_shares c (pr_ephemeral pr) (pr_share_nonces pr) validator_keys (enumerate 0 shares) [])
                (\<lambda>encrypted_shares.
                  Inr \<lparr> ep_ciphertext = ciphertext, ep_nonce = pr_nonce pr, ep_content_hash = te_sha256 c content,
                        ep_threshold = sss_threshold te, ep_total_shares = sss_total_shares te,
                        ep_encrypted_shares = encrypted_shares \<rparr>)))"

definition reconstruct_key :: "shamir_secret_sharing \<Rightarrow> key_share list \<Rightarrow> (threshold_error + u8 list) option" where
  "reconstruct_key te shares =
     (case reconstruct_secret te (map (\<lambda>ks. \<lparr> share_index = ks_index ks, share_value = ks_value ks \<rparr>) shares) of
        None \<Rightarrow> None
      | Some (Inl e) \<Rightarrow> Some (Inl e)
      | Some (Inr secret) \<Rightarrow> Some (if length secret \<noteq> 32 then Inl ReconstructionFailed else Inr secret))"

definition decrypt_with_shares ::
    "'a te_crypto_scheme \<Rightarrow> shamir_secret_sharing \<Rightarrow> encrypted_package \<Rightarrow> key_share list \<Rightarrow> (threshold_error + u8 list) option" where
  "decrypt_with_shares c te package shares =
     (if length shares < unat (sss_threshold te)
      then Some (Inl (InsufficientShares (of_nat (length shares)) (sss_threshold te)))
      else case reconstruct_key te (take (unat (sss_threshold te)) shares) of
             None \<Rightarrow> None
           | Some (Inl e) \<Rightarrow> Some (Inl e)
           | Some (Inr key) \<Rightarrow>
               Some (case aes_decrypt c key (ep_nonce package) [] (ep_ciphertext package) of
                       None \<Rightarrow> Inl DecryptionError
                     | Some plaintext \<Rightarrow>
                         if te_sha256 c plaintext \<noteq> ep_content_hash package then Inl DecryptionError else Inr plaintext))"

section \<open>The wire format\<close>

lemma be_bytes_roundtrip: "from_be_bytes (ucast (drop_bit 24 w)) (ucast (drop_bit 16 w)) (ucast (drop_bit 8 w)) (ucast w) = w"
proof (rule bit_word_eqI)
  fix n assume "n < LENGTH(32)"
  then consider "n < 8" | "8 \<le> n" "n < 16" | "16 \<le> n" "n < 24" | "24 \<le> n" "n < 32" by force
  then show "bit (from_be_bytes (ucast (drop_bit 24 w)) (ucast (drop_bit 16 w)) (ucast (drop_bit 8 w)) (ucast w)) n = bit w n"
    by cases (auto simp: from_be_bytes_def bit_or_iff bit_push_bit_iff bit_ucast_iff bit_drop_bit_eq)
qed

lemma share_bytes_read:
  assumes "length (ks_value s) < 2 ^ 32"
  shows "share_from_bytes (share_to_bytes s) = Inr s"
proof -
  have "unat (of_nat (length (ks_value s)) :: u32) = length (ks_value s)"
    using assms by (simp add: unsigned_of_nat take_bit_nat_eq_self)
  moreover define hdr where "hdr = ks_index s # to_be_bytes (of_nat (length (ks_value s)))"
  have "share_to_bytes s = hdr @ ks_value s @ ks_public_key s" by (simp add: share_to_bytes_def hdr_def)
  moreover have "length hdr = 5" by (simp add: hdr_def to_be_bytes_def)
  moreover have "from_be_bytes (hdr ! 1) (hdr ! 2) (hdr ! 3) (hdr ! 4) = of_nat (length (ks_value s))" "hdr ! 0 = ks_index s"
    by (simp_all add: hdr_def to_be_bytes_def be_bytes_roundtrip)
  ultimately show ?thesis
    by (simp add: share_from_bytes_def Let_def nth_append)
qed

text \<open>
  A share survives its wire format: reading the bytes of a share whose value is shorter than
  four gigabytes gives the share.
\<close>

lemma share_bytes_roundtrip:
  assumes "length (ks_value s) < 2 ^ 32"
  shows "share_from_bytes (share_to_bytes s) = Inr s"
  by (rule share_bytes_read [OF assms])

lemma share_bytes_roundtrip_witness:
  "share_from_bytes (share_to_bytes \<lparr> ks_index = 2, ks_value = [7, 8], ks_public_key = [1] \<rparr>) =
     Inr \<lparr> ks_index = 2, ks_value = [7, 8], ks_public_key = [1] \<rparr>"
  by (rule share_bytes_roundtrip) simp

section \<open>Decrypting together\<close>

lemma encrypt_share_ok:
  assumes "aead_laws c" and "ecdh_laws c" and "sk_valid c sk" and "sk_valid c eph" and "length nonce = 12"
    and enc: "encrypt_share c eph nonce share (ec_public c sk) = Inr encrypted"
  shows "decrypt_share c encrypted sk =
    Inr \<lparr> ks_index = ks_index share, ks_value = ks_value share, ks_public_key = derive_public_key c (ks_value share) \<rparr>"
proof -
  let ?key = "ecies_key c (ecdh c eph (ec_public c sk))"
  obtain ct where ct: "aes_encrypt c ?key nonce [ks_index share] (ks_value share) = Some ct"
    and e: "encrypted = [ks_index share] @ ec_public c eph @ nonce @ ct"
    using enc by (auto simp: encrypt_share_def Let_def split: if_splits option.splits)
  have eph: "pk_valid c (ec_public c eph)" "length (ec_public c eph) = 33"
    and agree: "ecdh c sk (ec_public c eph) = ecdh c eph (ec_public c sk)"
    using assms(2,4) by (auto simp: ecdh_laws_def)
  have dec: "aes_decrypt c ?key nonce [ks_index share] ct = Some (ks_value share)" "length ct = length (ks_value share) + 16"
    using assms(1) ct by (auto simp: aead_laws_def)
  show ?thesis
    using assms(3,5) eph dec by (simp add: decrypt_share_def Let_def e agree)
qed

lemma encrypt_shares_other:
  assumes "encrypt_shares c eph nonces keys ss acc = Inr m" and "k \<notin> ks_index ` snd ` set ss"
  shows "hm_get m k = hm_get acc k"
  using assms
  by (induction ss arbitrary: acc) (auto simp: and_then_def update_conv' split: sum.splits)

lemma encrypt_shares_get:
  assumes "encrypt_shares c eph nonces keys ss acc = Inr m" and "distinct (map (ks_index \<circ> snd) ss)" and "(i, s) \<in> set ss"
  shows "\<exists>e. encrypt_share c (eph i) (nonces i) s (keys ! i) = Inr e \<and> hm_get m (ks_index s) = Some e"
  using assms
proof (induction ss arbitrary: acc)
  case (Cons p ss)
  obtain j t where p: "p = (j, t)" by (cases p)
  obtain e where e: "encrypt_share c (eph j) (nonces j) t (keys ! j) = Inr e"
    "encrypt_shares c eph nonces keys ss (hm_insert (ks_index t) e acc) = Inr m"
    using Cons.prems(1) by (auto simp: p and_then_def split: sum.splits)
  have "ks_index t \<notin> ks_index ` snd ` set ss" using Cons.prems(2) by (auto simp: p image_image)
  from encrypt_shares_other [OF e(2) this] Cons.IH [OF e(2)] Cons.prems(2,3) e(1) show ?case
    by (auto simp: p update_conv')
qed simp

text \<open>
  C26. Threshold decryption. When a package was encrypted to the public keys of validators, any
  distinct validators, as many as the threshold, can each decrypt their share with their private
  key, and these shares decrypt the package to its content. Key, nonces and ephemeral keys have
  the sizes that the code draws.
\<close>

theorem threshold_package_roundtrip:
  assumes laws: "aead_laws c" "ecdh_laws c" and te: "threshold_new t n = Inr te"
    and enc: "encrypt_package c te pr content (map (ec_public c) sks) = Inr pkg"
    and keys: "list_all (sk_valid c) sks" "\<And>i. sk_valid c (pr_ephemeral pr i)" "\<And>i. length (pr_share_nonces pr i) = 12"
      "length (pr_key pr) = 32"
    and chosen: "distinct vs" "set vs \<subseteq> {..<length sks}" "length vs = unat t"
  shows "\<exists>shares. map (\<lambda>i. decrypt_share c (the (hm_get (ep_encrypted_shares pkg) (of_nat (Suc i)))) (sks ! i)) vs = map Inr shares \<and>
    decrypt_with_shares c te pkg shares = Some (Inr content)"
proof -
  have t: "sss_threshold te = t" "sss_total_shares te = n" "t \<noteq> 0"
    using te by (auto simp: threshold_new_def split: if_splits)
  let ?sh = "share_of te (pr_coefficients pr) (pr_key pr)"
  let ?ks = "\<lambda>i. \<lparr> ks_index = share_index (?sh i), ks_value = share_value (?sh i), ks_public_key = derive_public_key c (share_value (?sh i)) \<rparr>"
  let ?all = "map ?ks [0..<unat n]"
  have gen: "generate_shares c te (pr_coefficients pr) (pr_key pr) = Inr ?all"
    by (simp add: generate_shares_def split_secret_shares and_then_def t)
  have len: "length sks = unat n" using enc by (auto simp: encrypt_package_def t split: if_splits)
  obtain ct where ct: "aes_encrypt c (pr_key pr) (pr_nonce pr) [] content = Some ct"
    and es: "encrypt_shares c (pr_ephemeral pr) (pr_share_nonces pr) (map (ec_public c) sks) (enumerate 0 ?all) [] = Inr (ep_encrypted_shares pkg)"
    and pkg: "ep_ciphertext pkg = ct" "ep_nonce pkg = pr_nonce pr" "ep_content_hash pkg = te_sha256 c content"
    using enc gen by (auto simp: encrypt_package_def and_then_def split: if_splits option.splits sum.splits)
  have idx: "distinct (map (ks_index \<circ> snd) (enumerate 0 ?all))"
  proof -
    have "map (ks_index \<circ> snd) (enumerate 0 ?all) = map (\<lambda>i. of_nat (Suc i)) [0..<unat n]"
      by (rule nth_equalityI) (simp_all add: nth_enumerate_eq)
    then show ?thesis using total_shares_bound [of n] share_index_inj by (auto simp: distinct_map inj_on_def simp del: of_nat_Suc)
  qed
  have one: "decrypt_share c (the (hm_get (ep_encrypted_shares pkg) (of_nat (Suc i)))) (sks ! i) = Inr (?ks i)" if "i < unat n" for i
  proof -
    have "(i, ?ks i) \<in> set (enumerate 0 ?all)" using that by (simp add: in_set_enumerate_eq)
    from encrypt_shares_get [OF es idx this] obtain e where
      e: "encrypt_share c (pr_ephemeral pr i) (pr_share_nonces pr i) (?ks i) (map (ec_public c) sks ! i) = Inr e"
      "hm_get (ep_encrypted_shares pkg) (ks_index (?ks i)) = Some e"
      by blast
    have pk: "map (ec_public c) sks ! i = ec_public c (sks ! i)" using that len by simp
    have "sk_valid c (sks ! i)" using keys(1) that len by (simp add: list_all_length)
    from encrypt_share_ok [OF laws this keys(2,3) e(1) [unfolded pk]] e(2) show ?thesis by simp
  qed
  have dec: "aes_decrypt c (pr_key pr) (pr_nonce pr) [] ct = Some content" using laws(1) ct by (auto simp: aead_laws_def)
  have sub: "set vs \<subseteq> {..<unat n}" using chosen(2) len by simp
  have "distinct (map ?sh vs)"
    by (rule distinct_shares [OF chosen(1)]) (use sub total_shares_bound [of n] in force)
  then have "reconstruct_secret te (map ?sh vs) = Some (Inr (pr_key pr))"
    using sub chosen(3) t by (intro reconstruct_split [OF split_secret_shares]) (auto simp: t unat_eq_zero)
  moreover have "map (\<lambda>ks. \<lparr> share_index = ks_index ks, share_value = ks_value ks \<rparr>) (map ?ks vs) = map ?sh vs"
    by (simp add: share_of_def)
  ultimately have "reconstruct_key te (map ?ks vs) = Some (Inr (pr_key pr))"
    by (simp only: reconstruct_key_def) (simp add: keys(4))
  then have "decrypt_with_shares c te pkg (map ?ks vs) = Some (Inr content)"
    using chosen(3) dec by (simp add: decrypt_with_shares_def t pkg)
  moreover have "map (\<lambda>i. decrypt_share c (the (hm_get (ep_encrypted_shares pkg) (of_nat (Suc i)))) (sks ! i)) vs = map Inr (map ?ks vs)"
    using one sub by auto
  ultimately show ?thesis by blast
qed

text \<open>A scheme in which a ciphertext is the message with a tag of zeros satisfies the laws.\<close>

definition open_crypto :: te_crypto where
  "open_crypto = \<lparr> te_sha256 = (\<lambda>m. m), aes_encrypt = (\<lambda>k n a m. Some (m @ replicate 16 0)),
     aes_decrypt = (\<lambda>k n a ct. if 16 \<le> length ct then Some (take (length ct - 16) ct) else None),
     pk_valid = (\<lambda>_. True), sk_valid = (\<lambda>_. True), ec_public = (\<lambda>_. replicate 33 2), ecdh = (\<lambda>_ _. []) \<rparr>"

definition open_randomness :: package_randomness where
  "open_randomness = \<lparr> pr_key = replicate 32 5, pr_coefficients = (\<lambda>k i. of_nat (k + i)), pr_nonce = replicate 12 0,
     pr_ephemeral = (\<lambda>_. []), pr_share_nonces = (\<lambda>_. replicate 12 0) \<rparr>"

lemma open_laws: "aead_laws open_crypto" "ecdh_laws open_crypto"
  by (auto simp: aead_laws_def ecdh_laws_def open_crypto_def)

lemma open_encrypt_shares: "\<exists>m. encrypt_shares open_crypto eph nonces keys ss acc = Inr m"
proof (induction ss arbitrary: acc)
  case (Cons p ss)
  then show ?case by (cases p) (simp add: encrypt_share_def open_crypto_def and_then_def)
qed simp

theorem threshold_package_roundtrip_witness:
  "\<exists>pkg shares. encrypt_package open_crypto \<lparr> sss_threshold = 2, sss_total_shares = 3 \<rparr> open_randomness [1, 2, 3]
      (map (ec_public open_crypto) [[1], [2], [3]]) = Inr pkg \<and>
    decrypt_with_shares open_crypto \<lparr> sss_threshold = 2, sss_total_shares = 3 \<rparr> pkg shares = Some (Inr [1, 2, 3])"
proof -
  let ?te = "\<lparr> sss_threshold = 2, sss_total_shares = 3 \<rparr>"
  have te: "threshold_new 2 3 = Inr ?te" by (simp add: threshold_new_def)
  let ?keys = "map (ec_public open_crypto) [[1], [2], [3]]"
  obtain shares where gen: "generate_shares open_crypto ?te (pr_coefficients open_randomness) (pr_key open_randomness) = Inr shares"
    by (simp add: generate_shares_def split_secret_shares and_then_def)
  obtain m where "encrypt_shares open_crypto (pr_ephemeral open_randomness) (pr_share_nonces open_randomness) ?keys (enumerate 0 shares) [] = Inr m"
    using open_encrypt_shares by blast
  moreover have "aes_encrypt open_crypto k n a m = Some (m @ replicate 16 0)" for k n a m by (simp add: open_crypto_def)
  ultimately have "\<exists>pkg. encrypt_package open_crypto ?te open_randomness [1, 2, 3] ?keys = Inr pkg"
    using gen by (simp add: encrypt_package_def and_then_def)
  then obtain pkg where pkg: "encrypt_package open_crypto ?te open_randomness [1, 2, 3] (map (ec_public open_crypto) [[1], [2], [3]]) = Inr pkg" ..
  from threshold_package_roundtrip [OF open_laws te pkg, of "[2, 0]"] pkg show ?thesis
    by (auto simp: open_crypto_def open_randomness_def)
qed

end
