(* ===== verification/Decryption_Service.thy ===== *)
theory Decryption_Service
  imports Threshold_Encryption
begin

text \<open>
  The distribution of key shares (\<^verbatim>\<open>crates/threshold-encryption/src/distribution.rs\<close>), the
  decryption service of a validator and its client (\<^verbatim>\<open>service.rs\<close>). The service handles one
  command after the other; a command and its answer is one step. Ed25519 extends the
  cryptographic parameter. Slicing out of range panics in Rust; an operation that can slice so
  returns an \<open>option\<close>.

  The theorems state what the coordination guarantees and what it does not: shares handed out
  by the distributor can be read from public data, one unsigned response repeated makes a
  decryption ready, and a client never reconstructs a package from the service's responses.
\<close>

section \<open>Distribution\<close>

record ts_crypto = te_crypto +
  vk_from_bytes :: "u8 list \<Rightarrow> bool"
  ed_verify_bytes :: "u8 list \<Rightarrow> u8 list \<Rightarrow> u8 list \<Rightarrow> bool"
  ed_sign_bytes :: "u8 list \<Rightarrow> u8 list \<Rightarrow> u8 list"

definition bytes_of :: "string \<Rightarrow> u8 list" where
  "bytes_of s = map (\<lambda>ch. of_nat (of_char ch)) s"

definition u64_be_bytes :: "u64 \<Rightarrow> u8 list" where
  "u64_be_bytes w = map (\<lambda>k. ucast (drop_bit (8 * k) w)) [7, 6, 5, 4, 3, 2, 1, 0]"

record distributed_share =
  ds_validator_id :: string
  ds_encrypted_share :: "u8 list"
  ds_share_index :: u8
  distributed_at :: u64
  confirmed :: bool

record share_distributor =
  dist_te :: shamir_secret_sharing
  validator_keys :: "(string, u8 list) hash_map"
  distributed_shares :: "(string, distributed_share list) hash_map"

definition distributor_new :: "u8 \<Rightarrow> u8 \<Rightarrow> threshold_error + share_distributor" where
  "distributor_new threshold total_shares =
     and_then (threshold_new threshold total_shares) (\<lambda>te.
       Inr \<lparr> dist_te = te, validator_keys = [], distributed_shares = [] \<rparr>)"

definition register_validator :: "string \<Rightarrow> u8 list \<Rightarrow> share_distributor \<Rightarrow> share_distributor" where
  "register_validator validator_id public_key d =
     d\<lparr> validator_keys := hm_insert validator_id public_key (validator_keys d) \<rparr>"

text \<open>The first validators in the iteration order of the map; the policy is not looked at.\<close>

definition select_share_validators :: "share_distributor \<Rightarrow> threshold_error + string list" where
  "select_share_validators d =
     (let all_validators = hm_keys (validator_keys d); n = sss_total_shares (dist_te d) in
      if length all_validators < unat n then Inl (InvalidThreshold n (of_nat (length all_validators)))
      else Inr (take (unat n) all_validators))"

definition share_salt :: "u8 list" where
  "share_salt = bytes_of ''share-encryption-salt''"

definition distributor_encrypt_share ::
    "'a te_crypto_scheme \<Rightarrow> u8 list \<Rightarrow> key_share \<Rightarrow> u8 list \<Rightarrow> threshold_error + u8 list" where
  "distributor_encrypt_share c nonce share public_key =
     (case aes_encrypt c (te_sha256 c (public_key @ share_salt)) nonce [] (share_to_bytes share) of
        None \<Rightarrow> Inl EncryptionError
      | Some ciphertext \<Rightarrow> Inr (nonce @ ciphertext))"

fun distribute_loop ::
    "'a te_crypto_scheme \<Rightarrow> (string \<Rightarrow> u8 list) \<Rightarrow> u64 \<Rightarrow> (string, u8 list) hash_map \<Rightarrow> (key_share \<times> string) list
     \<Rightarrow> threshold_error + distributed_share list" where
  "distribute_loop c nonces now keys [] = Inr []"
| "distribute_loop c nonces now keys ((share, validator_id) # rest) =
     (case hm_get keys validator_id of
        None \<Rightarrow> Inl InvalidShare
      | Some public_key \<Rightarrow>
          and_then (distributor_encrypt_share c (nonces validator_id) share public_key) (\<lambda>encrypted.
            and_then (distribute_loop c nonces now keys rest) (\<lambda>distributed.
              Inr (\<lparr> ds_validator_id = validator_id, ds_encrypted_share = encrypted, ds_share_index = ks_index share,
                    distributed_at = now, confirmed = False \<rparr> # distributed))))"

definition distribute_shares ::
    "'a te_crypto_scheme \<Rightarrow> (nat \<Rightarrow> nat \<Rightarrow> u8) \<Rightarrow> (string \<Rightarrow> u8 list) \<Rightarrow> u64 \<Rightarrow> string \<Rightarrow> u8 list \<Rightarrow> share_distributor
     \<Rightarrow> (threshold_error + distributed_share list) \<times> share_distributor" where
  "distribute_shares c rnd nonces now can encryption_key d =
     (case and_then (generate_shares c (dist_te d) rnd encryption_key) (\<lambda>shares.
             and_then (select_share_validators d) (\<lambda>selected.
               if length selected < unat (sss_threshold (dist_te d))
               then Inl (InvalidThreshold (sss_threshold (dist_te d)) (of_nat (length selected)))
               else distribute_loop c nonces now (validator_keys d) (zip shares selected))) of
        Inl e \<Rightarrow> (Inl e, d)
      | Inr distributed \<Rightarrow> (Inr distributed, d\<lparr> distributed_shares := hm_insert can distributed (distributed_shares d) \<rparr>))"

fun confirm_first :: "string \<Rightarrow> distributed_share list \<Rightarrow> distributed_share list option" where
  "confirm_first validator_id [] = None"
| "confirm_first validator_id (s # ss) =
     (if ds_validator_id s = validator_id then Some (s\<lparr> confirmed := True \<rparr> # ss)
      else map_option ((#) s) (confirm_first validator_id ss))"

definition confirm_share :: "string \<Rightarrow> string \<Rightarrow> share_distributor \<Rightarrow> (threshold_error + unit) \<times> share_distributor" where
  "confirm_share can validator_id d =
     (case hm_get (distributed_shares d) can of
        None \<Rightarrow> (Inl InvalidShare, d)
      | Some shares \<Rightarrow>
          case confirm_first validator_id shares of
            None \<Rightarrow> (Inl InvalidShare, d)
          | Some shares' \<Rightarrow> (Inr (), d\<lparr> distributed_shares := hm_insert can shares' (distributed_shares d) \<rparr>))"

definition can_decrypt :: "share_distributor \<Rightarrow> string \<Rightarrow> bool" where
  "can_decrypt d can =
     (case hm_get (distributed_shares d) can of
        None \<Rightarrow> False
      | Some shares \<Rightarrow> unat (sss_threshold (dist_te d)) \<le> length (filter confirmed shares))"

section \<open>The coordinator\<close>

record decryption_request =
  rq_canonical :: string
  rq_requestor :: string
  rq_requestor_pubkey :: "u8 list"
  rq_timestamp :: u64
  rq_signature :: "u8 list"
  rq_purpose :: string

record decryption_response =
  rs_validator_id :: string
  rs_canonical :: string
  rs_encrypted_share :: "u8 list"
  rs_share_index :: u8
  rs_timestamp :: u64
  rs_signature :: "u8 list"

record decryption_coordinator =
  distributor :: share_distributor
  pending_requests :: "(string, decryption_request) hash_map"
  partial_shares :: "(string, decryption_response list) hash_map"
  response_pubkeys :: "(string, u8 list) hash_map"

definition coordinator_new :: "share_distributor \<Rightarrow> decryption_coordinator" where
  "coordinator_new d = \<lparr> distributor = d, pending_requests = [], partial_shares = [], response_pubkeys = [] \<rparr>"

definition register_validator_pubkey :: "string \<Rightarrow> u8 list \<Rightarrow> decryption_coordinator \<Rightarrow> decryption_coordinator" where
  "register_validator_pubkey validator_id pubkey co =
     co\<lparr> response_pubkeys := hm_insert validator_id pubkey (response_pubkeys co) \<rparr>"

text \<open>\<open>None\<close> stands for inputs that cannot be decoded.\<close>

definition verify_ed25519_signature :: "'a ts_crypto_scheme \<Rightarrow> u8 list \<Rightarrow> u8 list \<Rightarrow> u8 list \<Rightarrow> bool option" where
  "verify_ed25519_signature c pubkey signature msg =
     (if length pubkey \<noteq> 32 then None
      else if length signature \<noteq> 64 then None
      else if \<not> vk_from_bytes c pubkey then None
      else Some (ed_verify_bytes c pubkey msg signature))"

definition request_message :: "decryption_request \<Rightarrow> u8 list" where
  "request_message rq = bytes_of (rq_canonical rq) @ bytes_of (rq_purpose rq) @ u64_be_bytes (rq_timestamp rq)"

definition response_message :: "string \<Rightarrow> u8 list \<Rightarrow> u64 \<Rightarrow> u8 list" where
  "response_message can encrypted_share timestamp = bytes_of can @ encrypted_share @ u64_be_bytes timestamp"

definition validate_request :: "'a ts_crypto_scheme \<Rightarrow> u64 \<Rightarrow> decryption_request \<Rightarrow> bool" where
  "validate_request c now rq =
     (if 3600 < unat now - unat (rq_timestamp rq) then False
      else if rq_signature rq \<noteq> [] \<and> rq_requestor_pubkey rq \<noteq> []
      then verify_ed25519_signature c (rq_requestor_pubkey rq) (rq_signature rq) (request_message rq) = Some True
      else True)"

definition verify_decryption_response :: "'a ts_crypto_scheme \<Rightarrow> decryption_coordinator \<Rightarrow> decryption_response \<Rightarrow> bool" where
  "verify_decryption_response c co rs =
     (case hm_get (response_pubkeys co) (rs_validator_id rs) of
        None \<Rightarrow> True
      | Some pubkey \<Rightarrow>
          if rs_signature rs = [] then True
          else verify_ed25519_signature c pubkey (rs_signature rs)
                 (response_message (rs_canonical rs) (rs_encrypted_share rs) (rs_timestamp rs)) = Some True)"

definition request_decryption ::
    "'a ts_crypto_scheme \<Rightarrow> u64 \<Rightarrow> decryption_request \<Rightarrow> decryption_coordinator \<Rightarrow> (threshold_error + unit) \<times> decryption_coordinator" where
  "request_decryption c now rq co =
     (if \<not> validate_request c now rq then (Inl InvalidShare, co)
      else (Inr (), co\<lparr> pending_requests := hm_insert (rq_canonical rq) rq (pending_requests co),
                       partial_shares := hm_insert (rq_canonical rq) [] (partial_shares co) \<rparr>))"

definition submit_partial ::
    "'a ts_crypto_scheme \<Rightarrow> string \<Rightarrow> decryption_response \<Rightarrow> decryption_coordinator \<Rightarrow> (threshold_error + unit) \<times> decryption_coordinator" where
  "submit_partial c can rs co =
     (if \<not> verify_decryption_response c co rs then (Inl InvalidShare, co)
      else case hm_get (partial_shares co) can of
             None \<Rightarrow> (Inr (), co)
           | Some shares \<Rightarrow> (Inr (), co\<lparr> partial_shares := hm_insert can (shares @ [rs]) (partial_shares co) \<rparr>))"

definition decryption_ready :: "decryption_coordinator \<Rightarrow> string \<Rightarrow> bool" where
  "decryption_ready co can =
     (case hm_get (partial_shares co) can of
        None \<Rightarrow> False
      | Some shares \<Rightarrow> unat (sss_threshold (dist_te (distributor co))) \<le> length shares)"

section \<open>The service of a validator\<close>

record service_config =
  sc_validator_id :: string
  sc_validator_key :: "u8 list"
  sc_validator_pubkey :: "u8 list"
  sc_threshold :: u8
  sc_total_shares :: u8
  sc_request_timeout :: u64
  sc_max_concurrent :: nat

definition default_service_config :: service_config where
  "default_service_config =
     \<lparr> sc_validator_id = [], sc_validator_key = [], sc_validator_pubkey = [], sc_threshold = 3, sc_total_shares = 5,
       sc_request_timeout = 300, sc_max_concurrent = 10 \<rparr>"

record decryption_service =
  sv_config :: service_config
  sv_te :: shamir_secret_sharing
  sv_shares :: "(string, key_share) hash_map"
  active_count :: nat

definition service_new :: "service_config \<Rightarrow> threshold_error + decryption_service" where
  "service_new cfg =
     and_then (threshold_new (sc_threshold cfg) (sc_total_shares cfg)) (\<lambda>te.
       Inr \<lparr> sv_config = cfg, sv_te = te, sv_shares = [], active_count = 0 \<rparr>)"

definition service_decrypt_share :: "'a te_crypto_scheme \<Rightarrow> service_config \<Rightarrow> u8 list \<Rightarrow> threshold_error + u8 list" where
  "service_decrypt_share c cfg encrypted =
     (if length encrypted < 12 then Inl DecryptionError
      else case aes_decrypt c (te_sha256 c (sc_validator_key cfg @ share_salt)) (take 12 encrypted) [] (drop 12 encrypted) of
             None \<Rightarrow> Inl DecryptionError
           | Some plaintext \<Rightarrow> Inr plaintext)"

definition bytes_to_share :: "u8 list \<Rightarrow> threshold_error + key_share" where
  "bytes_to_share bytes =
     (if length bytes < 6 then Inl InvalidShare
      else
        let index = bytes ! 0;
            value_len = unat (from_be_bytes (bytes ! 1) (bytes ! 2) (bytes ! 3) (bytes ! 4))
        in if length bytes < 5 + value_len + 32 then Inl InvalidShare
           else Inr \<lparr> ks_index = index, ks_value = take value_len (drop 5 bytes),
                     ks_public_key = take 32 (drop (5 + value_len) bytes) \<rparr>)"

definition store_share ::
    "'a te_crypto_scheme \<Rightarrow> string \<Rightarrow> u8 list \<Rightarrow> decryption_service \<Rightarrow> (threshold_error + unit) \<times> decryption_service" where
  "store_share c can encrypted_share sv =
     (case and_then (service_decrypt_share c (sv_config sv) encrypted_share) bytes_to_share of
        Inl e \<Rightarrow> (Inl e, sv)
      | Inr share \<Rightarrow> (Inr (), sv\<lparr> sv_shares := hm_insert can share (sv_shares sv) \<rparr>))"

definition response_key :: "'a te_crypto_scheme \<Rightarrow> u8 list \<Rightarrow> u8 list \<Rightarrow> u8 list" where
  "response_key c requestor_pubkey validator_pubkey = te_sha256 c (requestor_pubkey @ validator_pubkey)"

definition encrypt_to_requestor :: "'a te_crypto_scheme \<Rightarrow> u8 list \<Rightarrow> service_config \<Rightarrow> key_share \<Rightarrow> u8 list \<Rightarrow> u8 list option" where
  "encrypt_to_requestor c nonce cfg share requestor_pubkey =
     map_option (\<lambda>ciphertext. nonce @ ciphertext)
       (aes_encrypt c (response_key c requestor_pubkey (sc_validator_pubkey cfg)) nonce [] (share_to_bytes share))"

definition sign_response :: "'a ts_crypto_scheme \<Rightarrow> service_config \<Rightarrow> string \<Rightarrow> u8 list \<Rightarrow> u64 \<Rightarrow> u8 list" where
  "sign_response c cfg can encrypted_share timestamp =
     (if length (sc_validator_key cfg) \<noteq> 32 then []
      else ed_sign_bytes c (sc_validator_key cfg) (response_message can encrypted_share timestamp))"

definition create_response ::
    "'a ts_crypto_scheme \<Rightarrow> u8 list \<Rightarrow> u64 \<Rightarrow> service_config \<Rightarrow> decryption_request \<Rightarrow> key_share \<Rightarrow> decryption_response option" where
  "create_response c nonce now cfg rq share =
     map_option (\<lambda>encrypted.
         \<lparr> rs_validator_id = sc_validator_id cfg, rs_canonical = rq_canonical rq, rs_encrypted_share = encrypted,
           rs_share_index = ks_index share, rs_timestamp = now,
           rs_signature = sign_response c cfg (rq_canonical rq) encrypted now \<rparr>)
       (encrypt_to_requestor c nonce cfg share (rq_requestor_pubkey rq))"

definition process_request ::
    "'a ts_crypto_scheme \<Rightarrow> u8 list \<Rightarrow> u64 \<Rightarrow> decryption_request \<Rightarrow> decryption_service
     \<Rightarrow> (decryption_response list \<times> decryption_service) option" where
  "process_request c nonce now rq sv =
     (case hm_get (sv_shares sv) (rq_canonical rq) of
        None \<Rightarrow> Some ([], sv)
      | Some share \<Rightarrow>
          if sc_max_concurrent (sv_config sv) \<le> active_count sv then Some ([], sv)
          else
            let sv1 = sv\<lparr> active_count := active_count sv + 1 \<rparr> in
            case create_response c nonce now (sv_config sv1) rq share of
              None \<Rightarrow> None
            | Some response \<Rightarrow> Some ([response], sv1\<lparr> active_count := active_count sv1 - 1 \<rparr>))"

datatype decryption_command =
    StoreShare string "u8 list"
  | ProcessRequest decryption_request
  | GetStatus

record service_status =
  ss_validator_id :: string
  stored_shares :: nat
  active_decryptions :: nat
  total_decryptions :: nat
  is_ready :: bool

definition get_status :: "decryption_service \<Rightarrow> service_status" where
  "get_status sv =
     \<lparr> ss_validator_id = sc_validator_id (sv_config sv), stored_shares = length (sv_shares sv),
       active_decryptions = active_count sv, total_decryptions = 0, is_ready = 0 < length (sv_shares sv) \<rparr>"

text \<open>One turn of the service loop, with the nonce and the time it reads.\<close>

fun service_step ::
    "'a ts_crypto_scheme \<Rightarrow> u8 list \<Rightarrow> u64 \<Rightarrow> decryption_command \<Rightarrow> decryption_service
     \<Rightarrow> (decryption_response list \<times> decryption_service) option" where
  "service_step c nonce now (StoreShare can encrypted) sv = Some ([], snd (store_share c can encrypted sv))"
| "service_step c nonce now (ProcessRequest rq) sv = process_request c nonce now rq sv"
| "service_step c nonce now GetStatus sv = Some ([], sv)"

section \<open>The client\<close>

record decryption_client =
  requestor_key :: "u8 list"
  requestor_pubkey :: "u8 list"
  cl_threshold :: u8
  cl_total_shares :: u8

definition decrypt_response_share ::
    "'a te_crypto_scheme \<Rightarrow> decryption_client \<Rightarrow> decryption_response \<Rightarrow> (threshold_error + share) option" where
  "decrypt_response_share c cl rs =
     (let encrypted = rs_encrypted_share rs in
      if length encrypted < 12 then Some (Inl DecryptionError)
      else case aes_decrypt c (te_sha256 c (requestor_pubkey cl @ requestor_key cl)) (take 12 encrypted) [] (drop 12 encrypted) of
             None \<Rightarrow> Some (Inl DecryptionError)
           | Some [] \<Rightarrow> None
           | Some (index # value) \<Rightarrow> Some (Inr \<lparr> share_index = index, share_value = value \<rparr>))"

fun decrypt_responses ::
    "'a te_crypto_scheme \<Rightarrow> decryption_client \<Rightarrow> decryption_response list \<Rightarrow> (threshold_error + key_share list) option" where
  "decrypt_responses c cl [] = Some (Inr [])"
| "decrypt_responses c cl (rs # rest) =
     (case decrypt_response_share c cl rs of
        None \<Rightarrow> None
      | Some (Inl e) \<Rightarrow> Some (Inl e)
      | Some (Inr s) \<Rightarrow>
          case decrypt_responses c cl rest of
            None \<Rightarrow> None
          | Some (Inl e) \<Rightarrow> Some (Inl e)
          | Some (Inr shares) \<Rightarrow>
              Some (Inr (\<lparr> ks_index = share_index s, ks_value = share_value s, ks_public_key = [] \<rparr> # shares)))"

definition reconstruct_package ::
    "'a te_crypto_scheme \<Rightarrow> decryption_client \<Rightarrow> u8 list \<Rightarrow> decryption_response list \<Rightarrow> (threshold_error + u8 list) option" where
  "reconstruct_package c cl encrypted_package responses =
     (case decrypt_responses c cl responses of
        None \<Rightarrow> None
      | Some (Inl e) \<Rightarrow> Some (Inl e)
      | Some (Inr shares) \<Rightarrow>
          case threshold_new (cl_threshold cl) (cl_total_shares cl) of
            Inl e \<Rightarrow> Some (Inl e)
          | Inr te \<Rightarrow>
              case reconstruct_key te shares of
                None \<Rightarrow> None
              | Some (Inl e) \<Rightarrow> Some (Inl e)
              | Some (Inr key) \<Rightarrow>
                  Some (if length encrypted_package < 12 then Inl DecryptionError
                        else case aes_decrypt c key (take 12 encrypted_package) [] (drop 12 encrypted_package) of
                               None \<Rightarrow> Inl DecryptionError
                             | Some plaintext \<Rightarrow> Inr plaintext))"

section \<open>What the coordination guarantees\<close>

lemma distribute_loop_length: "distribute_loop c nonces now keys ps = Inr ds \<Longrightarrow> length ds = length ps"
  by (induction ps arbitrary: ds) (auto simp: and_then_def split: option.splits sum.splits)

lemma distribute_loop_nth:
  assumes "distribute_loop c nonces now keys ps = Inr ds" and "i < length ps"
  shows "\<exists>pk. hm_get keys (snd (ps ! i)) = Some pk \<and> ds_validator_id (ds ! i) = snd (ps ! i) \<and>
    distributor_encrypt_share c (nonces (snd (ps ! i))) (fst (ps ! i)) pk = Inr (ds_encrypted_share (ds ! i))"
  using assms
proof (induction ps arbitrary: ds i)
  case (Cons p ps)
  obtain s v where p: "p = (s, v)" by (cases p)
  obtain pk e rest where pk: "hm_get keys v = Some pk" "distributor_encrypt_share c (nonces v) s pk = Inr e"
    and rest: "distribute_loop c nonces now keys ps = Inr rest"
    and ds: "ds = \<lparr> ds_validator_id = v, ds_encrypted_share = e, ds_share_index = ks_index s, distributed_at = now, confirmed = False \<rparr> # rest"
    using Cons.prems(1) by (auto simp: p and_then_def split: option.splits sum.splits)
  show ?case
  proof (cases i)
    case 0
    with pk ds show ?thesis by (simp add: p)
  next
    case (Suc j)
    with Cons.prems(2) Cons.IH [OF rest, of j] show ?thesis by (simp add: ds)
  qed
qed simp

text \<open>What an observer that knows a validator's public key reads from its encrypted share.\<close>

definition read_with_public_key :: "'a te_crypto_scheme \<Rightarrow> u8 list \<Rightarrow> u8 list \<Rightarrow> threshold_error + key_share" where
  "read_with_public_key c public_key encrypted =
     (case aes_decrypt c (te_sha256 c (public_key @ share_salt)) (take 12 encrypted) [] (drop 12 encrypted) of
        None \<Rightarrow> Inl DecryptionError
      | Some plaintext \<Rightarrow> share_from_bytes plaintext)"

lemma read_distributed_share:
  assumes "aead_laws c" and "length nonce = 12" and "length (ks_value s) < 2 ^ 32"
    and "distributor_encrypt_share c nonce s pk = Inr e"
  shows "read_with_public_key c pk e = Inr s"
  using assms share_bytes_read [OF assms(3)]
  by (auto simp: distributor_encrypt_share_def read_with_public_key_def aead_laws_def split: option.splits)

text \<open>
  C27. The shares that the distributor hands out are not secret: their encryption key is derived
  from the validator's public key. Whoever knows the public keys reads every distributed share,
  and any threshold of them gives the encryption key; no private key is involved.
\<close>

theorem distributed_shares_public:
  assumes aead: "aead_laws c" and n: "\<And>v. length (nonces v) = 12" and key: "length key < 2 ^ 32" "sss_threshold (dist_te d) \<noteq> 0"
    and dist: "distribute_shares c rnd nonces now can key d = (Inr ds, d')"
    and chosen: "distinct vs" "set vs \<subseteq> {..<length ds}" "length vs = unat (sss_threshold (dist_te d))"
  shows "\<exists>shares. map (\<lambda>i. read_with_public_key c (the (hm_get (validator_keys d) (ds_validator_id (ds ! i)))) (ds_encrypted_share (ds ! i))) vs
      = map Inr shares \<and>
    reconstruct_secret (dist_te d) (map (\<lambda>ks. \<lparr> share_index = ks_index ks, share_value = ks_value ks \<rparr>) shares) = Some (Inr key)"
proof -
  let ?sh = "share_of (dist_te d) rnd key" and ?n = "unat (sss_total_shares (dist_te d))"
  let ?ks = "\<lambda>i. \<lparr> ks_index = share_index (?sh i), ks_value = share_value (?sh i), ks_public_key = derive_public_key c (share_value (?sh i)) \<rparr>"
  obtain selected where sel: "distribute_loop c nonces now (validator_keys d) (zip (map ?ks [0..<?n]) selected) = Inr ds"
    using dist by (auto simp: distribute_shares_def generate_shares_def split_secret_shares and_then_def comp_def
        split: sum.splits if_splits)
  have bound: "length ds \<le> ?n" "length ds \<le> length selected" using distribute_loop_length [OF sel] by simp_all
  have one: "read_with_public_key c (the (hm_get (validator_keys d) (ds_validator_id (ds ! i)))) (ds_encrypted_share (ds ! i)) = Inr (?ks i)"
    if "i < length ds" for i
  proof -
    have i: "i < length (zip (map ?ks [0..<?n]) selected)" using that bound by simp
    have at: "zip (map ?ks [0..<?n]) selected ! i = (?ks i, selected ! i)" using that bound by (subst nth_zip) simp_all
    from distribute_loop_nth [OF sel i, unfolded at fst_conv snd_conv] obtain pk where
      pk: "hm_get (validator_keys d) (selected ! i) = Some pk" "ds_validator_id (ds ! i) = selected ! i"
      "distributor_encrypt_share c (nonces (selected ! i)) (?ks i) pk = Inr (ds_encrypted_share (ds ! i))"
      by blast
    have "length (ks_value (?ks i)) < 2 ^ 32" using key(1) by (simp add: share_of_def)
    from read_distributed_share [OF aead n this pk(3)] pk show ?thesis by simp
  qed
  have sub: "set vs \<subseteq> {..<?n}" using chosen(2) bound by auto
  have "distinct (map ?sh vs)"
    by (rule distinct_shares [OF chosen(1)]) (use sub total_shares_bound [of "sss_total_shares (dist_te d)"] in force)
  then have "reconstruct_secret (dist_te d) (map ?sh vs) = Some (Inr key)"
    using sub chosen(3) key(2) by (intro reconstruct_split [OF split_secret_shares]) (auto simp: unat_eq_zero)
  moreover have "map (\<lambda>ks. \<lparr> share_index = ks_index ks, share_value = ks_value ks \<rparr>) (map ?ks vs) = map ?sh vs"
    by (simp add: share_of_def)
  moreover have "map (\<lambda>i. read_with_public_key c (the (hm_get (validator_keys d) (ds_validator_id (ds ! i)))) (ds_encrypted_share (ds ! i))) vs
      = map Inr (map ?ks vs)"
    using one chosen(2) by auto
  ultimately show ?thesis by (intro exI [of _ "map ?ks vs"] conjI) (simp_all only:)
qed

text \<open>
  Readiness counts messages, not validators: from a coordinator that has accepted a request
  and received nothing, as many copies of one unsigned response as the threshold asks for make
  the decryption ready, from a registered validator or not.
\<close>

lemma unsigned_response_makes_ready:
  assumes "hm_get (partial_shares co) can = Some []" and "rs_signature rs = []"
  shows "decryption_ready (((\<lambda>co. snd (submit_partial c can rs co)) ^^ unat (sss_threshold (dist_te (distributor co)))) co) can"
proof -
  let ?f = "\<lambda>co. snd (submit_partial c can rs co)"
  have ok: "verify_decryption_response c co' rs" for co'
    using assms(2) by (simp add: verify_decryption_response_def split: option.split)
  have "hm_get (partial_shares ((?f ^^ k) co)) can = Some (replicate k rs) \<and> distributor ((?f ^^ k) co) = distributor co" for k
    using assms(1) ok by (induction k) (simp_all add: submit_partial_def update_conv' flip: replicate_append_same)
  then show ?thesis by (simp add: decryption_ready_def)
qed

text \<open>
  A response whose decryption by the client fails or gives the share that was sent, of a 32-byte key.
\<close>

definition sent_by_service :: "'a te_crypto_scheme \<Rightarrow> decryption_client \<Rightarrow> decryption_response \<Rightarrow> bool" where
  "sent_by_service c cl rs \<longleftrightarrow> (\<exists>s. length (ks_value s) = 32 \<and> length (ks_public_key s) = 32 \<and>
     aes_decrypt c (te_sha256 c (requestor_pubkey cl @ requestor_key cl)) (take 12 (rs_encrypted_share rs)) [] (drop 12 (rs_encrypted_share rs))
       \<in> {None, Some (share_to_bytes s)})"

lemma decrypt_responses_length:
  assumes "list_all (sent_by_service c cl) rss" and "decrypt_responses c cl rss = Some (Inr shares)"
  shows "list_all (\<lambda>s. length (ks_value s) = 68) shares"
  using assms
proof (induction rss arbitrary: shares)
  case (Cons rs rss)
  obtain s rest where s: "decrypt_response_share c cl rs = Some (Inr s)" "decrypt_responses c cl rss = Some (Inr rest)"
    and shares: "shares = \<lparr> ks_index = share_index s, ks_value = share_value s, ks_public_key = [] \<rparr> # rest"
    using Cons.prems(2) by (auto split: option.splits sum.splits)
  have "length (share_value s) = 68"
    using Cons.prems(1) s(1)
    by (auto simp: sent_by_service_def decrypt_response_share_def Let_def share_to_bytes_def to_be_bytes_def split: if_splits option.splits list.splits)
  with Cons s(2) shares show ?case by simp
qed simp


section \<open>Concrete runs\<close>

definition open_distributor :: share_distributor where
  "open_distributor = \<lparr> dist_te = \<lparr> sss_threshold = 1, sss_total_shares = 2 \<rparr>, validator_keys = [(''a'', [1]), (''b'', [2])],
     distributed_shares = [] \<rparr>"

lemma open_distribute:
  "\<exists>ds d'. distribute_shares open_crypto (\<lambda>_ _. 0) (\<lambda>_. replicate 12 0) 0 ''p'' [9] open_distributor = (Inr ds, d') \<and> length ds = 2"
proof -
  have enc: "\<exists>e. distributor_encrypt_share open_crypto n s pk = Inr e" for n s pk
    by (simp add: distributor_encrypt_share_def open_crypto_def)
  have loop: "\<exists>ds. distribute_loop open_crypto nonces now [(''a'', [1]), (''b'', [2])] [(s, ''a''), (t, ''b'')] = Inr ds \<and> length ds = 2" for nonces now s t
    using enc [of "nonces ''a''" s "[1]"] enc [of "nonces ''b''" t "[2]"] by (auto simp: and_then_def)
  obtain shares where gen: "generate_shares open_crypto (dist_te open_distributor) (\<lambda>_ _. 0) [9] = Inr shares" "length shares = 2"
    by (simp add: generate_shares_def split_secret_shares and_then_def open_distributor_def)
  then obtain s t where "shares = [s, t]" by (auto simp: numeral_2_eq_2 length_Suc_conv)
  moreover obtain ds where "distribute_loop open_crypto (\<lambda>_. replicate 12 0) 0 [(''a'', [1]), (''b'', [2])] [(s, ''a''), (t, ''b'')] = Inr ds" "length ds = 2"
    using loop by blast
  moreover have "select_share_validators open_distributor = Inr [''a'', ''b'']"
    by (simp add: select_share_validators_def open_distributor_def)
  moreover have "sss_threshold (dist_te open_distributor) = 1" "validator_keys open_distributor = [(''a'', [1]), (''b'', [2])]"
    by (simp_all add: open_distributor_def)
  ultimately show ?thesis using gen(1) by (simp add: distribute_shares_def and_then_def)
qed

theorem distributed_shares_public_witness:
  "\<exists>ds d' shares. distribute_shares open_crypto (\<lambda>_ _. 0) (\<lambda>_. replicate 12 0) 0 ''p'' [9] open_distributor = (Inr ds, d') \<and>
     map (\<lambda>i. read_with_public_key open_crypto (the (hm_get (validator_keys open_distributor) (ds_validator_id (ds ! i)))) (ds_encrypted_share (ds ! i))) [1]
       = map Inr shares \<and>
     reconstruct_secret (dist_te open_distributor) (map (\<lambda>ks. \<lparr> share_index = ks_index ks, share_value = ks_value ks \<rparr>) shares) = Some (Inr [9])"
proof -
  obtain ds d' where d: "distribute_shares open_crypto (\<lambda>_ _. 0) (\<lambda>_. replicate 12 0) 0 ''p'' [9] open_distributor = (Inr ds, d')"
    "length ds = 2" using open_distribute by blast
  have te: "sss_threshold (dist_te open_distributor) = 1" by (simp add: open_distributor_def)
  from distributed_shares_public [OF open_laws(1) _ _ _ d(1), of "[1]"] d show ?thesis by (auto simp: te)
qed

definition open_coordinator :: decryption_coordinator where
  "open_coordinator = (coordinator_new (open_distributor\<lparr> dist_te := \<lparr> sss_threshold = 3, sss_total_shares = 5 \<rparr> \<rparr>))\<lparr> partial_shares := [(''p'', [])] \<rparr>"

definition open_response :: decryption_response where
  "open_response = \<lparr> rs_validator_id = ''nobody'', rs_canonical = ''p'', rs_encrypted_share = [], rs_share_index = 1, rs_timestamp = 0,
     rs_signature = [] \<rparr>"

definition open_signatures :: ts_crypto where
  "open_signatures = te_crypto.extend open_crypto
     \<lparr> vk_from_bytes = (\<lambda>_. True), ed_verify_bytes = (\<lambda>_ _ _. True), ed_sign_bytes = (\<lambda>_ _. []) \<rparr>"

lemma unsigned_response_makes_ready_witness:
  "decryption_ready (((\<lambda>co. snd (submit_partial open_signatures ''p'' open_response co)) ^^
     unat (sss_threshold (dist_te (distributor open_coordinator)))) open_coordinator) ''p''"
  by (rule unsigned_response_makes_ready) (simp_all add: open_coordinator_def open_response_def)

definition open_share :: key_share where
  "open_share = \<lparr> ks_index = 1, ks_value = replicate 32 7, ks_public_key = replicate 32 8 \<rparr>"

definition open_client :: decryption_client where
  "open_client = \<lparr> requestor_key = [1], requestor_pubkey = [2], cl_threshold = 1, cl_total_shares = 2 \<rparr>"


section \<open>Access control\<close>

text \<open>Roles and permissions of \<^verbatim>\<open>access_control.rs\<close>.\<close>

datatype role = Admin | Publisher | Reader | Validator | Observer
datatype permission = P_Publish | P_Read | P_Decrypt | P_Validate | P_Manage

fun role_has_permission :: "role \<Rightarrow> permission \<Rightarrow> bool" where
  "role_has_permission Admin _ = True"
| "role_has_permission Publisher P_Publish = True"
| "role_has_permission Publisher P_Read = True"
| "role_has_permission Reader P_Read = True"
| "role_has_permission Reader P_Decrypt = True"
| "role_has_permission Validator P_Validate = True"
| "role_has_permission Validator P_Read = True"
| "role_has_permission Observer P_Read = True"
| "role_has_permission _ _ = False"

record org_member =
  om_id :: string
  om_roles :: "role list"
  added_at :: u64
  added_by :: string

definition member_has_permission :: "org_member \<Rightarrow> permission \<Rightarrow> bool" where
  "member_has_permission m p = list_ex (\<lambda>r. role_has_permission r p) (om_roles m)"

definition add_role :: "role \<Rightarrow> org_member \<Rightarrow> org_member" where
  "add_role r m = (if r \<notin> set (om_roles m) then m\<lparr> om_roles := om_roles m @ [r] \<rparr> else m)"

definition remove_role :: "role \<Rightarrow> org_member \<Rightarrow> org_member" where
  "remove_role r m = m\<lparr> om_roles := filter (\<lambda>x. x \<noteq> r) (om_roles m) \<rparr>"

lemma add_role_permissions:
  "member_has_permission (add_role r m) p \<longleftrightarrow> role_has_permission r p \<or> member_has_permission m p"
  by (auto simp: add_role_def member_has_permission_def list_ex_iff)

lemma remove_role_permissions:
  "member_has_permission (remove_role r m) p \<longleftrightarrow> (\<exists>x \<in> set (om_roles m) - {r}. role_has_permission x p)"
  by (auto simp: remove_role_def member_has_permission_def list_ex_iff)

record org_policy =
  requires_approval :: bool
  max_package_size :: u64
  min_stake :: u64
  allow_external_publishers :: bool
  allowed_ecosystems :: "string list"
  custom_rules :: "(string, string) hash_map"

definition default_policy :: org_policy where
  "default_policy = \<lparr> requires_approval = True, max_package_size = 100 * 1024 * 1024, min_stake = 0,
     allow_external_publishers = False, allowed_ecosystems = [], custom_rules = [] \<rparr>"

definition relaxed_policy :: org_policy where
  "relaxed_policy = \<lparr> requires_approval = False, max_package_size = 500 * 1024 * 1024, min_stake = 0,
     allow_external_publishers = True, allowed_ecosystems = [], custom_rules = [] \<rparr>"

definition with_custom_rule :: "string \<Rightarrow> string \<Rightarrow> org_policy \<Rightarrow> org_policy" where
  "with_custom_rule key v pol = pol\<lparr> custom_rules := hm_insert key v (custom_rules pol) \<rparr>"

definition strict_policy :: org_policy where
  "strict_policy = \<lparr> requires_approval = True, max_package_size = 10 * 1024 * 1024, min_stake = 100000,
     allow_external_publishers = False, allowed_ecosystems = [''npm'', ''pypi''], custom_rules = [] \<rparr>"

datatype policy_error = SizeExceeded u64 u64 | EcosystemNotAllowed string | InsufficientStake u64 u64

definition validate_package :: "org_policy \<Rightarrow> u64 \<Rightarrow> string \<Rightarrow> u64 \<Rightarrow> policy_error + unit" where
  "validate_package pol sz ecosystem publisher_stake =
     (if max_package_size pol < sz then Inl (SizeExceeded sz (max_package_size pol))
      else if allowed_ecosystems pol \<noteq> [] \<and> ecosystem \<notin> set (allowed_ecosystems pol) then Inl (EcosystemNotAllowed ecosystem)
      else if publisher_stake < min_stake pol then Inl (InsufficientStake publisher_stake (min_stake pol))
      else Inr ())"

text \<open>A package that the strict policy accepts is accepted by the relaxed one and by the default.\<close>

lemma strict_policy_strongest:
  assumes "validate_package strict_policy sz eco st = Inr ()"
  shows "validate_package relaxed_policy sz eco st = Inr ()" and "validate_package default_policy sz eco st = Inr ()"
proof -
  have "sz \<le> 10485760" using assms by (simp add: validate_package_def strict_policy_def not_less split: if_splits)
  then have "sz \<le> 524288000" "sz \<le> 104857600" by (simp_all add: word_le_nat_alt)
  then show "validate_package relaxed_policy sz eco st = Inr ()" "validate_package default_policy sz eco st = Inr ()"
    by (simp_all add: validate_package_def relaxed_policy_def default_policy_def not_less)
qed

end
