(* ===== verification/Validator_Set.thy ===== *)
theory Validator_Set
  imports Blocks
begin

text \<open>
  The active validator set of \<^verbatim>\<open>crates/consensus/src/validator_set.rs\<close> and the runtime
  validator data of \<^verbatim>\<open>crates/common/src/lib.rs\<close> it is built from.

  The invariant \<open>vset_wf\<close> says that every entry is stored under its own identifier. The
  lemmas show that every operation keeps it, that \<open>vset_len\<close> is the number of members, what
  slashing and rewarding do to stake, reputation and membership, and that the digest of
  the set does not depend on the order in which the map is iterated.
\<close>

section \<open>Data\<close>

text \<open>\<^verbatim>\<open>common::Validator\<close> and \<^verbatim>\<open>common::ValidatorIdentity\<close>.\<close>

record validator =
  v_id :: string
  v_alias :: string
  v_pubkey :: string
  v_eth_address :: string
  v_stake :: u64
  v_reputation :: u32
  v_status :: string

record validator_identity =
  evm_address :: string
  node_id :: string
  ed25519_pubkey :: string

definition identity_normalized :: "validator_identity \<Rightarrow> validator_identity" where
  "identity_normalized i =
     \<lparr> evm_address = to_ascii_lowercase (trim (evm_address i)),
       node_id = trim (node_id i),
       ed25519_pubkey = to_ascii_lowercase (trim (ed25519_pubkey i)) \<rparr>"

definition identity_is_complete :: "validator_identity \<Rightarrow> bool" where
  "identity_is_complete i =
     (trim (evm_address i) \<noteq> [] \<and> trim (node_id i) \<noteq> [] \<and> trim (ed25519_pubkey i) \<noteq> [])"

text \<open>\<^verbatim>\<open>consensus::ValidatorInfo\<close> and \<^verbatim>\<open>consensus::ValidatorSet\<close>.\<close>

record validator_info =
  vi_id :: string
  vi_pubkey :: string
  vi_eth_address :: "string option"
  stake :: u64
  reputation :: u8
  is_active :: bool

record validator_set =
  validators :: "(string, validator_info) hash_map"

section \<open>Operations\<close>

definition vset_new :: validator_set where
  "vset_new = \<lparr> validators = [] \<rparr>"

definition vset_add :: "validator_info \<Rightarrow> validator_set \<Rightarrow> validator_set" where
  "vset_add info s = s\<lparr> validators := hm_insert (vi_id info) info (validators s) \<rparr>"

definition vset_remove :: "string \<Rightarrow> validator_set \<Rightarrow> validator_set" where
  "vset_remove i s = s\<lparr> validators := hm_modify i (\<lambda>v. v\<lparr> is_active := False \<rparr>) (validators s) \<rparr>"

definition is_member :: "validator_set \<Rightarrow> string \<Rightarrow> bool" where
  "is_member s i = (case hm_get (validators s) i of None \<Rightarrow> False | Some v \<Rightarrow> is_active v)"

definition vset_len :: "validator_set \<Rightarrow> nat" where
  "vset_len s = count_where is_active (hm_values (validators s))"

definition active_ids :: "validator_set \<Rightarrow> string list" where
  "active_ids s = map vi_id (filter is_active (hm_values (validators s)))"

definition slash_validator :: "u64 \<Rightarrow> validator_info \<Rightarrow> validator_info" where
  "slash_validator amount v =
     (let v' = v\<lparr> stake := saturating_sub (stake v) amount,
                 reputation := saturating_sub (reputation v) 10 \<rparr>
      in if stake v' = 0 then v'\<lparr> is_active := False \<rparr> else v')"

definition slash :: "string \<Rightarrow> u64 \<Rightarrow> validator_set \<Rightarrow> validator_set" where
  "slash i amount s = s\<lparr> validators := hm_modify i (slash_validator amount) (validators s) \<rparr>"

definition reward_validator :: "validator_info \<Rightarrow> validator_info" where
  "reward_validator v = v\<lparr> reputation := min (saturating_add (reputation v) 1) 100 \<rparr>"

definition reward :: "string \<Rightarrow> validator_set \<Rightarrow> validator_set" where
  "reward i s = s\<lparr> validators := hm_modify i reward_validator (validators s) \<rparr>"

definition set_hash :: "'a crypto_scheme \<Rightarrow> validator_set \<Rightarrow> string" where
  "set_hash c s = sha256_hex c (join_with '','' (sort (active_ids s)))"

text \<open>\<^verbatim>\<open>impl From<common::ValidatorSet> for ValidatorSet\<close>.\<close>

definition reputation_u8 :: "u32 \<Rightarrow> u8" where
  "reputation_u8 r = (if unat r \<le> 255 then ucast r else 100)"

definition validator_info_of :: "validator \<Rightarrow> validator_info" where
  "validator_info_of v =
     \<lparr> vi_id = v_id v, vi_pubkey = v_pubkey v, vi_eth_address = Some (v_eth_address v),
       stake = v_stake v, reputation = reputation_u8 (v_reputation v),
       is_active = (v_status v = ''online'' \<or> v_status v = ''self'') \<rparr>"

definition vset_from :: "validator list \<Rightarrow> validator_set" where
  "vset_from vs = foldl (\<lambda>s v. vset_add (validator_info_of v) s) vset_new vs"

section \<open>Invariant\<close>

definition vset_wf :: "validator_set \<Rightarrow> bool" where
  "vset_wf s = (hm_ok (validators s) \<and> (\<forall>(k, v) \<in> set (validators s). vi_id v = k))"

text \<open>The members, as the code sees them through \<^verbatim>\<open>is_member\<close>.\<close>

definition members :: "validator_set \<Rightarrow> string set" where
  "members s = {i. is_member s i}"

lemma hm_modify_absent: "hm_get m k = None \<Longrightarrow> hm_modify k g m = m"
  by (induction m) (auto split: if_splits)

lemma vset_wf_new [creg_inv]: "vset_wf vset_new"
  by (simp add: vset_wf_def vset_new_def)

lemma update_keyed:
  "\<forall>(k, v) \<in> set m. f v = k \<Longrightarrow> f w = j \<Longrightarrow> \<forall>(k, v) \<in> set (hm_insert j w m). f v = k"
  by (induction m) auto

lemma modify_keyed:
  "\<forall>(k, v) \<in> set m. f v = k \<Longrightarrow> (\<And>v. f (g v) = f v) \<Longrightarrow> \<forall>(k, v) \<in> set (hm_modify j g m). f v = k"
  by (induction m) auto

lemma vset_wf_add [creg_inv]: "vset_wf s \<Longrightarrow> vset_wf (vset_add info s)"
  unfolding vset_wf_def vset_add_def
  using update_keyed [of "validators s" vi_id info "vi_id info"] by simp

lemma vset_wf_modify:
  "vset_wf s \<Longrightarrow> (\<And>v. vi_id (g v) = vi_id v) \<Longrightarrow>
     vset_wf (s\<lparr> validators := hm_modify i g (validators s) \<rparr>)"
  unfolding vset_wf_def using modify_keyed [of "validators s" vi_id g i] by simp

lemma slash_validator_id [simp]: "vi_id (slash_validator amount v) = vi_id v"
  by (simp add: slash_validator_def Let_def)

lemma reward_validator_id [simp]: "vi_id (reward_validator v) = vi_id v"
  by (simp add: reward_validator_def)

lemma vset_wf_ops [creg_inv]:
  assumes "vset_wf s"
  shows "vset_wf (vset_remove i s)" and "vset_wf (slash i amount s)" and "vset_wf (reward i s)"
  unfolding vset_remove_def slash_def reward_def
  using assms by (auto intro: vset_wf_modify)

lemma vset_wf_from [creg_inv]: "vset_wf (vset_from vs)"
proof -
  have "vset_wf s \<Longrightarrow> vset_wf (foldl (\<lambda>s v. vset_add (validator_info_of v) s) s vs)" for s
    by (induction vs arbitrary: s) (simp_all add: vset_wf_add)
  then show ?thesis by (simp add: vset_from_def vset_wf_new)
qed

section \<open>Members\<close>

lemma vset_len_members:
  assumes "vset_wf s"
  shows "vset_len s = card (members s)"
proof -
  have "vset_len s = card {k. \<exists>v. hm_get (validators s) k = Some v \<and> is_active v}"
    using assms by (simp add: vset_len_def hm.count_values vset_wf_def)
  also have "{k. \<exists>v. hm_get (validators s) k = Some v \<and> is_active v} = members s"
    by (auto simp: members_def is_member_def split: option.splits)
  finally show ?thesis .
qed

lemma finite_members [simp]: "finite (members s)"
proof (rule finite_subset)
  show "members s \<subseteq> fst ` set (validators s)"
    by (auto simp: members_def is_member_def split: option.splits dest!: map_of_SomeD)
       (metis fst_conv image_eqI)
qed simp

lemma set_active_ids:
  assumes "vset_wf s"
  shows "set (active_ids s) = members s"
proof -
  have "i \<in> set (active_ids s) \<longleftrightarrow> (\<exists>v. (i, v) \<in> set (validators s) \<and> is_active v)" for i
    using assms by (force simp: active_ids_def vset_wf_def)
  then show ?thesis
    using assms by (auto simp: members_def is_member_def vset_wf_def hm.entries_lookup
        split: option.splits)
qed

lemma is_member_modify:
  "is_member (s\<lparr> validators := hm_modify i g (validators s) \<rparr>) j =
     (if j = i then (case hm_get (validators s) i of None \<Rightarrow> False | Some v \<Rightarrow> is_active (g v))
      else is_member s j)"
  by (auto simp: is_member_def hm_get_modify split: option.splits)

lemma members_remove: "members (vset_remove i s) = members s - {i}"
  by (auto simp: members_def vset_remove_def is_member_modify split: option.splits if_splits)

lemma members_slash_subset: "members (slash i amount s) \<subseteq> members s"
  by (auto simp: members_def slash_def is_member_modify slash_validator_def Let_def
      is_member_def [of s] split: option.splits if_splits)

lemma members_reward: "members (reward i s) = members s"
  by (auto simp: members_def reward_def is_member_modify reward_validator_def
      is_member_def [of s] split: option.splits if_splits)

text \<open>A validator whose whole stake is slashed is no longer a member; the others are.\<close>

lemma slash_depleted:
  assumes "hm_get (validators s) i = Some v" and "stake v \<le> amount"
  shows "\<not> is_member (slash i amount s) i"
  using assms by (auto simp: slash_def is_member_modify slash_validator_def Let_def
      saturating_sub_def)

lemma slash_partial:
  assumes "hm_get (validators s) i = Some v" and "amount < stake v"
  shows "hm_get (validators (slash i amount s)) i =
    Some (v\<lparr> stake := stake v - amount, reputation := saturating_sub (reputation v) 10 \<rparr>)"
proof -
  have "stake v - amount \<noteq> 0" using assms(2) by auto
  with assms show ?thesis
    by (simp add: slash_def hm_get_modify slash_validator_def Let_def saturating_sub_def)
qed

lemma slash_absent: "hm_get (validators s) i = None \<Longrightarrow> slash i amount s = s"
  by (simp add: slash_def hm_modify_absent)

section \<open>Reputation\<close>

definition reputation_bounded :: "validator_set \<Rightarrow> bool" where
  "reputation_bounded s = (\<forall>v \<in> set (hm_values (validators s)). reputation v \<le> 100)"

lemma values_modify:
  "(\<And>v. P v \<Longrightarrow> P (g v)) \<Longrightarrow> \<forall>v \<in> set (hm_values m). P v \<Longrightarrow>
     \<forall>v \<in> set (hm_values (hm_modify k g m)). P v"
  by (induction m) auto

lemma reputation_bounded_modify:
  assumes "reputation_bounded s" and "\<And>v. reputation v \<le> 100 \<Longrightarrow> reputation (g v) \<le> 100"
  shows "reputation_bounded (s\<lparr> validators := hm_modify i g (validators s) \<rparr>)"
proof -
  have "\<forall>v \<in> set (hm_values (hm_modify i g (validators s))). reputation v \<le> 100"
    by (rule values_modify) (use assms in \<open>auto simp: reputation_bounded_def\<close>)
  then show ?thesis by (simp add: reputation_bounded_def)
qed

lemma reputation_slash: "reputation (slash_validator amount v) \<le> reputation v"
  by (simp add: slash_validator_def Let_def saturating_sub_le)

lemma reputation_reward: "reputation (reward_validator v) \<le> 100"
  by (simp add: reward_validator_def)

lemma reputation_bounded_ops [creg_inv]:
  assumes "reputation_bounded s"
  shows "reputation_bounded (slash i amount s)" and "reputation_bounded (reward i s)"
    and "reputation_bounded (vset_remove i s)"
  unfolding slash_def reward_def vset_remove_def using assms
  by (auto intro!: reputation_bounded_modify reputation_reward order_trans [OF reputation_slash])

section \<open>The digest of the set\<close>

lemma mset_active_ids:
  "mset m = mset m' \<Longrightarrow>
     mset (active_ids \<lparr> validators = m \<rparr>) = mset (active_ids \<lparr> validators = m' \<rparr>)"
  unfolding active_ids_def by (simp add: mset_filter)

interpretation vset_digest: order_insensitive "\<lambda>m. set_hash c \<lparr> validators = m \<rparr>"
  by unfold_locales (metis mset_active_ids set_hash_def sort_mset_cong)

end
