(* ===== verification/Concrete.thy ===== *)
theory Concrete
  imports Validator_Set "HOL-Library.Countable"
begin

text \<open>
  Concrete parameters for the examples of the development: an environment in which the
  digest and the hexadecimal encoding are the identity and a signature of a message is the
  key followed by the message, with a small validator set and blocks. The environment
  satisfies the documented laws of the libraries it stands for (decoding inverts encoding,
  a signature verifies under its public key), so it shows that the hypotheses the theorems
  put on them can hold together.
\<close>

definition demo_env :: env where
  "demo_env =
     \<lparr> sha256_digest = (\<lambda>s. s), hex_encode = (\<lambda>s. s), hex_decode = Some, vk_try_from = (\<lambda>_. True),
       sig_try_from = (\<lambda>_. True), ed_verify = (\<lambda>pk m s. s = pk @ m), ed_public = (\<lambda>s. s),
       ed_sign = (\<lambda>sk m. sk @ m), ser_header = (\<lambda>h. proposer_id h),
       ser_tx = (\<lambda>t. case t of ValidatorLeave v \<Rightarrow> v | _ \<Rightarrow> ''tx'') \<rparr>"

lemma demo_env_simps [simp]:
  "sha256_digest demo_env = (\<lambda>s. s)" "hex_encode demo_env = (\<lambda>s. s)" "hex_decode demo_env = Some"
  "vk_try_from demo_env = (\<lambda>_. True)" "sig_try_from demo_env = (\<lambda>_. True)"
  "ed_verify demo_env = (\<lambda>pk m s. s = pk @ m)" "ed_public demo_env = (\<lambda>s. s)"
  "ed_sign demo_env = (\<lambda>sk m. sk @ m)" "ser_header demo_env = (\<lambda>h. proposer_id h)"
  "ser_tx demo_env = (\<lambda>t. case t of ValidatorLeave v \<Rightarrow> v | _ \<Rightarrow> ''tx'')"
  by (simp_all add: demo_env_def)

definition demo_block :: block where
  "demo_block =
     genesis\<lparr> transactions := [ValidatorLeave ''a'', ValidatorLeave ''b'', ValidatorLeave ''c''],
       header := (header genesis)\<lparr> merkle_root_field := ''abcc'' \<rparr> \<rparr>"

text \<open>One active validator \<open>v\<close> with key \<open>k\<close>, and a block it proposes.\<close>

definition demo_info :: validator_info where
  "demo_info = \<lparr> vi_id = ''v'', vi_pubkey = ''k'', vi_eth_address = None, stake = 100,
     reputation = 50, is_active = True \<rparr>"

definition demo_vset :: validator_set where
  "demo_vset = \<lparr> validators = [(''v'', demo_info)] \<rparr>"

definition demo_proposal :: block where
  "demo_proposal = genesis\<lparr> header := (header genesis)\<lparr> height := 1, proposer_id := ''v'' \<rparr> \<rparr>"

lemma demo_proposal_simps [simp]:
  "proposer_id (header demo_proposal) = ''v''" "height (header demo_proposal) = 1"
  "vrf_proof (header demo_proposal) = None" "block_hash_of demo_env demo_proposal = ''v''"
  "prev_hash (header demo_proposal) = replicate 64 (CHR ''0'')"
  by (simp_all add: demo_proposal_def genesis_def block_hash_of_def header_hash_def sha256_hex_def
      sha256_def)

lemma demo_vset_simps [simp]:
  "vset_len demo_vset = 1" "is_member demo_vset ''v''" "members demo_vset = {''v''}"
  "vset_wf demo_vset" "map_of (validators demo_vset) = [''v'' \<mapsto> demo_info]"
  by (auto simp: demo_vset_def demo_info_def vset_len_def is_member_def members_def vset_wf_def
      hm_ok_def split: if_splits)

text \<open>An injective header encoding: the fields counted by one number, in unary.\<close>

definition unary_env :: env where
  "unary_env = demo_env\<lparr> ser_header := (\<lambda>h. replicate (to_nat (height h, prev_hash h, merkle_root_field h,
     proposer_id h, timestamp h, validator_set_hash h, vrf_output h, vrf_proof h)) CHR ''x'') \<rparr>"

lemma unary_env_inj: "inj (ser_header unary_env)"
proof (rule injI)
  fix h h' :: block_header
  assume "ser_header unary_env h = ser_header unary_env h'"
  from arg_cong [OF this, of length] show "h = h'" by (simp add: unary_env_def)
qed

lemma unary_hash_inj: "inj (header_hash unary_env)"
proof -
  have "header_hash unary_env = ser_header unary_env"
    by (intro ext) (simp add: header_hash_def sha256_hex_def sha256_def unary_env_def)
  then show ?thesis by (simp add: unary_env_inj)
qed

end
