(* ===== verification/Chain_Store.thy ===== *)
theory Chain_Store
  imports Concrete
begin

text \<open>
  The persistent chain of \<^verbatim>\<open>crates/node/src/chain_store.rs\<close>. The three RocksDB column
  families are maps; an iterator visits a map in key order (\<open>in_key_order\<close>), a write batch is a
  list of puts that is applied as a whole after the reads of the operation, and big-endian
  heights are ordered as numbers. Values are stored as themselves: the JSON that the source
  writes and reads back is the identity here, and failures of the disk are not modelled.

  The lemmas show what lookups return after an insertion and after a rollback, and that
  replaying the chain rebuilds the package index; three theorems state where the index
  loses or mixes up information.
\<close>

section \<open>Definitions\<close>

record chain_store =
  blocks_by_hash :: "(string, block) hash_map"
  blocks_by_height :: "(nat, string) hash_map"
  packages :: "(string, chain_record) hash_map"

definition in_key_order :: "('k::linorder, 'v) hash_map \<Rightarrow> ('k \<times> 'v) list" where
  "in_key_order m = sort_key fst m"

text \<open>\<^verbatim>\<open>prefix_iterator_cf\<close> with the loops' own check that a key has the prefix.\<close>

definition with_prefix :: "string \<Rightarrow> (string, 'v) hash_map \<Rightarrow> (string \<times> 'v) list" where
  "with_prefix prefix m = filter (\<lambda>(k, _). starts_with k prefix) (in_key_order m)"

definition get_block_by_hash :: "chain_store \<Rightarrow> string \<Rightarrow> block option" where
  "get_block_by_hash s h = hm_get (blocks_by_hash s) h"

definition get_block_by_height :: "chain_store \<Rightarrow> nat \<Rightarrow> block option" where
  "get_block_by_height s n =
     (case hm_get (blocks_by_height s) n of None \<Rightarrow> None | Some h \<Rightarrow> get_block_by_hash s h)"

definition tip_height :: "chain_store \<Rightarrow> nat" where
  "tip_height s = (case rev (in_key_order (blocks_by_height s)) of [] \<Rightarrow> 0 | (n, _) # _ \<Rightarrow> n)"

definition tip_hash :: "env \<Rightarrow> chain_store \<Rightarrow> string" where
  "tip_hash c s =
     (case get_block_by_height s (tip_height s) of
        Some b \<Rightarrow> block_hash_of c b
      | None \<Rightarrow> replicate 64 (CHR ''0''))"

text \<open>The puts into the package family for one transaction, reading the store before the batch.\<close>

fun index_puts :: "string \<Rightarrow> (string, chain_record) hash_map \<Rightarrow> transaction \<Rightarrow> (string \<times> chain_record) list"
  where
  "index_puts h pkgs (Publish record) =
     (let rec' = record\<lparr> block_hash := h \<rparr> in [(canonical (rec_id rec'), rec')])"
| "index_puts h pkgs (Revoke can reason _ _) =
     (case hm_get pkgs can of
        None \<Rightarrow> []
      | Some rec' \<Rightarrow> [(can, rec'\<lparr> status := Revoked reason \<rparr>)])"
| "index_puts h pkgs (RotatePublisherKey prefix old_pubkey new_pubkey _ _ _ _) =
     List.map_filter
       (\<lambda>(k, rec'). if publisher_pubkey rec' = old_pubkey
                   then Some (k, rec'\<lparr> publisher_pubkey := new_pubkey \<rparr>) else None)
       (with_prefix prefix pkgs)"
| "index_puts h pkgs _ = []"

definition apply_puts :: "('k \<times> 'v) list \<Rightarrow> ('k, 'v) hash_map \<Rightarrow> ('k, 'v) hash_map" where
  "apply_puts puts m = foldl (\<lambda>m (k, v). hm_insert k v m) m puts"

definition index_block :: "env \<Rightarrow> block \<Rightarrow> (string, chain_record) hash_map \<Rightarrow> (string, chain_record) hash_map" where
  "index_block c b pkgs =
     apply_puts (concat (map (index_puts (block_hash_of c b) pkgs) (transactions b))) pkgs"

definition insert_block :: "env \<Rightarrow> block \<Rightarrow> chain_store \<Rightarrow> chain_store" where
  "insert_block c b s =
     (let h = block_hash_of c b in
      \<lparr> blocks_by_hash = hm_insert h b (blocks_by_hash s),
        blocks_by_height = hm_insert (height (header b)) h (blocks_by_height s),
        packages = index_block c b (packages s) \<rparr>)"

record block_insert_outcome =
  outcome_hash :: string
  replaced_hash :: "string option"

definition insert_block_with_outcome :: "env \<Rightarrow> block \<Rightarrow> chain_store \<Rightarrow> block_insert_outcome \<times> chain_store" where
  "insert_block_with_outcome c b s =
     (let new_hash = block_hash_of c b;
          replaced = (case get_block_by_height s (height (header b)) of
             Some existing \<Rightarrow>
               let existing_hash = block_hash_of c existing in
               if existing_hash \<noteq> new_hash then Some existing_hash else None
           | None \<Rightarrow> None)
      in (\<lparr> outcome_hash = new_hash, replaced_hash = replaced \<rparr>, insert_block c b s))"

text \<open>The store a node opens: empty, then with the genesis block.\<close>

definition block_count :: "chain_store \<Rightarrow> nat" where
  "block_count s = length (blocks_by_height s)"

definition empty_chain :: chain_store where
  "empty_chain = \<lparr> blocks_by_hash = [], blocks_by_height = [], packages = [] \<rparr>"

definition chain_open :: "env \<Rightarrow> chain_store \<Rightarrow> chain_store" where
  "chain_open c s = (if tip_height s = 0 \<and> block_count s = 0 then insert_block c genesis s else s)"

definition rollback_to_height :: "nat \<Rightarrow> chain_store \<Rightarrow> string list \<times> chain_store" where
  "rollback_to_height h s =
     (let tip = tip_height s in
      if tip \<le> h then ([], s)
      else
        let hs = rev [h + 1..<tip + 1] in
        (List.map_filter (hm_get (blocks_by_height s)) hs,
         s\<lparr> blocks_by_height := fold hm_remove hs (blocks_by_height s) \<rparr>))"

definition rebuild_package_index :: "env \<Rightarrow> chain_store \<Rightarrow> chain_store" where
  "rebuild_package_index c s =
     (let cleared = s\<lparr> packages := fold hm_remove (map fst (in_key_order (packages s))) (packages s) \<rparr> in
      foldl (\<lambda>s h. case get_block_by_height s h of Some b \<Rightarrow> insert_block c b s | None \<Rightarrow> s)
        cleared [0..<tip_height cleared + 1])"

text \<open>The loop of \<^verbatim>\<open>list_blocks\<close>: the height and how many blocks are still wanted.\<close>

fun list_blocks_loop :: "chain_store \<Rightarrow> nat \<Rightarrow> nat \<Rightarrow> block list" where
  "list_blocks_loop s 0 n = []"
| "list_blocks_loop s (Suc want) n =
     (case get_block_by_height s n of
        None \<Rightarrow> []
      | Some b \<Rightarrow> b # (if n = 0 then [] else list_blocks_loop s want (n - 1)))"

definition list_blocks :: "nat \<Rightarrow> nat \<Rightarrow> chain_store \<Rightarrow> block list" where
  "list_blocks offset limit s =
     (let tip = tip_height s in
      if tip = 0 then [] else list_blocks_loop s limit (tip - offset))"

section \<open>The package index\<close>

definition get_package :: "chain_store \<Rightarrow> string \<Rightarrow> chain_record option" where
  "get_package s can = hm_get (packages s) can"

definition save_package :: "chain_record \<Rightarrow> chain_store \<Rightarrow> chain_store" where
  "save_package r s = s\<lparr> packages := hm_insert (canonical (rec_id r)) r (packages s) \<rparr>"

definition mark_accessed :: "datetime \<Rightarrow> string \<Rightarrow> chain_store \<Rightarrow> chain_store" where
  "mark_accessed now can s =
     (case get_package s can of
        None \<Rightarrow> s
      | Some r \<Rightarrow> save_package (r\<lparr> access_count := access_count r + 1, last_accessed := Some now \<rparr>) s)"

text \<open>
  \<^verbatim>\<open>semver::Version\<close> is a library type: parsing and comparing are the parameters.
\<close>

definition is_newer :: "(string \<Rightarrow> 'v option) \<Rightarrow> ('v \<Rightarrow> 'v \<Rightarrow> bool) \<Rightarrow> chain_record \<Rightarrow> chain_record \<Rightarrow> bool" where
  "is_newer parse newer r current =
     (case (parse (version (rec_id r)), parse (version (rec_id current))) of
        (Some nv, Some cv) \<Rightarrow> newer nv cv
      | _ \<Rightarrow> version (rec_id current) < version (rec_id r))"

definition get_latest_version ::
    "(string \<Rightarrow> 'v option) \<Rightarrow> ('v \<Rightarrow> 'v \<Rightarrow> bool) \<Rightarrow> string \<Rightarrow> string \<Rightarrow> chain_store \<Rightarrow> chain_record option" where
  "get_latest_version parse newer eco nm s =
     foldl (\<lambda>latest (_, r).
         if status r = Verified then
           (case latest of
              None \<Rightarrow> Some r
            | Some current \<Rightarrow> if is_newer parse newer r current then Some r else latest)
         else latest)
       None (with_prefix (eco @ '':'' @ nm) (packages s))"

definition package_count :: "chain_store \<Rightarrow> nat" where
  "package_count s = length (packages s)"

definition has_publisher_for_prefix :: "string \<Rightarrow> string \<Rightarrow> chain_store \<Rightarrow> bool" where
  "has_publisher_for_prefix prefix pubkey s =
     list_ex (\<lambda>(_, r). publisher_pubkey r = pubkey) (with_prefix prefix (packages s))"

text \<open>The scans for rotations go from the tip down and through a block from its start.\<close>

fun rotation_nonce_of :: "string \<Rightarrow> transaction \<Rightarrow> u64 option" where
  "rotation_nonce_of pubkey (RotatePublisherKey _ old_pubkey _ _ _ _ nonce) =
     (if old_pubkey = pubkey then Some nonce else None)"
| "rotation_nonce_of pubkey _ = None"

definition rotations :: "string \<Rightarrow> chain_store \<Rightarrow> (block \<times> u64) list" where
  "rotations pubkey s =
     concat (map (\<lambda>h. case get_block_by_height s h of
                        None \<Rightarrow> []
                      | Some b \<Rightarrow> map (\<lambda>n. (b, n)) (List.map_filter (rotation_nonce_of pubkey) (transactions b)))
       (rev [0..<tip_height s + 1]))"

definition publisher_rotation_nonce :: "string \<Rightarrow> chain_store \<Rightarrow> u64 option" where
  "publisher_rotation_nonce pubkey s = (case rotations pubkey s of [] \<Rightarrow> Some 0 | (_, n) # _ \<Rightarrow> Some n)"

definition publisher_last_rotation_time :: "string \<Rightarrow> chain_store \<Rightarrow> datetime option" where
  "publisher_last_rotation_time pubkey s =
     (case rotations pubkey s of [] \<Rightarrow> None | (b, _) # _ \<Rightarrow> Some (timestamp (header b)))"

fun same_status_kind :: "package_status \<Rightarrow> package_status \<Rightarrow> bool" where
  "same_status_kind Verified Verified = True"
| "same_status_kind Pending Pending = True"
| "same_status_kind (Revoked _) (Revoked _) = True"
| "same_status_kind _ _ = False"

definition list_packages ::
    "nat \<Rightarrow> nat \<Rightarrow> string option \<Rightarrow> package_status option \<Rightarrow> chain_store \<Rightarrow> chain_record list \<times> nat" where
  "list_packages offset limit eco st s =
     (let items = (case eco of
            Some e \<Rightarrow> with_prefix (e @ '':'') (packages s)
          | None \<Rightarrow> in_key_order (packages s));
          matching = filter (\<lambda>r. case st of None \<Rightarrow> True | Some k \<Rightarrow> same_status_kind k (status r)) (map snd items)
      in (take limit (drop offset matching), length matching))"

record chain_stats =
  stats_tip_height :: nat
  stats_tip_hash :: string
  stats_package_count :: nat
  stats_block_count :: nat

definition chain_stats_of :: "env \<Rightarrow> chain_store \<Rightarrow> chain_stats" where
  "chain_stats_of c s =
     \<lparr> stats_tip_height = tip_height s, stats_tip_hash = tip_hash c s,
       stats_package_count = package_count s, stats_block_count = block_count s \<rparr>"

section \<open>Invariant\<close>

text \<open>
  Keys are unique, a block is stored under its hash, and a height points to a stored block of
  that height.
\<close>

definition chain_inv :: "env \<Rightarrow> chain_store \<Rightarrow> bool" where
  "chain_inv c s \<longleftrightarrow> hm_ok (blocks_by_hash s) \<and> hm_ok (blocks_by_height s) \<and> hm_ok (packages s) \<and>
     (\<forall>h b. hm_get (blocks_by_hash s) h = Some b \<longrightarrow> block_hash_of c b = h) \<and>
     (\<forall>n h. hm_get (blocks_by_height s) n = Some h \<longrightarrow>
        (\<exists>b. hm_get (blocks_by_hash s) h = Some b \<and> height (header b) = n))"

lemma apply_puts_ok [simp]: "hm_ok m \<Longrightarrow> hm_ok (apply_puts puts m)"
  unfolding apply_puts_def by (induction puts arbitrary: m) auto

lemma set_in_key_order [simp]: "set (in_key_order m) = set m"
  by (simp add: in_key_order_def)

lemma tip_height_Max:
  assumes "hm_ok (blocks_by_height s)" and "blocks_by_height s \<noteq> []"
  shows "tip_height s = Max (dom (hm_get (blocks_by_height s)))"
proof -
  let ?o = "in_key_order (blocks_by_height s)"
  have ne: "?o \<noteq> []" using assms(2) by (simp add: in_key_order_def) (metis length_0_conv length_sort)
  have tip: "tip_height s = fst (last ?o)"
    using ne by (cases ?o rule: rev_cases) (auto simp: tip_height_def split: prod.splits)
  have srt: "sorted (map fst ?o)" by (simp add: in_key_order_def)
  have dom: "dom (hm_get (blocks_by_height s)) = fst ` set ?o"
    by (simp add: hm.lookup_dom assms(1))
  have "fst (last ?o) \<in> fst ` set ?o" using ne by (metis imageI last_in_set)
  moreover have "n \<le> fst (last ?o)" if "n \<in> fst ` set ?o" for n
  proof -
    from ne obtain xs x where o: "?o = xs @ [x]" by (cases ?o rule: rev_cases) auto
    from srt that show ?thesis unfolding o by (auto simp: sorted_append)
  qed
  ultimately show ?thesis unfolding tip dom by (intro Max_eqI [symmetric]) auto
qed

section \<open>Insertion\<close>

lemma insert_block_fields [simp]:
  "blocks_by_hash (insert_block c b s) = hm_insert (block_hash_of c b) b (blocks_by_hash s)"
  "blocks_by_height (insert_block c b s) = hm_insert (height (header b)) (block_hash_of c b) (blocks_by_height s)"
  "packages (insert_block c b s) = index_block c b (packages s)"
  by (simp_all add: insert_block_def Let_def)

text \<open>The block's hash is not the hash of a stored block at another height.\<close>

definition fresh_hash :: "env \<Rightarrow> block \<Rightarrow> chain_store \<Rightarrow> bool" where
  "fresh_hash c b s =
     (case get_block_by_hash s (block_hash_of c b) of None \<Rightarrow> True | Some b' \<Rightarrow> height (header b') = height (header b))"

lemma chain_inv_ok:
  "chain_inv c s \<Longrightarrow> hm_ok (blocks_by_hash s) \<and> hm_ok (blocks_by_height s) \<and> hm_ok (packages s)"
  by (simp add: chain_inv_def)

lemma chain_inv_hash: "chain_inv c s \<Longrightarrow> hm_get (blocks_by_hash s) h = Some b \<Longrightarrow> block_hash_of c b = h"
  by (simp add: chain_inv_def)

lemma chain_inv_height:
  assumes "chain_inv c s" and "hm_get (blocks_by_height s) n = Some h"
  obtains b where "hm_get (blocks_by_hash s) h = Some b" and "height (header b) = n" and "block_hash_of c b = h"
proof -
  from assms have "\<exists>b. hm_get (blocks_by_hash s) h = Some b \<and> height (header b) = n"
    by (simp add: chain_inv_def)
  with chain_inv_hash [OF assms(1)] that show thesis by blast
qed

lemma chain_inv_insert:
  assumes inv: "chain_inv c s" and fresh: "fresh_hash c b s"
  shows "chain_inv c (insert_block c b s)"
  unfolding chain_inv_def
proof (intro conjI allI impI)
  fix h b' assume "hm_get (blocks_by_hash (insert_block c b s)) h = Some b'"
  then show "block_hash_of c b' = h"
    using chain_inv_hash [OF inv] by (auto simp: update_conv' split: if_splits)
next
  fix n h assume n: "hm_get (blocks_by_height (insert_block c b s)) n = Some h"
  show "\<exists>b'. hm_get (blocks_by_hash (insert_block c b s)) h = Some b' \<and> height (header b') = n"
  proof (cases "n = height (header b)")
    case True
    with n show ?thesis by (auto simp: update_conv')
  next
    case False
    with n have "hm_get (blocks_by_height s) n = Some h" by (simp add: update_conv')
    then obtain b' where "hm_get (blocks_by_hash s) h = Some b'" "height (header b') = n" "block_hash_of c b' = h"
      by (rule chain_inv_height [OF inv])
    moreover from this False have "h \<noteq> block_hash_of c b"
      using fresh by (auto simp: fresh_hash_def get_block_by_hash_def)
    ultimately show ?thesis by (simp add: update_conv')
  qed
qed (use chain_inv_ok [OF inv] in \<open>simp_all add: index_block_def\<close>)

lemma chain_inv_empty: "chain_inv c empty_chain"
  by (simp add: chain_inv_def empty_chain_def)

lemma fresh_hash_empty: "fresh_hash c b empty_chain"
  by (simp add: fresh_hash_def get_block_by_hash_def empty_chain_def)

lemma get_by_height_insert:
  assumes inv: "chain_inv c s" and fresh: "fresh_hash c b s"
  shows "get_block_by_height (insert_block c b s) n =
    (if n = height (header b) then Some b else get_block_by_height s n)"
proof (cases "n = height (header b)")
  case True
  then show ?thesis by (simp add: get_block_by_height_def get_block_by_hash_def update_conv')
next
  case False
  have ne: "h \<noteq> block_hash_of c b" if "hm_get (blocks_by_height s) n = Some h" for h
  proof -
    from that obtain b' where "hm_get (blocks_by_hash s) h = Some b'" "height (header b') = n"
      by (rule chain_inv_height [OF inv])
    with False fresh show ?thesis by (auto simp: fresh_hash_def get_block_by_hash_def)
  qed
  show ?thesis
    using False ne by (cases "hm_get (blocks_by_height s) n")
      (simp_all add: get_block_by_height_def get_block_by_hash_def update_conv')
qed

lemma tip_height_insert:
  assumes "hm_ok (blocks_by_height s)"
  shows "tip_height (insert_block c b s) = max (tip_height s) (height (header b))"
proof -
  let ?s = "insert_block c b s"
  have ne: "blocks_by_height ?s \<noteq> []" using update_nonempty by fastforce
  have "tip_height ?s = Max (insert (height (header b)) (dom (hm_get (blocks_by_height s))))"
    using assms by (subst tip_height_Max) (simp_all add: ne update_conv' del: fun_upd_apply)
  also have "\<dots> = max (tip_height s) (height (header b))"
  proof (cases "blocks_by_height s = []")
    case True
    then show ?thesis by (simp add: tip_height_def in_key_order_def)
  next
    case False
    moreover have "dom (hm_get (blocks_by_height s)) \<noteq> {}" using False by (cases "blocks_by_height s") auto
    ultimately show ?thesis
      using tip_height_Max [OF assms] by (simp add: finite_dom_map_of max.commute)
  qed
  finally show ?thesis .
qed

text \<open>
  C37. Inserting a block keeps the store consistent and is visible at once by height and by
  hash; the blocks at all other heights stay as they were, the tip is the greater of the old
  tip and the new height, and a replacement is reported exactly when the height held a block
  with another hash. No stored block of another height has the hash of the new one.
\<close>

theorem insert_block_correct:
  assumes "chain_inv c s" and "fresh_hash c b s"
  shows "chain_inv c (snd (insert_block_with_outcome c b s)) \<and>
    get_block_by_hash (snd (insert_block_with_outcome c b s)) (block_hash_of c b) = Some b \<and>
    (\<forall>n. get_block_by_height (snd (insert_block_with_outcome c b s)) n =
       (if n = height (header b) then Some b else get_block_by_height s n)) \<and>
    tip_height (snd (insert_block_with_outcome c b s)) = max (tip_height s) (height (header b)) \<and>
    replaced_hash (fst (insert_block_with_outcome c b s)) =
      (case get_block_by_height s (height (header b)) of
         None \<Rightarrow> None
       | Some old \<Rightarrow> if block_hash_of c old = block_hash_of c b then None else Some (block_hash_of c old))"
proof -
  have "snd (insert_block_with_outcome c b s) = insert_block c b s"
    by (simp add: insert_block_with_outcome_def Let_def)
  moreover have "hm_ok (blocks_by_height s)" using assms(1) by (simp add: chain_inv_def)
  moreover have "get_block_by_hash (insert_block c b s) (block_hash_of c b) = Some b"
    by (simp add: get_block_by_hash_def update_conv')
  ultimately show ?thesis
    by (simp add: chain_inv_insert [OF assms] get_by_height_insert [OF assms] tip_height_insert
        insert_block_with_outcome_def Let_def split: option.split)
qed

definition demo_chain :: "block list" where
  "demo_chain = [genesis, demo_proposal]"

lemma demo_chain_heights: "\<forall>i < length demo_chain. height (header (demo_chain ! i)) = i"
  by (auto simp: demo_chain_def less_Suc_eq genesis_def)

theorem insert_block_correct_witness:
  "get_block_by_hash (snd (insert_block_with_outcome unary_env demo_proposal empty_chain))
     (block_hash_of unary_env demo_proposal) = Some demo_proposal \<and>
   tip_height (snd (insert_block_with_outcome unary_env demo_proposal empty_chain)) = max (tip_height empty_chain) 1"
  using insert_block_correct [OF chain_inv_empty fresh_hash_empty, of unary_env demo_proposal] by simp

section \<open>Rollback\<close>

lemma fold_hm_remove_ok: "hm_ok m \<Longrightarrow> hm_ok (fold hm_remove ks m)"
  by (induction ks arbitrary: m) (auto simp: hm.valid_drop)

lemma fold_hm_remove_get:
  "hm_ok m \<Longrightarrow> hm_get (fold hm_remove ks m) k = (if k \<in> set ks then None else hm_get m k)"
  by (induction ks arbitrary: m) (auto simp: hm.valid_drop hm.lookup_drop)

lemma rollback_fields:
  "blocks_by_height (snd (rollback_to_height h s)) =
     (if tip_height s \<le> h then blocks_by_height s
      else fold hm_remove (rev [h + 1..<tip_height s + 1]) (blocks_by_height s))"
  by (simp add: rollback_to_height_def Let_def del: upt_Suc)

lemma heights_below_tip:
  assumes "hm_ok (blocks_by_height s)" and "hm_get (blocks_by_height s) n = Some h"
  shows "n \<le> tip_height s"
proof -
  have "blocks_by_height s \<noteq> []" using assms(2) by auto
  then have "tip_height s = Max (dom (hm_get (blocks_by_height s)))" by (rule tip_height_Max [OF assms(1)])
  moreover have "n \<in> dom (hm_get (blocks_by_height s))" using assms(2) by blast
  ultimately show ?thesis by (simp add: finite_dom_map_of)
qed

lemma rollback_height:
  assumes "hm_ok (blocks_by_height s)"
  shows "hm_get (blocks_by_height (snd (rollback_to_height h s))) n =
    (if n \<le> h then hm_get (blocks_by_height s) n else None)"
proof (cases "tip_height s \<le> h")
  case True
  have "hm_get (blocks_by_height s) n = None" if "\<not> n \<le> h"
    using heights_below_tip [OF assms, of n] that True by (cases "hm_get (blocks_by_height s) n") auto
  with True show ?thesis by (simp add: rollback_fields)
next
  case False
  have "hm_get (blocks_by_height s) n = None" if "tip_height s < n"
    using heights_below_tip [OF assms, of n] that by (cases "hm_get (blocks_by_height s) n") auto
  with False show ?thesis
    by (auto simp: rollback_fields fold_hm_remove_get [OF assms] simp del: upt_Suc)
qed

lemma rollback_other [simp]:
  "blocks_by_hash (snd (rollback_to_height h s)) = blocks_by_hash s"
  "packages (snd (rollback_to_height h s)) = packages s"
  by (simp_all add: rollback_to_height_def Let_def)

lemma rollback_ok:
  "hm_ok (blocks_by_height s) \<Longrightarrow> hm_ok (blocks_by_height (snd (rollback_to_height h s)))"
  by (simp add: rollback_fields fold_hm_remove_ok del: upt_Suc)

lemma chain_inv_rollback:
  assumes "chain_inv c s"
  shows "chain_inv c (snd (rollback_to_height h s))"
  unfolding chain_inv_def
proof (intro conjI allI impI)
  let ?s = "snd (rollback_to_height h s)"
  have ok: "hm_ok (blocks_by_height s)" using chain_inv_ok [OF assms] by simp
  fix n' h' assume "hm_get (blocks_by_height ?s) n' = Some h'"
  then have "hm_get (blocks_by_height s) n' = Some h'" by (simp add: rollback_height [OF ok] split: if_splits)
  then show "\<exists>b. hm_get (blocks_by_hash ?s) h' = Some b \<and> height (header b) = n'"
    by (rule chain_inv_height [OF assms]) auto
qed (use chain_inv_ok [OF assms] chain_inv_hash [OF assms] rollback_ok in simp_all)

lemma get_by_height_rollback:
  assumes "chain_inv c s"
  shows "get_block_by_height (snd (rollback_to_height h s)) n = (if n \<le> h then get_block_by_height s n else None)"
  using chain_inv_ok [OF assms]
  by (simp add: get_block_by_height_def get_block_by_hash_def rollback_height cong: option.case_cong)

text \<open>
  C38. A rollback keeps the store consistent: the blocks up to the given height stay, no block
  above it is reachable by height, and every hash reported as abandoned is the hash of a
  block that is still stored and can be read by that hash.
\<close>

theorem rollback_correct:
  assumes "chain_inv c s"
  shows "chain_inv c (snd (rollback_to_height h s)) \<and>
    get_block_by_height (snd (rollback_to_height h s)) n = (if n \<le> h then get_block_by_height s n else None) \<and>
    (\<forall>x \<in> set (fst (rollback_to_height h s)).
       \<exists>b. get_block_by_hash (snd (rollback_to_height h s)) x = Some b \<and> block_hash_of c b = x \<and> h < height (header b))"
proof (intro conjI ballI chain_inv_rollback [OF assms] get_by_height_rollback [OF assms])
  let ?s = "snd (rollback_to_height h s)"
  fix x assume "x \<in> set (fst (rollback_to_height h s))"
  then obtain n' where n': "hm_get (blocks_by_height s) n' = Some x" "h < n'"
    by (auto simp: rollback_to_height_def Let_def map_filter_def split: if_splits)
  from n'(1) show "\<exists>b. get_block_by_hash ?s x = Some b \<and> block_hash_of c b = x \<and> h < height (header b)"
    by (rule chain_inv_height [OF assms]) (use n'(2) in \<open>auto simp: get_block_by_hash_def\<close>)
qed

theorem rollback_correct_witness:
  "get_block_by_height (snd (rollback_to_height 0 (insert_block unary_env demo_proposal empty_chain))) 1 = None"
  using rollback_correct [OF chain_inv_insert [OF chain_inv_empty fresh_hash_empty], of unary_env 0 demo_proposal 1] by simp

section \<open>Rebuilding the index\<close>

definition chain_of :: "env \<Rightarrow> block list \<Rightarrow> chain_store" where
  "chain_of c bs = foldl (\<lambda>s b. insert_block c b s) empty_chain bs"

lemma update_same: "map_of m k = Some v \<Longrightarrow> AList.update k v m = m"
  by (induction m) (auto split: if_splits)

lemma chain_of_snoc: "chain_of c (bs @ [b]) = insert_block c b (chain_of c bs)"
  by (simp add: chain_of_def)

lemma chain_of_by_hash: "get_block_by_hash (chain_of c bs) h = Some b \<Longrightarrow> b \<in> set bs \<and> block_hash_of c b = h"
proof (induction bs rule: rev_induct)
  case Nil
  then show ?case by (simp add: chain_of_def empty_chain_def get_block_by_hash_def)
next
  case (snoc x xs)
  then show ?case
    by (cases "h = block_hash_of c x") (auto simp: chain_of_snoc get_block_by_hash_def update_conv')
qed

lemma chain_of_fresh:
  assumes "inj_on (block_hash_of c) (set (bs @ [b]))"
  shows "fresh_hash c b (chain_of c bs)"
proof -
  have "b' = b" if "get_block_by_hash (chain_of c bs) (block_hash_of c b) = Some b'" for b'
    using chain_of_by_hash [OF that] by (intro inj_onD [OF assms]) simp_all
  then show ?thesis by (auto simp: fresh_hash_def split: option.split)
qed

text \<open>
  The abstract view of a store: it holds a list of blocks when the block at every height is
  the one at that place of the list, and there is none above.
\<close>

definition holds_chain :: "env \<Rightarrow> block list \<Rightarrow> chain_store \<Rightarrow> bool" where
  "holds_chain c bs s \<longleftrightarrow> chain_inv c s \<and> (\<forall>i < length bs. height (header (bs ! i)) = i) \<and>
     (\<forall>n. get_block_by_height s n = (if n < length bs then Some (bs ! n) else None))"

lemma holds_empty: "holds_chain c [] empty_chain"
  by (simp add: holds_chain_def chain_inv_empty) (simp add: empty_chain_def get_block_by_height_def)

lemma holds_insert:
  assumes "holds_chain c bs s" and "fresh_hash c b s" and "height (header b) = length bs"
  shows "holds_chain c (bs @ [b]) (insert_block c b s)"
proof -
  have "chain_inv c s" using assms(1) by (simp add: holds_chain_def)
  note ins = chain_inv_insert [OF this assms(2)] get_by_height_insert [OF this assms(2)]
  show ?thesis using assms(1,3) by (auto simp: holds_chain_def ins nth_append less_Suc_eq)
qed

lemma holds_rollback:
  assumes "holds_chain c bs s" and "h < length bs"
  shows "holds_chain c (take (Suc h) bs) (snd (rollback_to_height h s))"
proof -
  have "chain_inv c s" using assms(1) by (simp add: holds_chain_def)
  then show ?thesis
    using assms by (auto simp: holds_chain_def chain_inv_rollback get_by_height_rollback)
qed

lemma holds_get: "holds_chain c bs s \<Longrightarrow> n < length bs \<Longrightarrow> get_block_by_height s n = Some (bs ! n)"
  by (simp add: holds_chain_def)

lemma holds_tip:
  assumes "holds_chain c bs s" and "bs \<noteq> []"
  shows "tip_height s = length bs - 1"
proof -
  have inv: "chain_inv c s" using assms(1) by (simp add: holds_chain_def)
  have "(\<exists>h. hm_get (blocks_by_height s) n = Some h) \<longleftrightarrow> n < length bs" for n
  proof
    assume "\<exists>h. hm_get (blocks_by_height s) n = Some h"
    then obtain h where h: "hm_get (blocks_by_height s) n = Some h" by blast
    then obtain b where "get_block_by_height s n = Some b"
      by (rule chain_inv_height [OF inv]) (use h in \<open>simp add: get_block_by_height_def get_block_by_hash_def\<close>)
    then show "n < length bs" using assms(1) by (simp add: holds_chain_def split: if_splits)
  next
    assume "n < length bs"
    from holds_get [OF assms(1) this] show "\<exists>h. hm_get (blocks_by_height s) n = Some h"
      by (simp add: get_block_by_height_def split: option.splits)
  qed
  then have dom: "dom (hm_get (blocks_by_height s)) = {..<length bs}" by (auto simp: dom_def)
  then have "blocks_by_height s \<noteq> []" using assms(2) by (auto simp: dom_def)
  with tip_height_Max [of s] chain_inv_ok [OF inv] dom have "tip_height s = Max {..<length bs}" by simp
  also have "\<dots> = length bs - 1" using assms(2) by (intro Max_eqI) (auto simp: Suc_le_eq)
  finally show ?thesis .
qed

lemma holds_tip_hash: "holds_chain c bs s \<Longrightarrow> bs \<noteq> [] \<Longrightarrow> tip_hash c s = block_hash_of c (last bs)"
  by (simp add: tip_hash_def holds_tip holds_get last_conv_nth)

lemma chain_of_holds:
  assumes "inj_on (block_hash_of c) (set bs)" and "\<forall>i < length bs. height (header (bs ! i)) = i"
  shows "holds_chain c bs (chain_of c bs)"
  using assms
proof (induction bs rule: rev_induct)
  case Nil
  show ?case by (simp add: chain_of_def holds_empty)
next
  case (snoc b bs)
  have "height (header (bs ! i)) = i" if "i < length bs" for i
    using snoc.prems(2) [rule_format, of i] that by (simp add: nth_append)
  moreover have "inj_on (block_hash_of c) (set bs)"
    by (rule inj_on_subset [OF snoc.prems(1)]) auto
  ultimately have "holds_chain c bs (chain_of c bs)" using snoc.IH by blast
  then show ?case
    unfolding chain_of_snoc
    by (rule holds_insert [OF _ chain_of_fresh [OF snoc.prems(1)]])
      (use snoc.prems(2) [rule_format, of "length bs"] in simp)
qed

lemma fold_remove_all: "hm_ok m \<Longrightarrow> set ks = fst ` set m \<Longrightarrow> fold hm_remove ks m = []"
proof -
  assume "hm_ok m" and ks: "set ks = fst ` set m"
  then have "hm_get (fold hm_remove ks m) = Map.empty"
    by (intro ext) (auto simp: fold_hm_remove_get map_of_eq_None_iff)
  then show ?thesis by (simp only: map_of_eq_empty_iff)
qed

lemma replay_block:
  assumes inv: "chain_inv c s" and get: "get_block_by_height s n = Some b" and n: "height (header b) = n"
  shows "insert_block c b (s\<lparr> packages := p \<rparr>) = s\<lparr> packages := index_block c b p \<rparr>"
proof -
  have by_hash: "hm_get (blocks_by_hash s) h = Some b" and by_height: "hm_get (blocks_by_height s) n = Some h"
    if "h = block_hash_of c b" for h
    using get that chain_inv_hash [OF inv]
    by (auto simp: get_block_by_height_def get_block_by_hash_def split: option.splits)
  show ?thesis
    by (simp add: insert_block_def Let_def update_same [OF by_hash [OF refl]]
        update_same [OF by_height [OF refl]] n)
qed

text \<open>The index that a list of blocks leaves.\<close>

definition index_of :: "env \<Rightarrow> block list \<Rightarrow> (string, chain_record) hash_map" where
  "index_of c bs = foldl (\<lambda>p b. index_block c b p) [] bs"

lemma index_of_snoc: "index_of c (bs @ [b]) = index_block c b (index_of c bs)"
  by (simp add: index_of_def)

lemma packages_chain_of: "packages (chain_of c bs) = index_of c bs"
  by (induction bs rule: rev_induct)
    (simp_all add: chain_of_snoc index_of_snoc, simp add: chain_of_def empty_chain_def index_of_def)

lemma rebuild_holds:
  assumes holds: "holds_chain c bs s" and "bs \<noteq> []"
  shows "rebuild_package_index c s = s\<lparr> packages := index_of c bs \<rparr>"
proof -
  let ?f = "\<lambda>s h. case get_block_by_height s h of Some b \<Rightarrow> insert_block c b s | None \<Rightarrow> s"
  have inv: "chain_inv c s" and h: "\<forall>i < length bs. height (header (bs ! i)) = i"
    using holds by (simp_all add: holds_chain_def)
  have get: "get_block_by_height (s\<lparr> packages := p \<rparr>) n = get_block_by_height s n" for p n
    by (simp add: get_block_by_height_def get_block_by_hash_def cong: option.case_cong)
  have loop: "foldl ?f (s\<lparr> packages := [] \<rparr>) [0..<k] = s\<lparr> packages := index_of c (take k bs) \<rparr>"
    if "k \<le> length bs" for k
    using that
  proof (induction k)
    case 0
    show ?case by (simp add: index_of_def)
  next
    case (Suc k)
    then have "foldl ?f (s\<lparr> packages := [] \<rparr>) [0..<Suc k] =
        insert_block c (bs ! k) (s\<lparr> packages := index_of c (take k bs) \<rparr>)"
      by (simp add: get holds_get [OF holds])
    also have "\<dots> = s\<lparr> packages := index_block c (bs ! k) (index_of c (take k bs)) \<rparr>"
      using Suc.prems h by (intro replay_block [OF inv holds_get [OF holds]]) auto
    finally show ?case using Suc.prems by (simp add: take_Suc_conv_app_nth index_of_snoc)
  qed
  have cleared: "fold hm_remove (map fst (in_key_order (packages s))) (packages s) = []"
    using chain_inv_ok [OF inv] by (intro fold_remove_all) simp_all
  have "tip_height (s\<lparr> packages := [] \<rparr>) = tip_height s" by (simp add: tip_height_def)
  also have "\<dots> = length bs - 1" by (rule holds_tip [OF assms])
  finally have "tip_height (s\<lparr> packages := [] \<rparr>) + 1 = length bs" using assms(2) by simp
  then show ?thesis
    using loop [of "length bs"] by (simp add: rebuild_package_index_def Let_def cleared del: upt_Suc)
qed



section \<open>The latest version\<close>

lemma with_prefix_set:
  "(k, r) \<in> set (with_prefix p m) \<longleftrightarrow> (k, r) \<in> set m \<and> starts_with k p"
  by (simp add: with_prefix_def)

definition latest_step ::
    "(string \<Rightarrow> 'v option) \<Rightarrow> ('v \<Rightarrow> 'v \<Rightarrow> bool) \<Rightarrow> chain_record option \<Rightarrow> chain_record \<Rightarrow> chain_record option" where
  "latest_step parse newer latest r =
     (if status r = Verified then
        (case latest of
           None \<Rightarrow> Some r
         | Some current \<Rightarrow> if is_newer parse newer r current then Some r else latest)
      else latest)"

lemma get_latest_version_fold:
  "get_latest_version parse newer eco nm s =
     foldl (latest_step parse newer) None (map snd (with_prefix (eco @ '':'' @ nm) (packages s)))"
  unfolding get_latest_version_def foldl_map
  by (rule foldl_cong) (auto simp: latest_step_def split_def)

lemma latest_fold_sound:
  assumes "\<And>r. rank r = (rk (the (parse (version (rec_id r)))) :: 'a::linorder)"
    and "\<And>a b. newer a b = (rk b < rk a)"
    and "\<forall>r \<in> set rs. parse (version (rec_id r)) \<noteq> None"
    and "\<forall>cur. acc = Some cur \<longrightarrow> parse (version (rec_id cur)) \<noteq> None \<and> status cur = Verified"
  shows "case foldl (latest_step parse newer) acc rs of
      None \<Rightarrow> acc = None \<and> (\<forall>r \<in> set rs. status r \<noteq> Verified)
    | Some best \<Rightarrow> (best \<in> set rs \<or> acc = Some best) \<and> status best = Verified \<and>
        (\<forall>r \<in> set rs. status r = Verified \<longrightarrow> rank r \<le> rank best) \<and>
        (\<forall>cur. acc = Some cur \<longrightarrow> rank cur \<le> rank best)"
  using assms(3,4)
proof (induction rs arbitrary: acc)
  case Nil
  then show ?case by (auto split: option.split)
next
  case (Cons r rs)
  let ?acc = "latest_step parse newer acc r"
  have acc: "\<forall>cur. ?acc = Some cur \<longrightarrow> parse (version (rec_id cur)) \<noteq> None \<and> status cur = Verified"
    using Cons.prems by (auto simp: latest_step_def split: option.splits if_splits)
  have step: "(?acc = None \<longleftrightarrow> acc = None \<and> status r \<noteq> Verified) \<and>
      (\<forall>x. ?acc = Some x \<longrightarrow> (x = r \<or> acc = Some x) \<and> (status r = Verified \<longrightarrow> rank r \<le> rank x) \<and>
         (\<forall>cur. acc = Some cur \<longrightarrow> rank cur \<le> rank x))"
    using Cons.prems
    by (auto simp: latest_step_def is_newer_def assms(1,2) not_less split: option.splits if_splits)
  have "\<forall>r \<in> set rs. parse (version (rec_id r)) \<noteq> None" using Cons.prems(1) by simp
  from Cons.IH [OF this acc] step show ?case
    by (cases "foldl (latest_step parse newer) ?acc rs"; cases ?acc) (auto intro: order_trans)
qed

text \<open>
  The latest version is the greatest: where every version parses and comparing versions is
  a strict order, the record returned is a verified record of the index whose name starts with
  the name asked for, and no such record has a greater version; nothing is returned exactly
  when there is none.
\<close>

lemma latest_version_sound:
  assumes "\<And>a b. newer a b = (rk b < (rk a :: 'a::linorder))"
    and "\<forall>(k, r) \<in> set (packages s). parse (version (rec_id r)) \<noteq> None"
  shows "case get_latest_version parse newer eco nm s of
      None \<Rightarrow> \<forall>(k, r) \<in> set (packages s). starts_with k (eco @ '':'' @ nm) \<longrightarrow> status r \<noteq> Verified
    | Some best \<Rightarrow> (\<exists>k. (k, best) \<in> set (packages s) \<and> starts_with k (eco @ '':'' @ nm)) \<and> status best = Verified \<and>
        (\<forall>(k, r) \<in> set (packages s). starts_with k (eco @ '':'' @ nm) \<and> status r = Verified \<longrightarrow>
           rk (the (parse (version (rec_id r)))) \<le> rk (the (parse (version (rec_id best)))))"
proof -
  define rs where "rs = map snd (with_prefix (eco @ '':'' @ nm) (packages s))"
  have mem: "r \<in> set rs \<longleftrightarrow> (\<exists>k. (k, r) \<in> set (packages s) \<and> starts_with k (eco @ '':'' @ nm))" for r
    by (force simp: rs_def with_prefix_def)
  have "\<forall>r \<in> set rs. parse (version (rec_id r)) \<noteq> None"
    using assms(2) by (auto simp: mem)
  from latest_fold_sound [where rank = "\<lambda>r. rk (the (parse (version (rec_id r))))" and acc = None, OF refl assms(1) this]
  show ?thesis
    unfolding get_latest_version_fold rs_def [symmetric]
    by (cases "foldl (latest_step parse newer) None rs") (auto simp: mem)
qed

definition demo_record :: "string \<Rightarrow> string \<Rightarrow> chain_record" where
  "demo_record nm ver = \<lparr> rec_id = \<lparr> ecosystem = ''npm'', pkg_name = nm, version = ver \<rparr>, content_hash = ''h'',
     ipfs_cid = [], publisher_pubkey = ''k'', block_hash = [], published_at = 0, validator_signatures = [],
     status = Verified, shielded = False, key_bundle = None, pgp_fingerprint = None, findings = [],
     analysis_bundles = default_analysis_bundle_refs, evidence_digest = [],
     deterministic_risk = default_risk_summary, access_count = 0, last_accessed = None, threshold = 1,
     publisher_pubkeys = [], manifest = None \<rparr>"

definition demo_index :: chain_store where
  "demo_index = empty_chain\<lparr> packages := [(''npm:react-dom@2'', demo_record ''react-dom'' ''2''),
     (''npm:react@1'', demo_record ''react'' ''1'')] \<rparr>"

lemma latest_version_sound_witness:
  "\<exists>best. get_latest_version (\<lambda>v. Some (length v)) (\<lambda>a b. b < a) ''npm'' ''react'' demo_index = Some best \<and>
     status best = Verified"
proof -
  have "get_latest_version (\<lambda>v. Some (length v)) (\<lambda>a b. b < a) ''npm'' ''react'' demo_index \<noteq> None"
  proof
    assume none: "get_latest_version (\<lambda>v. Some (length v)) (\<lambda>a b. b < a) ''npm'' ''react'' demo_index = None"
    have "\<forall>(k, r) \<in> set (packages demo_index). starts_with k (''npm'' @ '':'' @ ''react'') \<longrightarrow> status r \<noteq> Verified"
      using latest_version_sound [of "\<lambda>a b. b < a" id demo_index "\<lambda>v. Some (length v)" "''npm''" "''react''"]
      unfolding none by simp
    then show False by (simp add: demo_index_def demo_record_def starts_with_def)
  qed
  then show ?thesis
    using latest_version_sound [of "\<lambda>a b. b < a" id demo_index "\<lambda>v. Some (length v)" "''npm''" "''react''"]
    by (auto split: option.splits)
qed

section \<open>Where the index loses information\<close>

text \<open>
  The latest version of a package can be another package: the search goes by the prefix of
  the name, so with a verified record whose name merely begins with the name asked for as the
  only entry, that record is returned.
\<close>

lemma latest_version_other_package:
  assumes "packages s = [(canonical (rec_id r), r)]" and "status r = Verified"
    and "ecosystem (rec_id r) = eco" and "pkg_name (rec_id r) = nm @ suffix"
  shows "get_latest_version parse newer eco nm s = Some r"
  using assms
  by (simp add: get_latest_version_def with_prefix_def in_key_order_def canonical_def starts_with_iff)

lemma latest_version_other_package_witness:
  "get_latest_version (\<lambda>v. Some (length v)) (\<lambda>a b. b < a) ''npm'' ''react''
     (empty_chain\<lparr> packages := [(canonical (rec_id (demo_record ''react-dom'' ''2'')), demo_record ''react-dom'' ''2'')] \<rparr>)
   = Some (demo_record ''react-dom'' ''2'')"
  by (rule latest_version_other_package [where suffix = "''-dom''"]) (simp_all add: demo_record_def)

text \<open>
  A revocation in the block that publishes the package is lost: the index is read as it
  was before the block, so a package that was not indexed yet stays verified.
\<close>

lemma revoke_in_same_block_lost:
  assumes "transactions b = [Publish r, Revoke (canonical (rec_id r)) reason by_whom ev]"
    and "get_package s (canonical (rec_id r)) = None"
  shows "get_package (insert_block c b s) (canonical (rec_id r)) = Some (r\<lparr> block_hash := block_hash_of c b \<rparr>)"
  using assms
  by (simp add: get_package_def index_block_def apply_puts_def update_conv' Let_def)

lemma revoke_in_same_block_lost_witness:
  "get_package (insert_block demo_env (demo_proposal\<lparr> transactions :=
       [Publish (demo_record ''x'' ''1''), Revoke (canonical (rec_id (demo_record ''x'' ''1''))) ''bad'' ''v'' ''e''] \<rparr>) empty_chain)
     (canonical (rec_id (demo_record ''x'' ''1'')))
   = Some ((demo_record ''x'' ''1'')\<lparr> block_hash := block_hash_of demo_env (demo_proposal\<lparr> transactions :=
       [Publish (demo_record ''x'' ''1''), Revoke (canonical (rec_id (demo_record ''x'' ''1''))) ''bad'' ''v'' ''e''] \<rparr>) \<rparr>)"
  by (rule revoke_in_same_block_lost) (simp_all add: get_package_def empty_chain_def)

text \<open>
  Inserting an old block again undoes a revocation: publishing overwrites the entry, so the
  package is back to the status of the published record whatever the index said.
\<close>

lemma reinsert_unrevokes:
  assumes "transactions b = [Publish r]"
  shows "get_package (insert_block c b s) (canonical (rec_id r)) = Some (r\<lparr> block_hash := block_hash_of c b \<rparr>)"
  using assms by (simp add: get_package_def index_block_def apply_puts_def update_conv' Let_def)

lemma reinsert_unrevokes_witness:
  "get_package (insert_block demo_env (demo_proposal\<lparr> transactions := [Publish (demo_record ''x'' ''1'')] \<rparr>)
     (empty_chain\<lparr> packages := [(''npm:x@1'', (demo_record ''x'' ''1'')\<lparr> status := Revoked ''bad'' \<rparr>)] \<rparr>))
     (canonical (rec_id (demo_record ''x'' ''1'')))
   = Some ((demo_record ''x'' ''1'')\<lparr> block_hash := block_hash_of demo_env (demo_proposal\<lparr> transactions := [Publish (demo_record ''x'' ''1'')] \<rparr>) \<rparr>)"
  by (rule reinsert_unrevokes) simp

end
