(* ===== verification/Publisher_Index.thy ===== *)
theory Publisher_Index
  imports Chain_Store
begin

text \<open>
  The publisher statistics of \<^verbatim>\<open>crates/node/src/publisher_index.rs\<close>: an index in memory that
  is rebuilt from the chain at start and updated with every block. The counters keep their
  width; the clock that \<open>first_seen_days\<close> reads is an argument.

  The lemmas show that the number of packages of a publisher is the number of its Publish
  transactions as long as no key is rotated, that a rotation moves a publisher's history to
  the new key and drops what was known of that key, and that the stake is never anything
  but zero.
\<close>

section \<open>Definitions\<close>

record publisher_stats =
  ps_pubkey :: string
  total_packages :: u32
  verified_count :: u32
  revoked_count :: u32
  stake_wei :: u64
  first_seen_at :: "datetime option"
  first_seen_days :: u32

definition default_publisher_stats :: publisher_stats where
  "default_publisher_stats = \<lparr> ps_pubkey = [], total_packages = 0, verified_count = 0, revoked_count = 0,
     stake_wei = 0, first_seen_at = None, first_seen_days = 0 \<rparr>"

record publisher_index =
  pub_stats :: "(string, publisher_stats) hash_map"
  canonical_to_pubkey :: "(string, string) hash_map"

definition publisher_index_new :: publisher_index where
  "publisher_index_new = \<lparr> pub_stats = [], canonical_to_pubkey = [] \<rparr>"

text \<open>\<^verbatim>\<open>chrono::Duration::num_days\<close>: whole days, truncated towards zero.\<close>

definition num_days :: "int \<Rightarrow> int" where
  "num_days d = (let s = num_seconds d in if 0 \<le> s then s div 86400 else - ((- s) div 86400))"

definition days_since :: "datetime \<Rightarrow> datetime \<Rightarrow> u32" where
  "days_since now t = of_int (max (num_days (now - t)) 0)"

text \<open>What a Publish transaction does to the entry of its publisher.\<close>

definition count_publish :: "datetime \<Rightarrow> datetime \<Rightarrow> publisher_stats \<Rightarrow> publisher_stats" where
  "count_publish now ts e =
     (let e1 = e\<lparr> total_packages := total_packages e + 1, verified_count := verified_count e + 1 \<rparr>;
          e2 = (if first_seen_at e1 = None then e1\<lparr> first_seen_at := Some ts \<rparr> else e1)
      in e2\<lparr> first_seen_days := (case first_seen_at e2 of Some t \<Rightarrow> days_since now t | None \<Rightarrow> 0) \<rparr>)"

definition entry_or_default :: "string \<Rightarrow> publisher_index \<Rightarrow> publisher_stats" where
  "entry_or_default pubkey ix =
     (case hm_get (pub_stats ix) pubkey of
        Some e \<Rightarrow> e | None \<Rightarrow> default_publisher_stats\<lparr> ps_pubkey := pubkey \<rparr>)"

fun apply_tx :: "datetime \<Rightarrow> transaction \<Rightarrow> datetime \<Rightarrow> publisher_index \<Rightarrow> publisher_index" where
  "apply_tx now (Publish record) ts ix =
     (let pubkey = publisher_pubkey record in
      \<lparr> pub_stats = hm_insert pubkey (count_publish now ts (entry_or_default pubkey ix)) (pub_stats ix),
        canonical_to_pubkey = hm_insert (canonical (rec_id record)) pubkey (canonical_to_pubkey ix) \<rparr>)"
| "apply_tx now (Revoke can _ _ _) ts ix =
     (case hm_get (canonical_to_pubkey ix) can of
        None \<Rightarrow> ix
      | Some pubkey \<Rightarrow>
          ix\<lparr> pub_stats := hm_modify pubkey
                (\<lambda>e. e\<lparr> verified_count := saturating_sub (verified_count e) 1,
                       revoked_count := revoked_count e + 1 \<rparr>) (pub_stats ix) \<rparr>)"
| "apply_tx now (Slash validator_id amount _) ts ix =
     ix\<lparr> pub_stats := hm_modify validator_id (\<lambda>e. e\<lparr> stake_wei := saturating_sub (stake_wei e) amount \<rparr>)
           (pub_stats ix) \<rparr>"
| "apply_tx now (RotatePublisherKey prefix old_pubkey new_pubkey _ _ _ _) ts ix =
     (let keys_to_update = map fst (filter (\<lambda>(can, pubkey). starts_with can prefix \<and> pubkey = old_pubkey)
            (canonical_to_pubkey ix));
          ix1 = ix\<lparr> canonical_to_pubkey := fold (\<lambda>can. hm_insert can new_pubkey) keys_to_update (canonical_to_pubkey ix) \<rparr>
      in case hm_get (pub_stats ix1) old_pubkey of
           None \<Rightarrow> ix1
         | Some e \<Rightarrow> ix1\<lparr> pub_stats := hm_insert new_pubkey (e\<lparr> ps_pubkey := new_pubkey \<rparr>)
                              (hm_remove old_pubkey (pub_stats ix1)) \<rparr>)"
| "apply_tx now (ValidatorJoin _ _ _) ts ix = ix"
| "apply_tx now (ValidatorLeave _) ts ix = ix"

definition apply_block :: "datetime \<Rightarrow> block \<Rightarrow> publisher_index \<Rightarrow> publisher_index" where
  "apply_block now b ix = foldl (\<lambda>ix tx. apply_tx now tx (timestamp (header b)) ix) ix (transactions b)"

definition rebuild_from_chain :: "datetime \<Rightarrow> block list \<Rightarrow> publisher_index \<Rightarrow> publisher_index" where
  "rebuild_from_chain now bs ix =
     foldl (\<lambda>ix b. apply_block now b ix) (ix\<lparr> pub_stats := [], canonical_to_pubkey := [] \<rparr>) bs"

definition get_publisher :: "publisher_index \<Rightarrow> string \<Rightarrow> publisher_stats option" where
  "get_publisher ix pubkey = hm_get (pub_stats ix) pubkey"

definition publisher_count :: "publisher_index \<Rightarrow> nat" where
  "publisher_count ix = length (pub_stats ix)"

definition all_stats :: "publisher_index \<Rightarrow> publisher_stats list" where
  "all_stats ix = hm_values (pub_stats ix)"

section \<open>Rebuilding\<close>

lemma rebuild_fresh: "rebuild_from_chain now bs ix = rebuild_from_chain now bs publisher_index_new"
  by (cases ix) (simp add: rebuild_from_chain_def publisher_index_new_def)

lemma rebuild_snoc: "rebuild_from_chain now (bs @ [b]) ix = apply_block now b (rebuild_from_chain now bs ix)"
  by (simp add: rebuild_from_chain_def)

section \<open>Invariant\<close>

text \<open>Keys are unique, an entry carries its own key, and its stake is zero.\<close>

definition publisher_inv :: "publisher_index \<Rightarrow> bool" where
  "publisher_inv ix \<longleftrightarrow> hm_ok (pub_stats ix) \<and> hm_ok (canonical_to_pubkey ix) \<and>
     (\<forall>pk e. hm_get (pub_stats ix) pk = Some e \<longrightarrow> ps_pubkey e = pk \<and> stake_wei e = 0 \<and> first_seen_at e \<noteq> None)"

lemma fold_insert_ok: "hm_ok m \<Longrightarrow> hm_ok (fold (\<lambda>k. hm_insert k v) ks m)"
  by (induction ks arbitrary: m) auto

lemma map_entry_absent: "k \<notin> fst ` set m \<Longrightarrow> hm_modify k f m = m"
  by (induction m) auto

lemma get_modify: "hm_get (hm_modify k f m) j = (if j = k then map_option f (hm_get m j) else hm_get m j)"
  by (induction m) auto

lemma saturating_sub_zero [simp]: "saturating_sub 0 b = 0"
  by (simp add: saturating_sub_def word_gt_0)

lemma publisher_inv_apply_tx:
  assumes "publisher_inv ix"
  shows "publisher_inv (apply_tx now tx ts ix)"
  using assms
  by (cases "(now, tx, ts, ix)" rule: apply_tx.cases)
    (auto simp: publisher_inv_def Let_def count_publish_def entry_or_default_def default_publisher_stats_def
      update_conv' get_modify hm.lookup_drop fold_insert_ok split: option.splits if_splits)

lemma publisher_inv_fold: "publisher_inv ix \<Longrightarrow> publisher_inv (foldl (\<lambda>ix tx. apply_tx now tx ts ix) ix txs)"
  by (induction txs arbitrary: ix) (simp_all add: publisher_inv_apply_tx)

lemma publisher_inv_apply_block: "publisher_inv ix \<Longrightarrow> publisher_inv (apply_block now b ix)"
  by (simp add: apply_block_def publisher_inv_fold)

lemma publisher_inv_rebuild: "publisher_inv (rebuild_from_chain now bs ix)"
  by (induction bs rule: rev_induct)
    (simp_all add: rebuild_snoc publisher_inv_apply_block, simp add: rebuild_from_chain_def publisher_inv_def)

section \<open>The clock\<close>

text \<open>
  The days since the first submission depend on when they were computed. Without them, the
  index depends only on the transactions.
\<close>

definition forget_days :: "publisher_stats \<Rightarrow> publisher_stats" where
  "forget_days e = e\<lparr> first_seen_days := 0 \<rparr>"

definition clear_days :: "publisher_index \<Rightarrow> publisher_index" where
  "clear_days ix = ix\<lparr> pub_stats := map (map_prod id forget_days) (pub_stats ix) \<rparr>"

lemma get_map_values: "hm_get (map (map_prod id g) m) k = map_option g (hm_get m k)"
  by (induction m) auto

lemma insert_map_values: "map (map_prod id g) (hm_insert k v m) = hm_insert k (g v) (map (map_prod id g) m)"
  by (induction m) auto

lemma remove_map_values: "map (map_prod id g) (hm_remove k m) = hm_remove k (map (map_prod id g) m)"
  by (induction m) auto

lemma modify_map_values:
  "(\<And>v. g (f v) = f (g v)) \<Longrightarrow> map (map_prod id g) (hm_modify k f m) = hm_modify k f (map (map_prod id g) m)"
  by (induction m) auto

lemma forget_count_publish: "forget_days (count_publish now ts e) = forget_days (count_publish now' ts (forget_days e))"
  by (simp add: forget_days_def count_publish_def Let_def)

lemma forget_entry: "entry_or_default pk (clear_days ix) = forget_days (entry_or_default pk ix)"
  by (simp add: entry_or_default_def clear_days_def get_map_values forget_days_def default_publisher_stats_def
      split: option.split)

lemma clear_days_fields [simp]:
  "pub_stats (clear_days ix) = map (map_prod id forget_days) (pub_stats ix)"
  "canonical_to_pubkey (clear_days ix) = canonical_to_pubkey ix"
  by (simp_all add: clear_days_def)

lemma forget_days_idem [simp]: "forget_days (forget_days e) = forget_days e"
  by (simp add: forget_days_def)

lemma clear_days_eq_iff:
  "clear_days ix = clear_days iy \<longleftrightarrow>
     map (map_prod id forget_days) (pub_stats ix) = map (map_prod id forget_days) (pub_stats iy) \<and>
     canonical_to_pubkey ix = canonical_to_pubkey iy"
  by (cases ix; cases iy) (simp add: clear_days_def)

lemma forget_twice [simp]: "map_prod id forget_days \<circ> map_prod id forget_days = map_prod id forget_days"
  by (auto simp: fun_eq_iff)

lemma clear_days_apply_tx: "clear_days (apply_tx now tx ts ix) = clear_days (apply_tx now' tx ts (clear_days ix))"
proof (cases "(now, tx, ts, ix)" rule: apply_tx.cases)
  case (1 _ r _ _)
  let ?e = "entry_or_default (publisher_pubkey r) ix"
  have "forget_days (count_publish now ts ?e) = forget_days (count_publish now' ts (forget_days ?e))"
    by (rule forget_count_publish)
  with 1 show ?thesis
    by (simp only: prod.inject) (simp add: clear_days_eq_iff Let_def forget_entry insert_map_values)
next
  case (2 _ can x y z _ _)
  then show ?thesis
    by (auto simp: clear_days_eq_iff modify_map_values forget_days_def split: option.split)
next
  case (3 _ v amount x _ _)
  then show ?thesis by (auto simp: clear_days_eq_iff modify_map_values forget_days_def)
next
  case (4 _ prefix old new a b d n _ _)
  then show ?thesis
    by (auto simp: clear_days_eq_iff Let_def get_map_values insert_map_values remove_map_values forget_days_def split: option.split)
qed (auto simp: clear_days_eq_iff)

lemma clear_days_cong:
  assumes "clear_days ix = clear_days iy"
  shows "clear_days (apply_block now b ix) = clear_days (apply_block now' b iy)"
proof -
  have "clear_days (foldl (\<lambda>ix tx. apply_tx now tx ts ix) ix txs) =
      clear_days (foldl (\<lambda>ix tx. apply_tx now' tx ts ix) iy txs)" for ts txs
    using assms
  proof (induction txs arbitrary: ix iy)
    case (Cons tx txs)
    have "clear_days (apply_tx now tx ts ix) = clear_days (apply_tx now' tx ts iy)"
      using clear_days_apply_tx [of now tx ts ix now'] clear_days_apply_tx [of now' tx ts iy now'] Cons.prems by simp
    with Cons.IH show ?case by simp
  qed simp
  then show ?thesis by (simp add: apply_block_def)
qed

lemma clear_days_rebuild:
  "clear_days (rebuild_from_chain now bs publisher_index_new) = clear_days (rebuild_from_chain now' bs publisher_index_new)"
  by (induction bs rule: rev_induct)
    (simp_all add: rebuild_snoc clear_days_cong, simp add: rebuild_from_chain_def)

section \<open>Counting packages\<close>

fun published_by :: "string \<Rightarrow> transaction \<Rightarrow> bool" where
  "published_by pk (Publish record) = (publisher_pubkey record = pk)"
| "published_by pk _ = False"

fun is_rotation :: "transaction \<Rightarrow> bool" where
  "is_rotation (RotatePublisherKey _ _ _ _ _ _ _) = True"
| "is_rotation _ = False"

definition total_of :: "publisher_index \<Rightarrow> string \<Rightarrow> u32" where
  "total_of ix pk = (case get_publisher ix pk of None \<Rightarrow> 0 | Some e \<Rightarrow> total_packages e)"

lemma total_apply_tx:
  assumes "\<not> is_rotation tx"
  shows "total_of (apply_tx now tx ts ix) pk = total_of ix pk + (if published_by pk tx then 1 else 0)"
  using assms
  by (cases "(now, tx, ts, ix)" rule: apply_tx.cases)
    (auto simp: total_of_def get_publisher_def Let_def count_publish_def entry_or_default_def
      default_publisher_stats_def update_conv' get_modify split: option.splits)

lemma total_fold:
  assumes "\<forall>tx \<in> set txs. \<not> is_rotation tx"
  shows "total_of (foldl (\<lambda>ix tx. apply_tx now tx ts ix) ix txs) pk =
    total_of ix pk + of_nat (count_where (published_by pk) txs)"
  using assms by (induction txs arbitrary: ix) (auto simp: total_apply_tx)

lemma total_rebuild:
  assumes "\<forall>b \<in> set bs. \<forall>tx \<in> set (transactions b). \<not> is_rotation tx"
  shows "total_of (rebuild_from_chain now bs ix) pk =
    of_nat (count_where (published_by pk) (concat (map transactions bs)))"
  using assms
proof (induction bs rule: rev_induct)
  case Nil
  show ?case by (simp add: rebuild_from_chain_def total_of_def get_publisher_def)
next
  case (snoc b bs)
  then show ?case by (simp add: rebuild_snoc apply_block_def total_fold)
qed

text \<open>
  The publisher index counts what the chain holds: on a chain without key rotations, with
  fewer than \<open>2 ^ 32\<close> transactions, the number of packages the rebuilt index shows for a
  publisher is the number of Publish transactions with that publisher's key, and every entry
  carries its own key, a time of first submission and no stake.
\<close>

lemma publisher_index_counts:
  assumes "\<forall>b \<in> set bs. \<forall>tx \<in> set (transactions b). \<not> is_rotation tx"
    and "length (concat (map transactions bs)) < 2 ^ 32"
  shows "unat (total_of (rebuild_from_chain now bs ix) pk) =
      count_where (published_by pk) (concat (map transactions bs)) \<and>
    publisher_inv (rebuild_from_chain now bs ix)"
proof -
  have "count_where (published_by pk) (concat (map transactions bs)) < 2 ^ 32"
    using count_where_le le_less_trans assms(2) by blast
  then show ?thesis
    by (simp add: total_rebuild [OF assms(1)] unat_of_nat publisher_inv_rebuild)
qed

definition demo_published :: block where
  "demo_published = demo_proposal\<lparr> transactions := [Publish (demo_record ''lib'' ''1'')] \<rparr>"

lemma publisher_index_counts_witness:
  "unat (total_of (rebuild_from_chain 0 [demo_published] publisher_index_new)
     (publisher_pubkey (demo_record ''lib'' ''1''))) = 1"
  using publisher_index_counts [of "[demo_published]" 0 publisher_index_new "publisher_pubkey (demo_record ''lib'' ''1'')"]
  by (simp add: demo_published_def)

section \<open>Rotations\<close>

text \<open>
  A rotation hands the old key's statistics to the new key. What the index knew of the new key
  before is dropped, and the old key has no entry any more, also where some of its packages
  do not have the prefix that was rotated.
\<close>

lemma rotation_replaces_stats:
  assumes "publisher_inv ix" and "old_pubkey \<noteq> new_pubkey" and "get_publisher ix old_pubkey = Some e"
  shows "get_publisher (apply_tx now (RotatePublisherKey prefix old_pubkey new_pubkey a b d n) ts ix) new_pubkey =
      Some (e\<lparr> ps_pubkey := new_pubkey \<rparr>) \<and>
    get_publisher (apply_tx now (RotatePublisherKey prefix old_pubkey new_pubkey a b d n) ts ix) old_pubkey = None"
  using assms
  by (auto simp: get_publisher_def Let_def update_conv' publisher_inv_def hm.lookup_drop)

text \<open>
  A later revocation of a package of the old key outside the prefix is counted for nobody.
\<close>

lemma revocation_after_rotation_lost:
  assumes "publisher_inv ix" and "old_pubkey \<noteq> new_pubkey" and "get_publisher ix old_pubkey = Some e"
    and "hm_get (canonical_to_pubkey ix) can = Some old_pubkey" and "\<not> starts_with can prefix"
  shows "pub_stats (apply_tx now (Revoke can r x y) ts'
      (apply_tx now (RotatePublisherKey prefix old_pubkey new_pubkey a b d n) ts ix)) =
    pub_stats (apply_tx now (RotatePublisherKey prefix old_pubkey new_pubkey a b d n) ts ix)"
proof -
  let ?ix = "apply_tx now (RotatePublisherKey prefix old_pubkey new_pubkey a b d n) ts ix"
  have other: "hm_get (fold (\<lambda>k. hm_insert k v) ks m) j = hm_get m j" if "j \<notin> set ks"
    for v :: string and ks m and j :: string
    using that by (induction ks arbitrary: m) (auto simp: update_conv')
  have "hm_get (canonical_to_pubkey ?ix) can = Some old_pubkey"
    using assms(3-5) by (simp add: get_publisher_def Let_def) (subst other; force)
  moreover have "hm_get (pub_stats ?ix) old_pubkey = None"
    using rotation_replaces_stats [OF assms(1-3)] by (simp add: get_publisher_def del: apply_tx.simps)
  then have "hm_modify old_pubkey f (pub_stats ?ix) = pub_stats ?ix" for f
    by (simp add: map_of_eq_None_iff map_entry_absent del: apply_tx.simps)
  ultimately show ?thesis by (simp del: apply_tx.simps(4))
qed

end
