(* ===== verification/Vote_Accumulator.thy ===== *)
theory Vote_Accumulator
  imports Concrete
begin

text \<open>
  The per-package vote rounds of \<^verbatim>\<open>crates/consensus/src/vote_accumulator.rs\<close>: a round collects
  signed PREPARE and COMMIT votes by validator id, ignores votes without consensus-grade
  metadata when it counts, and decides when the approvals reach the quorum or can no longer
  reach it. \<^verbatim>\<open>usize\<close> values are naturals; the one subtraction that can pass below zero
  is written with the wrap-around of a release build.

  The invariant \<open>vote_state_inv\<close> (a stored vote is stored under its validator id and its
  signature verifies) is kept by every operation, so a verified outcome rests on a quorum of
  valid approvals.
\<close>

section \<open>Votes\<close>

record incoming_vote =
  iv_validator_id :: string
  iv_validator_pubkey :: string
  iv_content_hash :: string
  iv_approved :: bool
  iv_reject_reason :: "string option"
  iv_signature :: string
  received_at :: datetime
  iv_model_version :: "string option"
  iv_analysis_bundles :: analysis_bundle_refs
  iv_evidence_digest :: string

definition unwrap_or_default :: "string option \<Rightarrow> string" where
  "unwrap_or_default x = (case x of None \<Rightarrow> [] | Some s \<Rightarrow> s)"

definition is_consensus_grade :: "incoming_vote \<Rightarrow> bool" where
  "is_consensus_grade v =
     is_consensus_grade_vote (unwrap_or_default (iv_model_version v)) (iv_analysis_bundles v)
       (iv_evidence_digest v)"

definition canonical_vote_message ::
    "string \<Rightarrow> string \<Rightarrow> bool \<Rightarrow> string \<Rightarrow> string \<Rightarrow> string \<Rightarrow> string" where
  "canonical_vote_message can hash approved pubkey profile_digest ev_digest =
     ''creg-vote-v2'' @ ''|'' @ can @ ''|'' @ hash @ ''|'' @ show_bool approved @ ''|'' @ pubkey
       @ ''|'' @ profile_digest @ ''|'' @ ev_digest"

datatype malformed_signature =
    SignatureHex | SignatureFormat | PubkeyHex | PubkeyLength nat | PubkeyFormat

datatype signature_verification = SigValid | SigInvalid | SigMalformed malformed_signature

datatype vote_phase =
    Collecting | PrepareQuorumReached | CommitQuorumReached | VoteFinalised | VoteFailed string
  | TimedOut

record package_vote_state =
  pv_canonical :: string
  started_at :: datetime
  vote_phase :: vote_phase
  prepare_votes :: "(string, incoming_vote) hash_map"
  commit_votes :: "(string, incoming_vote) hash_map"
  assigned_count :: nat

datatype commit_outcome = OutcomeVerified "validator_signature list" | OutcomeRejected string

datatype vote_error =
    InvalidVoteSignature
  | MalformedVoteSignature malformed_signature
  | NoVoteRound string
  | UnknownVotePhase string

definition vote_state_new :: "datetime \<Rightarrow> string \<Rightarrow> nat \<Rightarrow> package_vote_state" where
  "vote_state_new now can assigned =
     \<lparr> pv_canonical = can, started_at = now, vote_phase = Collecting, prepare_votes = [],
       commit_votes = [], assigned_count = assigned \<rparr>"

definition vote_quorum :: "package_vote_state \<Rightarrow> nat" where
  "vote_quorum s = 2 * assigned_count s div 3 + 1"

definition verify_signature ::
    "'a crypto_scheme \<Rightarrow> package_vote_state \<Rightarrow> incoming_vote \<Rightarrow> signature_verification" where
  "verify_signature c s v =
     (case hex_decode c (iv_signature v) of
        None \<Rightarrow> SigMalformed SignatureHex
      | Some sg \<Rightarrow>
          if \<not> sig_try_from c sg then SigMalformed SignatureFormat
          else case hex_decode c (trim_start_0x (iv_validator_pubkey v)) of
                 None \<Rightarrow> SigMalformed PubkeyHex
               | Some pk \<Rightarrow>
                   if length pk \<noteq> 32 then SigMalformed (PubkeyLength (length pk))
                   else if \<not> vk_try_from c pk then SigMalformed PubkeyFormat
                   else if ed_verify c pk
                       (canonical_vote_message (pv_canonical s) (iv_content_hash v) (iv_approved v)
                          (iv_validator_pubkey v)
                          (scanner_profile_digest c (unwrap_or_default (iv_model_version v))
                             (iv_analysis_bundles v))
                          (iv_evidence_digest v)) sg
                   then SigValid else SigInvalid)"

text \<open>The check both kinds of votes start with.\<close>

definition check_vote ::
    "'a crypto_scheme \<Rightarrow> package_vote_state \<Rightarrow> incoming_vote \<Rightarrow> bool \<Rightarrow> vote_error + unit" where
  "check_vote c s v skip =
     (if skip then Inr ()
      else case verify_signature c s v of
             SigValid \<Rightarrow> Inr ()
           | SigInvalid \<Rightarrow> Inl InvalidVoteSignature
           | SigMalformed reason \<Rightarrow> Inl (MalformedVoteSignature reason))"

definition record_prepare ::
    "'a crypto_scheme \<Rightarrow> incoming_vote \<Rightarrow> bool \<Rightarrow> package_vote_state \<Rightarrow> (vote_error + bool) \<times> package_vote_state"
  where
  "record_prepare c v skip s =
     (case check_vote c s v skip of
        Inl e \<Rightarrow> (Inl e, s)
      | Inr _ \<Rightarrow>
          let s' = s\<lparr> prepare_votes := hm_insert (iv_validator_id v) v (prepare_votes s) \<rparr>;
              effective_count = count_where is_consensus_grade (hm_values (prepare_votes s'))
          in if vote_quorum s' \<le> effective_count \<and> vote_phase s' = Collecting
             then (Inr True, s'\<lparr> vote_phase := PrepareQuorumReached \<rparr>)
             else (Inr False, s'))"

definition validator_signature_of :: "incoming_vote \<Rightarrow> validator_signature" where
  "validator_signature_of v =
     \<lparr> vs_validator_id = iv_validator_id v, vs_validator_pubkey = iv_validator_pubkey v,
       vs_signature = iv_signature v,
       vote = (if iv_approved v then Approve else Reject (unwrap_or_default (iv_reject_reason v))),
       signed_at = received_at v, vs_model_version = unwrap_or_default (iv_model_version v),
       vs_analysis_bundles = iv_analysis_bundles v, vs_evidence_digest = iv_evidence_digest v,
       vs_deterministic_risk = default_risk_summary \<rparr>"

definition build_validator_sigs :: "bool \<Rightarrow> package_vote_state \<Rightarrow> validator_signature list" where
  "build_validator_sigs approvers_only s =
     map validator_signature_of
       (filter (\<lambda>v. \<not> approvers_only \<or> iv_approved v) (hm_values (commit_votes s)))"

definition non_degraded :: "package_vote_state \<Rightarrow> incoming_vote list" where
  "non_degraded s = filter is_consensus_grade (hm_values (commit_votes s))"

definition approvals :: "package_vote_state \<Rightarrow> nat" where
  "approvals s = count_where iv_approved (non_degraded s)"

definition rejections :: "package_vote_state \<Rightarrow> nat" where
  "rejections s = count_where (\<lambda>v. \<not> iv_approved v) (non_degraded s)"

text \<open>\<^verbatim>\<open>usize\<close> subtraction of a release build.\<close>

definition usize_sub :: "nat \<Rightarrow> nat \<Rightarrow> nat" where
  "usize_sub a b = (if b \<le> a then a - b else a + 2 ^ 64 - b)"

definition primary_reason :: "package_vote_state \<Rightarrow> string" where
  "primary_reason s =
     (case List.map_filter iv_reject_reason (filter (\<lambda>v. \<not> iv_approved v) (hm_values (commit_votes s))) of
        [] \<Rightarrow> ''Consensus rejected''
      | r # _ \<Rightarrow> r)"

definition record_commit ::
    "'a crypto_scheme \<Rightarrow> incoming_vote \<Rightarrow> bool \<Rightarrow> package_vote_state \<Rightarrow>
       (vote_error + commit_outcome option) \<times> package_vote_state" where
  "record_commit c v skip s =
     (case check_vote c s v skip of
        Inl e \<Rightarrow> (Inl e, s)
      | Inr _ \<Rightarrow>
          let s' = s\<lparr> commit_votes := hm_insert (iv_validator_id v) v (commit_votes s) \<rparr>;
              q = vote_quorum s'
          in if q \<le> approvals s' then
               (Inr (Some (OutcomeVerified (build_validator_sigs True s'))),
                s'\<lparr> vote_phase := VoteFinalised \<rparr>)
             else if usize_sub (assigned_count s') (rejections s') < q then
               (Inr (Some (OutcomeRejected (primary_reason s'))),
                s'\<lparr> vote_phase := VoteFailed (primary_reason s') \<rparr>)
             else (Inr None, s'))"

definition is_timed_out :: "datetime \<Rightarrow> package_vote_state \<Rightarrow> bool" where
  "is_timed_out now s = (120 < num_seconds (now - started_at s))"

section \<open>The accumulator\<close>

record vote_accumulator =
  vote_rounds :: "(string, package_vote_state) hash_map"

definition accumulator_new :: vote_accumulator where
  "accumulator_new = \<lparr> vote_rounds = [] \<rparr>"

definition open_round :: "datetime \<Rightarrow> string \<Rightarrow> nat \<Rightarrow> vote_accumulator \<Rightarrow> vote_accumulator" where
  "open_round now can assigned a =
     a\<lparr> vote_rounds := hm_insert can (vote_state_new now can assigned) (vote_rounds a) \<rparr>"

text \<open>
  \<^verbatim>\<open>record_vote\<close> takes the fields of the vote one by one and stamps the time of receipt; here
  it takes the vote with that time in it.
\<close>

definition record_vote ::
    "'a crypto_scheme \<Rightarrow> string \<Rightarrow> string \<Rightarrow> incoming_vote \<Rightarrow> bool \<Rightarrow> vote_accumulator \<Rightarrow>
       (vote_error + commit_outcome option) \<times> vote_accumulator" where
  "record_vote c can ph v skip a =
     (case hm_get (vote_rounds a) can of
        None \<Rightarrow> (Inl (NoVoteRound can), a)
      | Some s \<Rightarrow>
          if ph = ''prepare'' then
            (case record_prepare c v skip s of
               (res, s') \<Rightarrow>
                 ((case res of Inl e \<Rightarrow> Inl e | Inr _ \<Rightarrow> Inr None),
                  a\<lparr> vote_rounds := hm_insert can s' (vote_rounds a) \<rparr>))
          else if ph = ''commit'' then
            (case record_commit c v skip s of
               (res, s') \<Rightarrow> (res, a\<lparr> vote_rounds := hm_insert can s' (vote_rounds a) \<rparr>))
          else (Inl (UnknownVotePhase ph), a))"

definition expirable :: "datetime \<Rightarrow> package_vote_state \<Rightarrow> bool" where
  "expirable now s = (is_timed_out now s \<and> (vote_phase s = Collecting \<or> vote_phase s = PrepareQuorumReached))"

definition expire_timed_out :: "datetime \<Rightarrow> vote_accumulator \<Rightarrow> string list \<times> vote_accumulator" where
  "expire_timed_out now a =
     (let timed_out = map fst (filter (\<lambda>(_, s). expirable now s) (vote_rounds a)) in
      (timed_out,
       a\<lparr> vote_rounds := fold (\<lambda>k. hm_modify k (\<lambda>s. s\<lparr> vote_phase := TimedOut \<rparr>)) timed_out (vote_rounds a) \<rparr>))"

definition accumulator_remove :: "string \<Rightarrow> vote_accumulator \<Rightarrow> vote_accumulator" where
  "accumulator_remove can a = a\<lparr> vote_rounds := hm_remove can (vote_rounds a) \<rparr>"

definition active_count :: "vote_accumulator \<Rightarrow> nat" where
  "active_count a = length (vote_rounds a)"

definition get_state :: "string \<Rightarrow> vote_accumulator \<Rightarrow> package_vote_state option" where
  "get_state can a = hm_get (vote_rounds a) can"

section \<open>The invariant of a vote round\<close>

interpretation vq: bft_quorum "\<lambda>n. 2 * n div 3 + 1"
  by unfold_locales simp_all

definition votes_valid :: "'a crypto_scheme \<Rightarrow> package_vote_state \<Rightarrow> (string, incoming_vote) hash_map \<Rightarrow> bool" where
  "votes_valid c s m \<longleftrightarrow> hm_ok m \<and>
     (\<forall>k v. hm_get m k = Some v \<longrightarrow> iv_validator_id v = k \<and> verify_signature c s v = SigValid)"

definition vote_state_inv :: "'a crypto_scheme \<Rightarrow> package_vote_state \<Rightarrow> bool" where
  "vote_state_inv c s \<longleftrightarrow> votes_valid c s (prepare_votes s) \<and> votes_valid c s (commit_votes s)"

datatype vote_event = Vote_Prepare incoming_vote | Vote_Commit incoming_vote

fun vote_step :: "'a crypto_scheme \<Rightarrow> package_vote_state \<Rightarrow> vote_event \<Rightarrow> package_vote_state" where
  "vote_step c s (Vote_Prepare v) = snd (record_prepare c v False s)"
| "vote_step c s (Vote_Commit v) = snd (record_commit c v False s)"

definition vote_run :: "'a crypto_scheme \<Rightarrow> datetime \<Rightarrow> string \<Rightarrow> nat \<Rightarrow> vote_event list \<Rightarrow> package_vote_state" where
  "vote_run c now can n evs = foldl (vote_step c) (vote_state_new now can n) evs"

lemma verify_signature_cong:
  "pv_canonical s' = pv_canonical s \<Longrightarrow> verify_signature c s' v = verify_signature c s v"
  by (simp only: verify_signature_def)

lemma check_vote_ok: "check_vote c s v False = Inr u \<longleftrightarrow> verify_signature c s v = SigValid"
  by (simp add: check_vote_def split: signature_verification.split)

lemma votes_valid_cong:
  "pv_canonical s' = pv_canonical s \<Longrightarrow> votes_valid c s' m = votes_valid c s m"
  by (simp add: votes_valid_def verify_signature_cong [of s' s])

lemma votes_valid_insert:
  "votes_valid c s m \<Longrightarrow> verify_signature c s v = SigValid \<Longrightarrow>
   votes_valid c s (hm_insert (iv_validator_id v) v m)"
  by (auto simp: votes_valid_def hm.valid_put hm.lookup_put)

lemma record_prepare_frame:
  assumes "record_prepare c v skip s = (res, s')"
  shows "pv_canonical s' = pv_canonical s" "commit_votes s' = commit_votes s"
    "assigned_count s' = assigned_count s" "started_at s' = started_at s"
    "prepare_votes s' = (if is_ok res then hm_insert (iv_validator_id v) v (prepare_votes s) else prepare_votes s)"
    "is_ok res = is_ok (check_vote c s v skip)"
  using assms by (auto simp: record_prepare_def Let_def split: sum.splits if_splits)

lemma record_commit_frame:
  assumes "record_commit c v skip s = (res, s')"
  shows "pv_canonical s' = pv_canonical s" "prepare_votes s' = prepare_votes s"
    "assigned_count s' = assigned_count s" "started_at s' = started_at s"
    "commit_votes s' = (if is_ok res then hm_insert (iv_validator_id v) v (commit_votes s) else commit_votes s)"
    "is_ok res = is_ok (check_vote c s v skip)"
  using assms by (auto simp: record_commit_def Let_def split: sum.splits if_splits)

lemma vote_state_inv_prepare:
  assumes "vote_state_inv c s" and "record_prepare c v False s = (res, s')"
  shows "vote_state_inv c s'"
  using assms(1) record_prepare_frame [OF assms(2)]
  by (auto simp: vote_state_inv_def votes_valid_cong [of s' s] is_ok_iff check_vote_ok
      intro: votes_valid_insert)

lemma vote_state_inv_commit:
  assumes "vote_state_inv c s" and "record_commit c v False s = (res, s')"
  shows "vote_state_inv c s'"
  using assms(1) record_commit_frame [OF assms(2)]
  by (auto simp: vote_state_inv_def votes_valid_cong [of s' s] is_ok_iff check_vote_ok
      intro: votes_valid_insert)

interpretation pv: invariant_system "vote_step c" "vote_state_inv c" for c
proof unfold_locales
  fix s ev assume "vote_state_inv c s"
  then show "vote_state_inv c (vote_step c s ev)"
    by (cases ev) (auto intro: vote_state_inv_prepare vote_state_inv_commit prod.collapse [symmetric])
qed

lemma vote_run_inv: "vote_state_inv c (vote_run c now can n evs)"
  unfolding vote_run_def
  by (rule pv.run_inv) (simp add: vote_state_inv_def votes_valid_def vote_state_new_def)

lemma vote_step_assigned: "assigned_count (vote_step c s ev) = assigned_count s"
  by (cases ev) (simp_all add: record_prepare_frame(3) [OF prod.collapse [symmetric]]
      record_commit_frame(3) [OF prod.collapse [symmetric]])

lemma vote_run_assigned [simp]: "assigned_count (vote_run c now can n evs) = n"
proof -
  have "assigned_count (foldl (vote_step c) s evs) = assigned_count s" for s
    by (induction evs arbitrary: s) (simp_all add: vote_step_assigned)
  then show ?thesis by (simp add: vote_run_def vote_state_new_def)
qed

section \<open>Counting\<close>

definition approvers :: "package_vote_state \<Rightarrow> string set" where
  "approvers s = {k. \<exists>v. hm_get (commit_votes s) k = Some v \<and> is_consensus_grade v \<and> iv_approved v}"

definition rejecters :: "package_vote_state \<Rightarrow> string set" where
  "rejecters s = {k. \<exists>v. hm_get (commit_votes s) k = Some v \<and> is_consensus_grade v \<and> \<not> iv_approved v}"

lemma count_where_filter: "count_where P (filter Q xs) = count_where (\<lambda>x. Q x \<and> P x) xs"
  by (simp add: count_where_def conj_commute)

lemma approvals_card: "hm_ok (commit_votes s) \<Longrightarrow> approvals s = card (approvers s)"
  by (simp add: approvals_def non_degraded_def count_where_filter hm.count_values approvers_def)

lemma rejections_card: "hm_ok (commit_votes s) \<Longrightarrow> rejections s = card (rejecters s)"
  by (simp add: rejections_def non_degraded_def count_where_filter hm.count_values rejecters_def)

lemma approvals_cong: "commit_votes s' = commit_votes s \<Longrightarrow> approvals s' = approvals s"
  by (simp add: approvals_def non_degraded_def)

lemma rejections_cong: "commit_votes s' = commit_votes s \<Longrightarrow> rejections s' = rejections s"
  by (simp add: rejections_def non_degraded_def)

lemma quorum_assigned: "assigned_count s' = assigned_count s \<Longrightarrow> vote_quorum s' = vote_quorum s"
  by (simp add: vote_quorum_def)

lemmas counting_cong = approvals_cong rejections_cong quorum_assigned

lemma record_commit_verified:
  assumes "record_commit c v skip s = (Inr (Some (OutcomeVerified sigs)), s')"
  shows "vote_phase s' = VoteFinalised" "vote_quorum s' \<le> approvals s'"
    "sigs = build_validator_sigs True s'"
  using assms
  by (auto simp: record_commit_def Let_def build_validator_sigs_def approvals_def non_degraded_def
      vote_quorum_def split: sum.splits if_splits)

lemma record_commit_rejected:
  assumes "record_commit c v skip s = (Inr (Some (OutcomeRejected reason)), s')"
  shows "vote_phase s' = VoteFailed reason" "approvals s' < vote_quorum s'"
    "usize_sub (assigned_count s') (rejections s') < vote_quorum s'"
  using assms
  by (auto simp: record_commit_def Let_def rejections_def approvals_def non_degraded_def
      vote_quorum_def split: sum.splits if_splits)

section \<open>Outcomes\<close>


definition accepting_env :: env where
  "accepting_env = demo_env\<lparr> ed_verify := (\<lambda>_ _ _. True) \<rparr>"

definition demo_bundles :: analysis_bundle_refs where
  "demo_bundles = \<lparr> policy_bundle_id = ''p'', feature_schema_id = ''f'', expert_bundle_id = ''e'',
     embedding_model_id = ''m'', index_epoch = ''i'', threshold_profile_id = ''t'',
     llm_prompt_profile_id = ''l'', osv_snapshot_epoch = ''o'' \<rparr>"

definition demo_incoming :: "string \<Rightarrow> bool \<Rightarrow> incoming_vote" where
  "demo_incoming i ok = \<lparr> iv_validator_id = i, iv_validator_pubkey = replicate 32 (CHR ''k''),
     iv_content_hash = ''h'', iv_approved = ok, iv_reject_reason = None, iv_signature = ''s'',
     received_at = 0, iv_model_version = Some ''v1'', iv_analysis_bundles = demo_bundles,
     iv_evidence_digest = ''d'' \<rparr>"

lemma demo_incoming_simps [simp]:
  "iv_validator_id (demo_incoming i ok) = i" "iv_approved (demo_incoming i ok) = ok"
  "iv_reject_reason (demo_incoming i ok) = None"
  by (simp_all add: demo_incoming_def)

lemma demo_incoming_valid [simp]: "verify_signature accepting_env s (demo_incoming i ok) = SigValid"
proof -
  have "trim_start_0x (replicate 32 (CHR ''k'')) = replicate 32 (CHR ''k'')"
    by (simp add: numeral_nat)
  then show ?thesis by (simp add: verify_signature_def accepting_env_def demo_incoming_def)
qed

lemma demo_incoming_grade [simp]: "is_consensus_grade (demo_incoming i ok)"
  by (simp add: is_consensus_grade_def demo_incoming_def demo_bundles_def is_consensus_grade_vote_def
      is_consensus_complete_def effective_osv_snapshot_epoch_def unwrap_or_default_def Let_def
      trim_plain plain_char_def starts_with_def)




lemma fold_modify_get:
  assumes "distinct ks"
  shows "hm_get (fold (\<lambda>k. hm_modify k f) ks m) j = map_option (if j \<in> set ks then f else id) (hm_get m j)"
  using assms
  by (induction ks arbitrary: m) (auto simp: hm_get_modify option.map_comp option.map_id)

text \<open>
  Expiry marks exactly the undecided rounds that are older than two minutes as timed out,
  reports their names and leaves every other round unchanged.
\<close>

lemma expire_timed_out_spec:
  assumes "hm_ok (vote_rounds a)"
  shows "get_state k (snd (expire_timed_out now a)) =
      map_option (\<lambda>s. if expirable now s then s\<lparr> vote_phase := TimedOut \<rparr> else s) (get_state k a) \<and>
    (k \<in> set (fst (expire_timed_out now a)) \<longleftrightarrow> (\<exists>s. get_state k a = Some s \<and> expirable now s))"
proof -
  let ?t = "map fst (filter (\<lambda>(_, s). expirable now s) (vote_rounds a))"
  have t: "distinct ?t" by (rule distinct_map_filter) (use assms in \<open>simp add: hm_ok_def\<close>)
  have mem: "k \<in> set ?t \<longleftrightarrow> (\<exists>s. get_state k a = Some s \<and> expirable now s)"
    by (force simp: get_state_def hm.entries_lookup [OF assms, symmetric])
  show ?thesis
    using mem by (cases "get_state k a")
      (simp_all add: expire_timed_out_def get_state_def Let_def fold_modify_get [OF t])
qed

lemma expire_timed_out_spec_witness:
  "''npm:x@1'' \<in> set (fst (expire_timed_out (121 * 1000000000) (open_round 0 ''npm:x@1'' 3 accumulator_new)))"
proof -
  have "hm_ok (vote_rounds (open_round 0 ''npm:x@1'' 3 accumulator_new))"
    by (simp add: open_round_def accumulator_new_def hm_ok_def)
  from expire_timed_out_spec [OF this, of "''npm:x@1''"] show ?thesis
    by (simp add: get_state_def open_round_def accumulator_new_def expirable_def is_timed_out_def
        vote_state_new_def num_seconds_def)
qed

section \<open>The signed message\<close>

text \<open>
  C13. The signed message determines the vote: for fields without the separator, two votes
  with the same signed message agree on the package, the content, the verdict, the key, the
  scanner profile and the evidence, so no signature can be replayed for another of these.
\<close>

theorem vote_message_binds:
  assumes "canonical_vote_message can hash ok pk prof ev = canonical_vote_message can' hash' ok' pk' prof' ev'"
    and "CHR ''|'' \<notin> set (can @ hash @ pk @ prof)" and "CHR ''|'' \<notin> set (can' @ hash' @ pk' @ prof')"
  shows "can = can' \<and> hash = hash' \<and> ok = ok' \<and> pk = pk' \<and> prof = prof' \<and> ev = ev'"
proof -
  note split = split_at_first [where x = "CHR ''|''"]
  have b: "CHR ''|'' \<notin> set (show_bool b)" for b by (simp add: show_bool_def)
  have 0: "can @ CHR ''|'' # hash @ CHR ''|'' # show_bool ok @ CHR ''|'' # pk @ CHR ''|'' # prof @ CHR ''|'' # ev
      = can' @ CHR ''|'' # hash' @ CHR ''|'' # show_bool ok' @ CHR ''|'' # pk' @ CHR ''|'' # prof' @ CHR ''|'' # ev'"
    using assms(1) by (simp add: canonical_vote_message_def)
  have 1: "can = can'" "hash @ CHR ''|'' # show_bool ok @ CHR ''|'' # pk @ CHR ''|'' # prof @ CHR ''|'' # ev
      = hash' @ CHR ''|'' # show_bool ok' @ CHR ''|'' # pk' @ CHR ''|'' # prof' @ CHR ''|'' # ev'"
    using split [OF 0] assms(2,3) by auto
  have 2: "hash = hash'" "show_bool ok @ CHR ''|'' # pk @ CHR ''|'' # prof @ CHR ''|'' # ev
      = show_bool ok' @ CHR ''|'' # pk' @ CHR ''|'' # prof' @ CHR ''|'' # ev'"
    using split [OF 1(2)] assms(2,3) by auto
  have 3: "show_bool ok = show_bool ok'" "pk @ CHR ''|'' # prof @ CHR ''|'' # ev = pk' @ CHR ''|'' # prof' @ CHR ''|'' # ev'"
    using split [OF 2(2) b b] by auto
  have 4: "pk = pk'" "prof @ CHR ''|'' # ev = prof' @ CHR ''|'' # ev'"
    using split [OF 3(2)] assms(2,3) by auto
  have 5: "prof = prof'" "ev = ev'"
    using split [OF 4(2)] assms(2,3) by auto
  have "ok = ok'" using 3(1) by (auto simp: show_bool_def split: if_splits)
  with 1(1) 2(1) 4(1) 5 show ?thesis by blast
qed

theorem vote_message_binds_witness:
  "canonical_vote_message ''npm:x@1'' ''h'' True ''k'' ''p'' ''e'' = canonical_vote_message ''npm:x@1'' ''h'' True ''k'' ''p'' ''e''
   \<and> ''npm:x@1'' = ''npm:x@1''"
  using vote_message_binds [of "''npm:x@1''" "''h''" True "''k''" "''p''" "''e''"
      "''npm:x@1''" "''h''" True "''k''" "''p''" "''e''"] by simp

section \<open>What the message leaves out\<close>

text \<open>
  The validator id is not part of the signed message, and the round looks neither at its
  phase nor at who is assigned.
\<close>

lemma verify_signature_relabel [simp]:
  "verify_signature c s (v\<lparr> iv_validator_id := i \<rparr>) = verify_signature c s v"
  by (simp add: verify_signature_def cong: option.case_cong if_cong)

lemma is_consensus_grade_relabel [simp]:
  "is_consensus_grade (v\<lparr> iv_validator_id := i \<rparr>) = is_consensus_grade v"
  by (simp add: is_consensus_grade_def)

definition relabelled_commits ::
    "'a crypto_scheme \<Rightarrow> incoming_vote \<Rightarrow> string list \<Rightarrow> package_vote_state \<Rightarrow> package_vote_state" where
  "relabelled_commits c v ids s =
     fold (\<lambda>i s. snd (record_commit c (v\<lparr> iv_validator_id := i \<rparr>) False s)) ids s"

lemma relabelled_commits_count:
  assumes "verify_signature c s v = SigValid" and "is_consensus_grade v" and "iv_approved v"
    and "distinct ids" and "hm_ok (commit_votes s)" and "\<forall>i \<in> set ids. hm_get (commit_votes s) i = None"
  shows "card (approvers (relabelled_commits c v ids s)) = card (approvers s) + length ids \<and>
    (ids \<noteq> [] \<and> vote_quorum s \<le> card (approvers s) + length ids \<longrightarrow>
       vote_phase (relabelled_commits c v ids s) = VoteFinalised)"
  using assms
proof (induction ids arbitrary: s)
  case (Cons i ids)
  let ?v = "v\<lparr> iv_validator_id := i \<rparr>"
  obtain res s1 where s1: "record_commit c ?v False s = (res, s1)" by fastforce
  note f = record_commit_frame [OF s1]
  have commits: "commit_votes s1 = hm_insert i ?v (commit_votes s)"
    using f(5,6) Cons.prems(1) by (simp add: check_vote_def)
  have ok1: "hm_ok (commit_votes s1)" using Cons.prems(5) by (simp add: commits)
  have "approvers s1 = insert i (approvers s)"
    using Cons.prems by (auto simp: approvers_def commits hm.lookup_put)
  moreover have "i \<notin> approvers s" using Cons.prems(6) by (simp add: approvers_def)
  moreover have "finite (approvers s)"
    by (rule finite_subset [OF _ hm.finite_dom [OF Cons.prems(5)]]) (auto simp: approvers_def)
  ultimately have card1: "card (approvers s1) = Suc (card (approvers s))" by simp
  have q: "vote_quorum s1 = vote_quorum s" using f(3) by (rule quorum_assigned)
  have IH: "card (approvers (relabelled_commits c v ids s1)) = card (approvers s1) + length ids \<and>
    (ids \<noteq> [] \<and> vote_quorum s1 \<le> card (approvers s1) + length ids \<longrightarrow>
       vote_phase (relabelled_commits c v ids s1) = VoteFinalised)"
    using Cons.prems ok1 verify_signature_cong [OF f(1), of c v]
    by (intro Cons.IH) (auto simp: commits hm.lookup_put)
  have "vote_phase s1 = VoteFinalised" if "ids = []" and "vote_quorum s \<le> Suc (card (approvers s))"
  proof -
    let ?s = "s\<lparr> commit_votes := hm_insert i ?v (commit_votes s) \<rparr>"
    have "approvals ?s = card (approvers s1)"
      using approvals_card [OF ok1] approvals_cong [of ?s s1] commits by simp
    then show ?thesis
      using s1 that(2) card1 Cons.prems(1)
      by (auto simp: record_commit_def check_vote_def Let_def vote_quorum_def split: if_splits)
  qed
  moreover have "relabelled_commits c v (i # ids) s = relabelled_commits c v ids s1"
    by (simp add: relabelled_commits_def s1)
  ultimately show ?case
    using IH card1 q by (cases "ids = []") (simp_all add: relabelled_commits_def)
qed (simp add: relabelled_commits_def)

text \<open>
  One key is enough: a single valid approving vote, submitted again under as many
  different validator ids as the quorum asks for, finalises the round.
\<close>

lemma one_key_finalises:
  assumes "verify_signature c (vote_state_new now can n) v = SigValid" and "is_consensus_grade v"
    and "iv_approved v" and "distinct ids" and "length ids = 2 * n div 3 + 1"
  shows "vote_phase (relabelled_commits c v ids (vote_state_new now can n)) = VoteFinalised"
  using relabelled_commits_count [OF assms(1-4)] assms(5)
  by (auto simp: vote_state_new_def vote_quorum_def)

lemma one_key_finalises_witness:
  "vote_phase (relabelled_commits accepting_env (demo_incoming ''a'' True) [''a'', ''b'', ''c'']
     (vote_state_new 0 ''npm:x@1'' 3)) = VoteFinalised"
  by (rule one_key_finalises) simp_all

end
