(* ===== verification/Evidence_Votes.thy ===== *)
theory Evidence_Votes
  imports Vote_Accumulator
begin

text \<open>
  The decision over signed evidence votes that the node uses:
  \<^verbatim>\<open>aggregate_evidence_votes\<close> of \<^verbatim>\<open>crates/consensus/src/evidence_votes.rs\<close>, and the package
  rounds of \<^verbatim>\<open>crates/node/src/state.rs\<close> that collect the votes it is applied to.

  The loop that removes duplicates is shown to keep, for every voter, exactly its last vote;
  a decision is then characterised by counting those votes. A package round keeps its
  votes in the same normal form, so deciding on it is deciding on the stream of votes.
\<close>

section \<open>Aggregation\<close>

datatype evidence_vote_outcome = EvidenceVerified "validator_signature list" | EvidenceRejected string

definition consensus_profile_key :: "'a crypto_scheme \<Rightarrow> validator_signature \<Rightarrow> string option" where
  "consensus_profile_key c sg =
     (if \<not> is_consensus_grade_vote (vs_model_version sg) (vs_analysis_bundles sg) (vs_evidence_digest sg)
      then None
      else Some (scanner_profile_digest c (vs_model_version sg) (vs_analysis_bundles sg) @ '':''
             @ vs_evidence_digest sg))"

definition unique_key :: "validator_signature \<Rightarrow> string" where
  "unique_key sg =
     (if vs_validator_pubkey sg = [] then ''id:'' @ to_ascii_lowercase (vs_validator_id sg)
      else ''pubkey:'' @ to_ascii_lowercase (vs_validator_pubkey sg))"

text \<open>The first loop: the index of each key seen, and the votes kept so far.\<close>

definition dedupe_step ::
    "(string, nat) hash_map \<times> validator_signature list \<Rightarrow> validator_signature \<Rightarrow>
       (string, nat) hash_map \<times> validator_signature list" where
  "dedupe_step = (\<lambda>(seen_indices, unique_votes) sg.
     case hm_get seen_indices (unique_key sg) of
       Some index \<Rightarrow> (seen_indices, unique_votes[index := sg])
     | None \<Rightarrow> (hm_insert (unique_key sg) (length unique_votes) seen_indices, unique_votes @ [sg]))"

definition dedupe_votes :: "validator_signature list \<Rightarrow> validator_signature list" where
  "dedupe_votes sigs = snd (foldl dedupe_step ([], []) sigs)"

text \<open>The second loop: it returns early with the approvals of a profile that has a quorum.\<close>

fun tally ::
    "'a crypto_scheme \<Rightarrow> nat \<Rightarrow> (string, validator_signature list) hash_map \<Rightarrow> string list \<Rightarrow>
       validator_signature list \<Rightarrow> validator_signature list + string list" where
  "tally c q approvals_by_profile rejs [] = Inr rejs"
| "tally c q approvals_by_profile rejs (sg # sigs) =
     (case consensus_profile_key c sg of
        None \<Rightarrow> tally c q approvals_by_profile rejs sigs
      | Some key \<Rightarrow>
          (case vote sg of
             Approve \<Rightarrow>
               let approving = (case hm_get approvals_by_profile key of None \<Rightarrow> [] | Some l \<Rightarrow> l) @ [sg] in
               if q \<le> length approving then Inl approving
               else tally c q (hm_insert key approving approvals_by_profile) rejs sigs
           | Reject reason \<Rightarrow> tally c q approvals_by_profile (rejs @ [reason]) sigs))"

definition aggregate_evidence_votes ::
    "'a crypto_scheme \<Rightarrow> validator_signature list \<Rightarrow> nat \<Rightarrow> evidence_vote_outcome option" where
  "aggregate_evidence_votes c sigs assigned =
     (let quorum_size = assigned * 2 div 3 + 1 in
      case tally c quorum_size [] [] (dedupe_votes sigs) of
        Inl approving \<Rightarrow> Some (EvidenceVerified approving)
      | Inr rejs \<Rightarrow>
          if assigned - length rejs < quorum_size
          then Some (EvidenceRejected (case rejs of [] \<Rightarrow> ''Consensus rejected'' | r # _ \<Rightarrow> r))
          else None)"

section \<open>Package rounds\<close>

record package_round =
  pr_subject :: string
  first_vote_at :: datetime
  last_vote_at :: datetime
  pr_signatures :: "validator_signature list"

text \<open>
  A round is never empty, so the minimum and the maximum exist; on an empty list the source
  stores the current time.
\<close>

definition refresh_timestamps :: "datetime \<Rightarrow> package_round \<Rightarrow> package_round" where
  "refresh_timestamps now r =
     (if pr_signatures r = [] then r\<lparr> first_vote_at := now, last_vote_at := now \<rparr>
      else r\<lparr> first_vote_at := Min (signed_at ` set (pr_signatures r)),
              last_vote_at := Max (signed_at ` set (pr_signatures r)) \<rparr>)"

definition package_round_vote_key :: "validator_signature \<Rightarrow> string" where
  "package_round_vote_key sg =
     (if vs_validator_pubkey sg = [] then ''id:'' @ to_ascii_lowercase (vs_validator_id sg)
      else ''pubkey:'' @ to_ascii_lowercase (vs_validator_pubkey sg))"

definition from_vote :: "datetime \<Rightarrow> string \<Rightarrow> validator_signature \<Rightarrow> package_round" where
  "from_vote now subject v =
     refresh_timestamps now
       \<lparr> pr_subject = subject, first_vote_at = now, last_vote_at = now, pr_signatures = [v] \<rparr>"

fun replace_or_push :: "validator_signature \<Rightarrow> validator_signature list \<Rightarrow> validator_signature list" where
  "replace_or_push v [] = [v]"
| "replace_or_push v (x # xs) =
     (if package_round_vote_key x = package_round_vote_key v then v # xs else x # replace_or_push v xs)"

definition round_record_vote :: "datetime \<Rightarrow> validator_signature \<Rightarrow> package_round \<Rightarrow> package_round" where
  "round_record_vote now v r =
     refresh_timestamps now (r\<lparr> pr_signatures := replace_or_push v (pr_signatures r) \<rparr>)"

definition vote_count :: "package_round \<Rightarrow> nat" where
  "vote_count r = length (pr_signatures r)"

definition record_package_vote ::
    "datetime \<Rightarrow> string \<Rightarrow> validator_signature \<Rightarrow> (string, package_round) hash_map \<Rightarrow> (string, package_round) hash_map"
  where
  "record_package_vote now subject v rs =
     (case hm_get rs subject of
        Some r \<Rightarrow> hm_insert subject (round_record_vote now v r) rs
      | None \<Rightarrow> hm_insert subject (from_vote now subject v) rs)"

definition clear_package_round :: "string \<Rightarrow> (string, package_round) hash_map \<Rightarrow> (string, package_round) hash_map"
  where
  "clear_package_round subject rs = hm_remove subject rs"

section \<open>Removing duplicates\<close>

definition same_voter :: "validator_signature \<Rightarrow> validator_signature \<Rightarrow> bool" where
  "same_voter x y = (unique_key x = unique_key y)"

lemma round_key_eq: "package_round_vote_key = unique_key"
  by (intro ext) (simp add: package_round_vote_key_def unique_key_def)

lemma replace_or_push_keys:
  "map unique_key (replace_or_push v xs) =
     (if unique_key v \<in> unique_key ` set xs then map unique_key xs else map unique_key xs @ [unique_key v])"
  by (induction xs) (auto simp: round_key_eq)

lemma replace_or_push_index:
  assumes "distinct (map unique_key xs)" and "i < length xs" and "unique_key (xs ! i) = unique_key v"
  shows "replace_or_push v xs = xs[i := v]"
  using assms
proof (induction xs arbitrary: i)
  case (Cons x xs)
  show ?case
  proof (cases i)
    case (Suc j)
    then have "xs ! j \<in> set xs" and "unique_key (xs ! j) = unique_key v" using Cons.prems by simp_all
    then have "unique_key v \<in> unique_key ` set xs" by (metis imageI)
    then have "unique_key x \<noteq> unique_key v" using Cons.prems(1) by auto
    with Cons Suc show ?thesis by (simp add: round_key_eq)
  qed (use Cons.prems in \<open>simp add: round_key_eq\<close>)
qed simp

lemma replace_or_push_new: "unique_key v \<notin> unique_key ` set xs \<Longrightarrow> replace_or_push v xs = xs @ [v]"
  by (induction xs) (auto simp: round_key_eq)

lemma replace_or_push_set:
  assumes "distinct (map unique_key xs)"
  shows "set (replace_or_push v xs) = insert v {x \<in> set xs. unique_key x \<noteq> unique_key v}"
  using assms
proof (induction xs)
  case (Cons x xs)
  show ?case
  proof (cases "unique_key x = unique_key v")
    case True
    then have "unique_key v \<notin> unique_key ` set xs" using Cons.prems by simp
    then have "\<forall>y \<in> set xs. unique_key y \<noteq> unique_key v" by (metis imageI)
    with True show ?thesis by (auto simp: round_key_eq)
  next
    case False
    with Cons show ?thesis by (auto simp: round_key_eq)
  qed
qed simp

lemma replace_or_push_distinct:
  "distinct (map unique_key xs) \<Longrightarrow> distinct (map unique_key (replace_or_push v xs))"
  by (auto simp: replace_or_push_keys)

text \<open>The index map of the first loop agrees with the positions of the votes kept.\<close>

definition dedupe_inv :: "(string, nat) hash_map \<times> validator_signature list \<Rightarrow> bool" where
  "dedupe_inv = (\<lambda>(seen, unique). hm_ok seen \<and> distinct (map unique_key unique) \<and>
     (\<forall>k i. hm_get seen k = Some i \<longleftrightarrow> i < length unique \<and> unique_key (unique ! i) = k))"

lemma dedupe_step_refines:
  assumes "dedupe_inv (seen, unique)"
  shows "dedupe_inv (dedupe_step (seen, unique) sg) \<and>
    snd (dedupe_step (seen, unique) sg) = replace_or_push sg unique"
proof (cases "hm_get seen (unique_key sg)")
  case (Some i)
  with assms have i: "i < length unique" "unique_key (unique ! i) = unique_key sg"
    and d: "distinct (map unique_key unique)"
    by (auto simp: dedupe_inv_def)
  have eq: "unique[i := sg] = replace_or_push sg unique"
    using replace_or_push_index [OF d i] by simp
  have "map unique_key (unique[i := sg]) = map unique_key unique"
    using i by (metis list_update_id map_update nth_map)
  then have "distinct (map unique_key (unique[i := sg]))"
    and "\<forall>j < length unique. unique_key (unique[i := sg] ! j) = unique_key (unique ! j)"
    using d i by (simp_all add: nth_list_update)
  then have "dedupe_inv (seen, unique[i := sg])"
    using assms by (simp add: dedupe_inv_def) metis
  moreover have "dedupe_step (seen, unique) sg = (seen, unique[i := sg])"
    using Some by (simp add: dedupe_step_def)
  ultimately show ?thesis by (simp add: eq)
next
  case None
  with assms have new: "unique_key sg \<notin> unique_key ` set unique"
    by (auto simp: dedupe_inv_def in_set_conv_nth) (metis option.distinct(1))
  then have eq: "unique @ [sg] = replace_or_push sg unique" by (simp add: replace_or_push_new)
  have "dedupe_inv (hm_insert (unique_key sg) (length unique) seen, unique @ [sg])"
  proof -
    have "unique_key (unique ! i) \<noteq> unique_key sg" if "i < length unique" for i
      using new that by (metis imageI nth_mem)
    then show ?thesis
      using assms new by (auto simp: dedupe_inv_def hm.lookup_put nth_append less_Suc_eq)
  qed
  with None show ?thesis by (simp add: dedupe_step_def eq)
qed

lemma foldl_dedupe:
  assumes "dedupe_inv st"
  shows "dedupe_inv (foldl dedupe_step st sigs) \<and>
    snd (foldl dedupe_step st sigs) = foldl (\<lambda>u v. replace_or_push v u) (snd st) sigs"
  using assms
proof (induction sigs arbitrary: st)
  case (Cons v sigs)
  obtain seen unique where st: "st = (seen, unique)" by fastforce
  from dedupe_step_refines [of seen unique v] Cons.prems st
  have "dedupe_inv (dedupe_step st v)" "snd (dedupe_step st v) = replace_or_push v (snd st)"
    by simp_all
  with Cons.IH [of "dedupe_step st v"] show ?case by simp
qed simp

lemma dedupe_votes_fold: "dedupe_votes sigs = foldl (\<lambda>u v. replace_or_push v u) [] sigs"
  using foldl_dedupe [of "([], [])" sigs] by (simp add: dedupe_votes_def dedupe_inv_def)

lemma dedupe_votes_distinct: "distinct (map unique_key (dedupe_votes sigs))"
proof -
  have "distinct (map unique_key u) \<Longrightarrow> distinct (map unique_key (foldl (\<lambda>u v. replace_or_push v u) u sigs))" for u
    by (induction sigs arbitrary: u) (simp_all add: replace_or_push_distinct)
  then show ?thesis by (simp add: dedupe_votes_fold)
qed

text \<open>Each voter's last vote is the one that is kept.\<close>

lemma set_dedupe_votes:
  "set (dedupe_votes sigs) = {s. \<exists>pre post. sigs = pre @ s # post \<and> unique_key s \<notin> unique_key ` set post}"
proof (induction sigs rule: rev_induct)
  case (snoc v sigs)
  have "dedupe_votes (sigs @ [v]) = replace_or_push v (dedupe_votes sigs)"
    by (simp add: dedupe_votes_fold)
  then have 1: "set (dedupe_votes (sigs @ [v])) =
      insert v {x \<in> set (dedupe_votes sigs). unique_key x \<noteq> unique_key v}"
    by (simp add: replace_or_push_set [OF dedupe_votes_distinct])
  have 2: "(\<exists>pre post. sigs @ [v] = pre @ s # post \<and> unique_key s \<notin> unique_key ` set post) \<longleftrightarrow>
      s = v \<or> (\<exists>pre post. sigs = pre @ s # post \<and> unique_key s \<notin> unique_key ` set post) \<and> unique_key s \<noteq> unique_key v" for s
  proof
    assume "\<exists>pre post. sigs @ [v] = pre @ s # post \<and> unique_key s \<notin> unique_key ` set post"
    then obtain pre post where "sigs @ [v] = pre @ s # post" "unique_key s \<notin> unique_key ` set post" by blast
    then show "s = v \<or> (\<exists>pre post. sigs = pre @ s # post \<and> unique_key s \<notin> unique_key ` set post) \<and> unique_key s \<noteq> unique_key v"
      by (cases post rule: rev_cases) auto
  next
    assume "s = v \<or> (\<exists>pre post. sigs = pre @ s # post \<and> unique_key s \<notin> unique_key ` set post) \<and> unique_key s \<noteq> unique_key v"
    then show "\<exists>pre post. sigs @ [v] = pre @ s # post \<and> unique_key s \<notin> unique_key ` set post"
      by (elim disjE) force+
  qed
  show ?case unfolding 1 snoc.IH by (auto simp only: 2 mem_Collect_eq insert_iff)
qed (simp add: dedupe_votes_fold)

lemma dedupe_fixpoint: "distinct (map unique_key u) \<Longrightarrow> dedupe_votes u = u"
proof (induction u rule: rev_induct)
  case (snoc v u)
  then show ?case by (simp add: dedupe_votes_fold replace_or_push_new)
qed (simp add: dedupe_votes_fold)

section \<open>Counting the votes\<close>

definition approving_votes :: "'a crypto_scheme \<Rightarrow> string \<Rightarrow> validator_signature list \<Rightarrow> validator_signature list"
  where
  "approving_votes c k sigs = filter (\<lambda>s. vote s = Approve \<and> consensus_profile_key c s = Some k) sigs"

definition rejecting_votes :: "'a crypto_scheme \<Rightarrow> validator_signature list \<Rightarrow> validator_signature list" where
  "rejecting_votes c sigs = filter (\<lambda>s. vote s \<noteq> Approve \<and> consensus_profile_key c s \<noteq> None) sigs"

fun reject_reason :: "validator_vote \<Rightarrow> string" where
  "reject_reason (Reject r) = r"
| "reject_reason Approve = []"

lemma approving_append [simp]: "approving_votes c k (xs @ ys) = approving_votes c k xs @ approving_votes c k ys"
  by (simp add: approving_votes_def)

lemma rejecting_append [simp]: "rejecting_votes c (xs @ ys) = rejecting_votes c xs @ rejecting_votes c ys"
  by (simp add: rejecting_votes_def)

definition tally_inv ::
    "'a crypto_scheme \<Rightarrow> nat \<Rightarrow> (string, validator_signature list) hash_map \<Rightarrow> string list \<Rightarrow> validator_signature list \<Rightarrow> bool"
  where
  "tally_inv c q m rejs pre \<longleftrightarrow>
     (\<forall>k. (case hm_get m k of None \<Rightarrow> [] | Some l \<Rightarrow> l) = approving_votes c k pre) \<and>
     (\<forall>k. length (approving_votes c k pre) < q) \<and>
     rejs = map (reject_reason \<circ> vote) (rejecting_votes c pre)"

definition tally_result ::
    "'a crypto_scheme \<Rightarrow> nat \<Rightarrow> validator_signature list \<Rightarrow> validator_signature list + string list \<Rightarrow> bool"
  where
  "tally_result c q sigs res =
     (case res of
        Inl l \<Rightarrow> length l = q \<and> (\<exists>k rest. approving_votes c k sigs = l @ rest)
      | Inr r \<Rightarrow> (\<forall>k. length (approving_votes c k sigs) < q) \<and>
          r = map (reject_reason \<circ> vote) (rejecting_votes c sigs))"

lemma tally_spec:
  assumes "tally_inv c q m rejs pre"
  shows "tally_result c q (pre @ post) (tally c q m rejs post)"
  using assms
proof (induction post arbitrary: m rejs pre)
  case Nil
  then show ?case by (simp add: tally_inv_def tally_result_def)
next
  case (Cons sg post)
  note one = approving_votes_def [of c _ "[sg]"] rejecting_votes_def [of c "[sg]"]
  note next_vote = Cons.IH [of _ _ "pre @ [sg]", simplified]
  show ?case
  proof (cases "consensus_profile_key c sg")
    case None
    then have "tally_inv c q m rejs (pre @ [sg])"
      using Cons.prems by (simp add: tally_inv_def one)
    with None next_vote show ?thesis by simp
  next
    case (Some key)
    show ?thesis
    proof (cases "vote sg")
      case (Reject reason)
      then have "tally_inv c q m (rejs @ [reason]) (pre @ [sg])"
        using Cons.prems Some by (simp add: tally_inv_def one)
      with Some Reject next_vote show ?thesis by simp
    next
      case Approve
      let ?l = "approving_votes c key pre"
      have l: "(case hm_get m key of None \<Rightarrow> [] | Some l \<Rightarrow> l) = ?l" and lq: "length ?l < q"
        using Cons.prems by (simp_all add: tally_inv_def)
      show ?thesis
      proof (cases "q \<le> length (?l @ [sg])")
        case True
        have "approving_votes c key (pre @ sg # post) = (?l @ [sg]) @ approving_votes c key post"
          using Some Approve by (simp add: approving_votes_def)
        then have "\<exists>k rest. approving_votes c k (pre @ sg # post) = (?l @ [sg]) @ rest" by blast
        moreover have "tally c q m rejs (sg # post) = Inl (?l @ [sg])"
          using True Some Approve by (simp add: l Let_def)
        ultimately show ?thesis using True lq by (simp add: tally_result_def)
      next
        case False
        have "tally_inv c q (hm_insert key (?l @ [sg]) m) rejs (pre @ [sg])"
          using Cons.prems Some Approve False by (auto simp: tally_inv_def one update_conv')
        moreover have "tally c q m rejs (sg # post) = tally c q (hm_insert key (?l @ [sg]) m) rejs post"
          using False Some Approve by (simp add: l Let_def)
        ultimately show ?thesis using next_vote by simp
      qed
    qed
  qed
qed

lemma tally_votes:
  "tally_result c (n * 2 div 3 + 1) (dedupe_votes sigs) (tally c (n * 2 div 3 + 1) [] [] (dedupe_votes sigs))"
  using tally_spec [of c "n * 2 div 3 + 1" "[]" "[]" "[]" "dedupe_votes sigs"]
  by (simp add: tally_inv_def approving_votes_def rejecting_votes_def)

section \<open>Decisions\<close>

text \<open>The last vote of a voter in a stream of votes.\<close>

definition last_vote :: "validator_signature list \<Rightarrow> validator_signature \<Rightarrow> bool" where
  "last_vote sigs s \<longleftrightarrow> (\<exists>pre post. sigs = pre @ s # post \<and> unique_key s \<notin> unique_key ` set post)"

lemma in_dedupe_votes: "s \<in> set (dedupe_votes sigs) \<longleftrightarrow> last_vote sigs s"
  by (simp add: set_dedupe_votes last_vote_def)

lemma evidence_verified_votes:
  assumes "aggregate_evidence_votes c sigs n = Some (EvidenceVerified votes)"
  shows "2 * n < 3 * length votes \<and> distinct (map unique_key votes) \<and>
    (\<exists>k. \<forall>s \<in> set votes. last_vote sigs s \<and> vote s = Approve \<and> consensus_profile_key c s = Some k)"
proof -
  have "tally c (n * 2 div 3 + 1) [] [] (dedupe_votes sigs) = Inl votes"
    using assms by (auto simp: aggregate_evidence_votes_def Let_def split: sum.splits if_splits)
  with tally_votes [of c n sigs] obtain k rest where len: "length votes = n * 2 div 3 + 1"
    and ap: "approving_votes c k (dedupe_votes sigs) = votes @ rest"
    by (auto simp: tally_result_def)
  have "set votes \<subseteq> {s \<in> set (dedupe_votes sigs). vote s = Approve \<and> consensus_profile_key c s = Some k}"
    using arg_cong [OF ap, of set] by (auto simp: approving_votes_def)
  moreover have "distinct (map unique_key (approving_votes c k (dedupe_votes sigs)))"
    unfolding approving_votes_def by (rule distinct_map_filter [OF dedupe_votes_distinct])
  then have "distinct (map unique_key votes)" by (simp add: ap)
  moreover have "2 * n < 3 * length votes" unfolding len by presburger
  ultimately show ?thesis by (auto simp: in_dedupe_votes)
qed

text \<open>
  C14. A package is accepted only on a quorum: the votes returned are more than two thirds of
  the assigned number, come from different voters, are each voter's last vote, all approve,
  and were all cast with one scanner profile and one evidence digest.
\<close>

theorem evidence_verified_sound:
  assumes "aggregate_evidence_votes c sigs n = Some (EvidenceVerified votes)"
  shows "2 * n < 3 * length votes \<and> distinct (map unique_key votes) \<and>
    (\<exists>k. \<forall>s \<in> set votes. last_vote sigs s \<and> vote s = Approve \<and> consensus_profile_key c s = Some k)"
  by (rule evidence_verified_votes [OF assms])

definition demo_sig :: "string \<Rightarrow> validator_signature" where
  "demo_sig i = validator_signature_of (demo_incoming i True)"

lemma demo_sig_profile: "consensus_profile_key c (demo_sig i) \<noteq> None"
  using demo_incoming_grade [of i True]
  by (simp add: consensus_profile_key_def demo_sig_def validator_signature_of_def is_consensus_grade_def)

theorem evidence_verified_sound_witness:
  "aggregate_evidence_votes demo_env [demo_sig ''a''] 1 = Some (EvidenceVerified [demo_sig ''a'']) \<and>
   distinct (map unique_key [demo_sig ''a''])"
proof -
  have "aggregate_evidence_votes demo_env [demo_sig ''a''] 1 = Some (EvidenceVerified [demo_sig ''a''])"
    using demo_sig_profile [of demo_env "''a''"]
    by (auto simp: aggregate_evidence_votes_def Let_def dedupe_votes_fold demo_sig_def validator_signature_of_def)
  from evidence_verified_sound [OF this] this show ?thesis by blast
qed


section \<open>Package rounds are in normal form\<close>

lemma refresh_signatures [simp]: "pr_signatures (refresh_timestamps now r) = pr_signatures r"
  by (simp add: refresh_timestamps_def)

definition round_of_votes ::
    "datetime \<Rightarrow> string \<Rightarrow> validator_signature \<Rightarrow> validator_signature list \<Rightarrow> package_round" where
  "round_of_votes now subject v vs = foldl (\<lambda>r w. round_record_vote now w r) (from_vote now subject v) vs"

lemma round_of_votes_signatures: "pr_signatures (round_of_votes now subject v vs) = dedupe_votes (v # vs)"
proof -
  have "pr_signatures (foldl (\<lambda>r w. round_record_vote now w r) r vs) =
      foldl (\<lambda>u w. replace_or_push w u) (pr_signatures r) vs" for r
    by (induction vs arbitrary: r) (simp_all add: round_record_vote_def)
  then show ?thesis by (simp add: round_of_votes_def from_vote_def dedupe_votes_fold)
qed

text \<open>
  C16. Deciding on a package round is deciding on the votes it was fed: the node's live round
  keeps one vote per voter, and aggregating its signatures gives the same outcome as
  aggregating the whole stream of votes it received.
\<close>

theorem round_aggregation_equiv:
  "aggregate_evidence_votes c (pr_signatures (round_of_votes now subject v vs)) n =
     aggregate_evidence_votes c (v # vs) n \<and>
   vote_count (round_of_votes now subject v vs) = card (unique_key ` set (v # vs))"
proof -
  have "unique_key ` set (dedupe_votes xs) = unique_key ` set xs" for xs
  proof (induction xs rule: rev_induct)
    case (snoc x xs)
    have "set (dedupe_votes (xs @ [x])) = insert x {y \<in> set (dedupe_votes xs). unique_key y \<noteq> unique_key x}"
      by (simp add: dedupe_votes_fold replace_or_push_set dedupe_votes_distinct [unfolded dedupe_votes_fold])
    then have "unique_key ` set (dedupe_votes (xs @ [x])) =
        insert (unique_key x) (unique_key ` set (dedupe_votes xs))" by auto
    then show ?case by (simp add: snoc)
  qed (simp add: dedupe_votes_fold)
  then have "card (unique_key ` set (v # vs)) = length (dedupe_votes (v # vs))"
    by (metis dedupe_votes_distinct distinct_card length_map list.set_map)
  then show ?thesis
    by (simp add: aggregate_evidence_votes_def round_of_votes_signatures vote_count_def
        dedupe_fixpoint dedupe_votes_distinct)
qed

end
