(* ===== verification/Sync.thy ===== *)
theory Sync
  imports Publisher_Index Set_History Evidence_Votes
begin

text \<open>
  Chain synchronisation of \<^verbatim>\<open>crates/node/src/sync.rs\<close>: a lagging node fetches the missing
  blocks, checks that each continues the chain and carries a quorum of validator signatures on
  every package it publishes, and adopts a longer branch of its peers after a fork.

  The answers of the peers are parameters: the tips they report, and for each pass over the
  network one function from heights to the block served. A pass asks for every height at most
  once, so a function per pass covers peers that change their answers between passes. A sync
  is one atomic step of the node's state; the locks of the source are not modelled.

  The theorems show what an accepted block carries, that a reorganisation only adopts a
  strictly longer verified branch from a bounded depth and otherwise changes nothing, that
  every sync keeps the chain linked and the publisher index the one of the chain, and that
  honest peers bring a node up to their tip. One theorem shows that the transactions that
  publish nothing are not covered by any check.
\<close>

section \<open>Definitions\<close>

definition max_reorg_depth :: nat where
  "max_reorg_depth = 64"

text \<open>
  \<^verbatim>\<open>gossip::canonical_vote_message\<close>, a second copy of the message that validators sign.
\<close>

definition gossip_vote_message :: "string \<Rightarrow> string \<Rightarrow> bool \<Rightarrow> string \<Rightarrow> string \<Rightarrow> string \<Rightarrow> string" where
  "gossip_vote_message can hash approved pubkey profile_digest ev_digest =
     ''creg-vote-v2'' @ ''|'' @ can @ ''|'' @ hash @ ''|'' @ show_bool approved @ ''|'' @ pubkey
       @ ''|'' @ profile_digest @ ''|'' @ ev_digest"

datatype block_error = EmptyValidatorSet | TooFewSignatures nat string nat nat nat

definition sig_profile_key :: "'a crypto_scheme \<Rightarrow> validator_signature \<Rightarrow> string" where
  "sig_profile_key c sg =
     scanner_profile_digest c (vs_model_version sg) (vs_analysis_bundles sg) @ '':'' @ vs_evidence_digest sg"

definition record_signature_valid :: "'a crypto_scheme \<Rightarrow> chain_record \<Rightarrow> validator_signature \<Rightarrow> bool" where
  "record_signature_valid c r sg =
     (case hex_decode c (vs_validator_pubkey sg) of
        None \<Rightarrow> False
      | Some pk \<Rightarrow>
          if \<not> vk_try_from c pk then False
          else case hex_decode c (vs_signature sg) of
                 None \<Rightarrow> False
               | Some s \<Rightarrow>
                   if \<not> sig_try_from c s then False
                   else ed_verify c pk
                     (gossip_vote_message (canonical (rec_id r)) (content_hash r) (vote sg = Approve)
                        (vs_validator_pubkey sg)
                        (scanner_profile_digest c (vs_model_version sg) (vs_analysis_bundles sg))
                        (vs_evidence_digest sg)) s)"

text \<open>The loop over the signatures of one record, with the keys seen and the groups so far.\<close>

fun approval_groups ::
    "'a crypto_scheme \<Rightarrow> string set \<Rightarrow> chain_record \<Rightarrow> string set \<Rightarrow> (string, nat) hash_map \<Rightarrow> validator_signature list
     \<Rightarrow> (string, nat) hash_map" where
  "approval_groups c known r seen groups [] = groups"
| "approval_groups c known r seen groups (sg # sgs) =
     (let key = to_ascii_lowercase (vs_validator_pubkey sg) in
      if vote sg \<noteq> Approve then approval_groups c known r seen groups sgs
      else if \<not> is_consensus_grade_vote (vs_model_version sg) (vs_analysis_bundles sg) (vs_evidence_digest sg)
      then approval_groups c known r seen groups sgs
      else if key \<notin> known then approval_groups c known r seen groups sgs
      else if key \<in> seen then approval_groups c known r seen groups sgs
      else if \<not> record_signature_valid c r sg then approval_groups c known r (insert key seen) groups sgs
      else
        let pk = sig_profile_key c sg;
            n = (case hm_get groups pk of None \<Rightarrow> 0 | Some n \<Rightarrow> n)
        in approval_groups c known r (insert key seen) (hm_insert pk (n + 1) groups) sgs)"

definition valid_approvals :: "'a crypto_scheme \<Rightarrow> string set \<Rightarrow> chain_record \<Rightarrow> nat" where
  "valid_approvals c known r =
     foldr max (hm_values (approval_groups c known r {} [] (validator_signatures r))) 0"

fun verify_records ::
    "'a crypto_scheme \<Rightarrow> string set \<Rightarrow> nat \<Rightarrow> nat \<Rightarrow> nat \<Rightarrow> transaction list \<Rightarrow> block_error + unit" where
  "verify_records c known n quorum idx [] = Inr ()"
| "verify_records c known n quorum idx (Publish r # txs) =
     (let approvals = valid_approvals c known r in
      if approvals < quorum then Inl (TooFewSignatures idx (canonical (rec_id r)) approvals quorum n)
      else verify_records c known n quorum (idx + 1) txs)"
| "verify_records c known n quorum idx (_ # txs) = verify_records c known n quorum (idx + 1) txs"

definition verify_block_signatures :: "'a crypto_scheme \<Rightarrow> block \<Rightarrow> validator list \<Rightarrow> block_error + unit" where
  "verify_block_signatures c b vs =
     (if height (header b) = 0 then Inr ()
      else if length vs = 0 then Inl EmptyValidatorSet
      else verify_records c (set (map (\<lambda>v. to_ascii_lowercase (v_pubkey v)) vs)) (length vs)
             (2 * length vs div 3 + 1) 0 (transactions b))"

section \<open>The node\<close>

record reorg_event =
  reorg_id :: string
  reorg_timestamp :: string
  reorg_depth :: nat
  abandoned_blocks :: "string list"
  new_tip :: string

definition max_reorg_events :: nat where
  "max_reorg_events = 100"

record node_state =
  node_chain :: chain_store
  publishers :: publisher_index
  reorgs :: "reorg_event list"
  node_validators :: "validator list"
  node_history :: "validator_set_snapshot list"

text \<open>The identifier and the time of an event are drawn and read when it is recorded.\<close>

definition record_reorg ::
    "string \<Rightarrow> string \<Rightarrow> nat \<Rightarrow> string list \<Rightarrow> string \<Rightarrow> 'a node_state_scheme \<Rightarrow> 'a node_state_scheme" where
  "record_reorg i ts depth abandoned tip st =
     st\<lparr> reorgs := take max_reorg_events
           (\<lparr> reorg_id = i, reorg_timestamp = ts, reorg_depth = depth, abandoned_blocks = abandoned, new_tip = tip \<rparr>
            # reorgs st) \<rparr>"

definition effective_set :: "node_state \<Rightarrow> nat \<Rightarrow> validator list" where
  "effective_set st h = (case set_at (node_history st) h of Some vs \<Rightarrow> vs | None \<Rightarrow> node_validators st)"

section \<open>Recovery from a fork\<close>

type_synonym fetch = "nat \<Rightarrow> block option"

fun find_ancestor :: "env \<Rightarrow> fetch \<Rightarrow> chain_store \<Rightarrow> nat list \<Rightarrow> (nat \<times> string) option" where
  "find_ancestor c fetch s [] = None"
| "find_ancestor c fetch s (k # ks) =
     (case get_block_by_height s k of
        None \<Rightarrow> find_ancestor c fetch s ks
      | Some ours \<Rightarrow>
          case fetch k of
            None \<Rightarrow> None
          | Some theirs \<Rightarrow>
              if block_hash_of c ours = block_hash_of c theirs then Some (k, block_hash_of c ours)
              else find_ancestor c fetch s ks)"

fun fetch_branch :: "env \<Rightarrow> fetch \<Rightarrow> node_state \<Rightarrow> string \<Rightarrow> nat list \<Rightarrow> (block list \<times> string) option" where
  "fetch_branch c fetch st link [] = Some ([], link)"
| "fetch_branch c fetch st link (h # hs) =
     (case fetch h of
        None \<Rightarrow> None
      | Some b \<Rightarrow>
          if height (header b) \<noteq> h then None
          else if prev_hash (header b) \<noteq> link then None
          else case verify_block_signatures c b (effective_set st (height (header b))) of
                 Inl _ \<Rightarrow> None
               | Inr _ \<Rightarrow>
                   case fetch_branch c fetch st (block_hash_of c b) hs of
                     None \<Rightarrow> None
                   | Some (branch, tip) \<Rightarrow> Some (b # branch, tip))"

definition adopt_branch ::
    "env \<Rightarrow> datetime \<Rightarrow> string \<Rightarrow> string \<Rightarrow> nat \<Rightarrow> nat \<Rightarrow> block list \<Rightarrow> string \<Rightarrow> node_state \<Rightarrow> node_state" where
  "adopt_branch c now i ts local_tip fork_height branch link st =
     (let (abandoned, rolled) = rollback_to_height fork_height (node_chain st);
          chain' = rebuild_package_index c (foldl (\<lambda>s b. insert_block c b s) rolled branch);
          canonical_blocks = List.map_filter (get_block_by_height chain') [0..<tip_height chain' + 1]
      in record_reorg i ts (local_tip - fork_height) abandoned link
           (st\<lparr> node_chain := chain', publishers := rebuild_from_chain now canonical_blocks (publishers st) \<rparr>))"

definition attempt_reorg_recovery ::
    "env \<Rightarrow> fetch \<Rightarrow> fetch \<Rightarrow> datetime \<Rightarrow> string \<Rightarrow> string \<Rightarrow> nat \<Rightarrow> nat \<Rightarrow> node_state \<Rightarrow> bool \<times> node_state" where
  "attempt_reorg_recovery c fetch_a fetch_b now i ts local_tip peer_height st =
     (case find_ancestor c fetch_a (node_chain st) (rev [local_tip - max_reorg_depth..<local_tip + 1]) of
        None \<Rightarrow> (False, st)
      | Some (fork_height, ancestor_hash) \<Rightarrow>
          case fetch_branch c fetch_b st ancestor_hash [fork_height + 1..<peer_height + 1] of
            None \<Rightarrow> (False, st)
          | Some (branch, link) \<Rightarrow>
              if fork_height + length branch \<le> local_tip then (False, st)
              else (True, adopt_branch c now i ts local_tip fork_height branch link st))"

section \<open>One sync\<close>

datatype sync_outcome =
    UpToDate | Synced | NotServed nat | SliceOutOfRange | Reorganised | Declined
  | WrongHeight nat nat | BadSignatures block_error

text \<open>
  \<^verbatim>\<open>&s[..n]\<close> panics unless the byte at \<open>n\<close> starts a character. The log message of a fork slices
  the hash that the peer's block names; the slices of digests computed here never fail.
\<close>

definition can_slice_to :: "string \<Rightarrow> nat \<Rightarrow> bool" where
  "can_slice_to s n \<longleftrightarrow> n = length s \<or> n < length s \<and> \<not> (128 \<le> (of_char (s ! n) :: nat) \<and> (of_char (s ! n) :: nat) < 192)"

record peers =
  reported_tips :: "nat option list"
  serve :: fetch
  serve_ancestor :: fetch
  serve_branch :: fetch

fun sync_loop ::
    "env \<Rightarrow> peers \<Rightarrow> datetime \<Rightarrow> string \<Rightarrow> string \<Rightarrow> nat \<Rightarrow> string \<Rightarrow> nat list \<Rightarrow> node_state \<Rightarrow> sync_outcome \<times> node_state" where
  "sync_loop c ps now i ts peer_height prev [] st = (Synced, st)"
| "sync_loop c ps now i ts peer_height prev (h # hs) st =
     (case serve ps h of
        None \<Rightarrow> (NotServed h, st)
      | Some b \<Rightarrow>
          if prev_hash (header b) \<noteq> prev then
            if \<not> can_slice_to (prev_hash (header b)) 12 then (SliceOutOfRange, st)
            else
              (case attempt_reorg_recovery c (serve_ancestor ps) (serve_branch ps) now i ts (h - 1) peer_height st of
                 (applied, st') \<Rightarrow> (if applied then Reorganised else Declined, st'))
          else if height (header b) \<noteq> h then (WrongHeight (height (header b)) h, st)
          else
            (case verify_block_signatures c b (effective_set st (height (header b))) of
               Inl e \<Rightarrow> (BadSignatures e, st)
             | Inr _ \<Rightarrow>
                 sync_loop c ps now i ts peer_height (block_hash_of c b) hs
                   (st\<lparr> node_chain := insert_block c b (node_chain st),
                        publishers := apply_block now b (publishers st) \<rparr>)))"

definition peer_tip :: "peers \<Rightarrow> nat" where
  "peer_tip ps = foldl (\<lambda>m t. case t of None \<Rightarrow> m | Some h \<Rightarrow> max m h) 0 (reported_tips ps)"

definition sync_once ::
    "env \<Rightarrow> peers \<Rightarrow> datetime \<Rightarrow> string \<Rightarrow> string \<Rightarrow> node_state \<Rightarrow> sync_outcome \<times> node_state" where
  "sync_once c ps now i ts st =
     (let our_height = tip_height (node_chain st); peer_height = peer_tip ps in
      if peer_height \<le> our_height then (UpToDate, st)
      else sync_loop c ps now i ts peer_height (tip_hash c (node_chain st)) [our_height + 1..<peer_height + 1] st)"

section \<open>What an accepted record carries\<close>

lemma gossip_message_same: "gossip_vote_message = canonical_vote_message"
  by (intro ext) (simp add: gossip_vote_message_def canonical_vote_message_def)

text \<open>A signature that counts: an approval of consensus grade by a known key, with a valid signature.\<close>

definition sig_key :: "validator_signature \<Rightarrow> string" where
  "sig_key sg = to_ascii_lowercase (vs_validator_pubkey sg)"

definition counts :: "'a crypto_scheme \<Rightarrow> string set \<Rightarrow> chain_record \<Rightarrow> validator_signature \<Rightarrow> bool" where
  "counts c known r sg \<longleftrightarrow> vote sg = Approve \<and> sig_key sg \<in> known \<and> record_signature_valid c r sg \<and>
     is_consensus_grade_vote (vs_model_version sg) (vs_analysis_bundles sg) (vs_evidence_digest sg)"

definition group_size :: "(string, nat) hash_map \<Rightarrow> string \<Rightarrow> nat" where
  "group_size groups k = (case hm_get groups k of None \<Rightarrow> 0 | Some n \<Rightarrow> n)"

definition groups_of :: "'a crypto_scheme \<Rightarrow> (string, nat) hash_map \<Rightarrow> validator_signature list \<Rightarrow> bool" where
  "groups_of c groups cs \<longleftrightarrow>
     (\<forall>k. group_size groups k = count_where (\<lambda>sg. sig_profile_key c sg = k) cs)"

lemma groups_of_snoc:
  assumes "groups_of c groups cs"
  shows "groups_of c (hm_insert (sig_profile_key c sg) (group_size groups (sig_profile_key c sg) + 1) groups) (cs @ [sg])"
  using assms by (simp add: groups_of_def group_size_def update_conv')

lemma approval_groups_counted:
  assumes "groups_of c groups cs" and "distinct (map sig_key cs)" and "sig_key ` set cs \<subseteq> seen"
    and "\<forall>sg \<in> set cs. counts c known r sg" and "hm_ok groups"
  shows "\<exists>cs'. groups_of c (approval_groups c known r seen groups sgs) cs' \<and> distinct (map sig_key cs') \<and>
    set cs' \<subseteq> set cs \<union> set sgs \<and> (\<forall>sg \<in> set cs'. counts c known r sg) \<and>
    hm_ok (approval_groups c known r seen groups sgs)"
  using assms
proof (induction sgs arbitrary: seen groups cs)
  case Nil
  then show ?case by auto
next
  case (Cons sg sgs)
  let ?rest = "\<lambda>seen groups. approval_groups c known r seen groups sgs"
  let ?groups = "hm_insert (sig_profile_key c sg) (group_size groups (sig_profile_key c sg) + 1) groups"
  have skip: ?case if "approval_groups c known r seen groups (sg # sgs) = ?rest seen' groups" "seen \<subseteq> seen'" for seen'
    using Cons.IH [of groups cs seen'] Cons.prems that by auto blast
  show ?case
  proof (cases "counts c known r sg \<and> sig_key sg \<notin> seen")
    case True
    have eq: "approval_groups c known r seen groups (sg # sgs) = ?rest (insert (sig_key sg) seen) ?groups"
      using True by (simp add: counts_def sig_key_def group_size_def Let_def)
    have "\<exists>cs'. groups_of c (?rest (insert (sig_key sg) seen) ?groups) cs' \<and> distinct (map sig_key cs') \<and>
        set cs' \<subseteq> set (cs @ [sg]) \<union> set sgs \<and> (\<forall>sg \<in> set cs'. counts c known r sg) \<and>
        hm_ok (?rest (insert (sig_key sg) seen) ?groups)"
      using Cons.prems True by (intro Cons.IH groups_of_snoc) auto
    then show ?thesis unfolding eq by auto
  next
    case False
    then have "approval_groups c known r seen groups (sg # sgs) = ?rest seen groups \<or>
        approval_groups c known r seen groups (sg # sgs) = ?rest (insert (sig_key sg) seen) groups"
      by (auto simp: counts_def sig_key_def Let_def)
    then show ?thesis using skip [of seen] skip [of "insert (sig_key sg) seen"] by blast
  qed
qed

lemma foldr_max_attained: "0 < foldr max xs (0 :: nat) \<Longrightarrow> foldr max xs 0 \<in> set xs"
  by (induction xs) (auto simp: max_def)

lemma valid_approvals_sound:
  assumes "0 < valid_approvals c known r"
  shows "\<exists>cs k. valid_approvals c known r = length cs \<and> distinct (map sig_key cs) \<and>
    set cs \<subseteq> set (validator_signatures r) \<and> (\<forall>sg \<in> set cs. counts c known r sg \<and> sig_profile_key c sg = k)"
proof -
  let ?g = "approval_groups c known r {} [] (validator_signatures r)"
  obtain cs where cs: "groups_of c ?g cs" "distinct (map sig_key cs)" "set cs \<subseteq> set (validator_signatures r)"
    "\<forall>sg \<in> set cs. counts c known r sg" "hm_ok ?g"
    using approval_groups_counted [of c "[]" "[]" "{}" known r "validator_signatures r"]
    by (auto simp: groups_of_def group_size_def)
  have "valid_approvals c known r \<in> set (hm_values ?g)"
    using assms foldr_max_attained unfolding valid_approvals_def by blast
  then obtain k where "(k, valid_approvals c known r) \<in> set ?g" by auto
  then have "group_size ?g k = valid_approvals c known r"
    using cs(5) by (simp add: group_size_def hm_ok_def map_of_eq_Some_iff)
  then have "valid_approvals c known r = length (filter (\<lambda>sg. sig_profile_key c sg = k) cs)"
    using cs(1) by (simp add: groups_of_def count_where_def)
  moreover have "distinct (map sig_key (filter (\<lambda>sg. sig_profile_key c sg = k) cs))"
    using cs(2) by (rule distinct_map_filter)
  ultimately show ?thesis
    using cs(3,4) by (intro exI [of _ "filter (\<lambda>sg. sig_profile_key c sg = k) cs"] exI [of _ k]) auto
qed

lemma verify_records_ok:
  "verify_records c known n quorum idx txs = Inr () \<longleftrightarrow>
     (\<forall>r. Publish r \<in> set txs \<longrightarrow> quorum \<le> valid_approvals c known r)"
  by (induction c known n quorum idx txs rule: verify_records.induct) (auto simp: Let_def not_less)

text \<open>
  C34. Synchronised packages have reached consensus: in a block after genesis that passes the
  check against a validator set, every record published carries valid approving signatures
  of more than two thirds of the set, made with different keys of the set, over this package
  and content hash, and all under one scanner profile and evidence digest.
\<close>

theorem synced_record_quorum:
  assumes "verify_block_signatures c b vs = Inr ()" and "height (header b) \<noteq> 0" and "Publish r \<in> set (transactions b)"
  shows "\<exists>cs k. 2 * length vs < 3 * length cs \<and> distinct (map sig_key cs) \<and> set cs \<subseteq> set (validator_signatures r) \<and>
    (\<forall>sg \<in> set cs. counts c ((\<lambda>v. to_ascii_lowercase (v_pubkey v)) ` set vs) r sg \<and> sig_profile_key c sg = k)"
proof -
  have n: "0 < length vs" using assms(1,2) by (auto simp: verify_block_signatures_def split: if_splits)
  then have q: "2 * length vs div 3 + 1 \<le> valid_approvals c ((\<lambda>v. to_ascii_lowercase (v_pubkey v)) ` set vs) r"
    using assms by (simp add: verify_block_signatures_def verify_records_ok)
  with vq.two_thirds [OF n]
  have gt: "2 * length vs < 3 * valid_approvals c ((\<lambda>v. to_ascii_lowercase (v_pubkey v)) ` set vs) r" by linarith
  then show ?thesis using valid_approvals_sound [of c "(\<lambda>v. to_ascii_lowercase (v_pubkey v)) ` set vs" r] by fastforce
qed

definition demo_synced_record :: chain_record where
  "demo_synced_record = (demo_record ''lib'' ''1'')\<lparr> validator_signatures := [demo_sig ''a''] \<rparr>"

definition demo_synced :: block where
  "demo_synced = demo_proposal\<lparr> transactions := [Publish demo_synced_record] \<rparr>"

definition demo_synced_validators :: "validator list" where
  "demo_synced_validators = [demo_member (replicate 32 (CHR ''k''))]"

lemma demo_synced_header: "height (header demo_synced) = 1" "prev_hash (header demo_synced) = replicate 64 (CHR ''0'')"
  by (simp_all add: demo_synced_def)

lemma demo_sig_valid: "record_signature_valid accepting_env r (demo_sig i)"
  by (simp add: record_signature_valid_def accepting_env_def)

lemma demo_synced_passes: "verify_block_signatures accepting_env demo_synced demo_synced_validators = Inr ()"
proof -
  have "is_consensus_grade_vote (vs_model_version (demo_sig ''a'')) (vs_analysis_bundles (demo_sig ''a''))
      (vs_evidence_digest (demo_sig ''a''))"
    using demo_sig_profile [of demo_env "''a''"] by (simp add: consensus_profile_key_def split: if_splits)
  moreover have "vs_validator_pubkey (demo_sig ''a'') = replicate 32 (CHR ''k'')" "vote (demo_sig ''a'') = Approve"
    by (simp_all add: demo_sig_def validator_signature_of_def demo_incoming_def)
  ultimately have "valid_approvals accepting_env {to_ascii_lowercase (replicate 32 (CHR ''k''))} demo_synced_record = 1"
    using demo_sig_valid by (simp add: valid_approvals_def demo_synced_record_def Let_def)
  then show ?thesis
    by (simp add: verify_block_signatures_def verify_records_ok demo_synced_validators_def demo_member_def)
      (simp add: demo_synced_def)
qed

theorem synced_record_quorum_witness:
  "\<exists>cs. 2 * 1 < 3 * length cs \<and> set cs \<subseteq> {demo_sig ''a''}"
  using synced_record_quorum [OF demo_synced_passes, of demo_synced_record]
  by (auto simp: demo_synced_header demo_synced_validators_def demo_synced_record_def) (auto simp: demo_synced_def demo_synced_record_def)

lemma index_block_last_revoke:
  assumes "hm_get pkgs can = Some r"
  shows "hm_get (index_block c (b\<lparr> transactions := transactions b @ [Revoke can reason x y] \<rparr>) pkgs) can =
    Some (r\<lparr> status := Revoked reason \<rparr>)"
  using assms by (simp add: index_block_def apply_puts_def update_conv')

text \<open>
  Nothing covers the transactions that publish no package: appending a revocation of any
  package to a block that passes leaves the block's hash and the outcome of the check as they
  were, and inserting the block revokes the package.
\<close>

lemma unsigned_revocation_applied:
  assumes "verify_block_signatures c b vs = Inr ()" and "get_package s can = Some r"
  shows "verify_block_signatures c (b\<lparr> transactions := transactions b @ [Revoke can reason x y] \<rparr>) vs = Inr () \<and>
    block_hash_of c (b\<lparr> transactions := transactions b @ [Revoke can reason x y] \<rparr>) = block_hash_of c b \<and>
    get_package (insert_block c (b\<lparr> transactions := transactions b @ [Revoke can reason x y] \<rparr>) s) can =
      Some (r\<lparr> status := Revoked reason \<rparr>)"
  using assms index_block_last_revoke [of "packages s" can r c b reason x y]
  by (auto simp: verify_block_signatures_def verify_records_ok block_hash_of_def get_package_def split: if_splits)

lemma unsigned_revocation_applied_witness:
  "get_package (insert_block accepting_env
     (demo_synced\<lparr> transactions := transactions demo_synced @ [Revoke ''npm:lib@1'' ''spite'' ''x'' ''y''] \<rparr>)
     (save_package (demo_record ''lib'' ''1'') empty_chain)) ''npm:lib@1'' =
   Some ((demo_record ''lib'' ''1'')\<lparr> status := Revoked ''spite'' \<rparr>)"
  using unsigned_revocation_applied [OF demo_synced_passes, of "save_package (demo_record ''lib'' ''1'') empty_chain"
      "''npm:lib@1''" "demo_record ''lib'' ''1''" "''spite''" "''x''" "''y''"]
  by (simp add: get_package_def save_package_def empty_chain_def demo_record_def canonical_def)

section \<open>Linked chains\<close>

text \<open>Every block names the hash of the block before it.\<close>

definition linked_blocks :: "env \<Rightarrow> block list \<Rightarrow> bool" where
  "linked_blocks c bs \<longleftrightarrow> (\<forall>i. Suc i < length bs \<longrightarrow> prev_hash (header (bs ! Suc i)) = block_hash_of c (bs ! i))"

lemma linked_snoc:
  assumes "linked_blocks c bs" and "bs \<noteq> []" and "prev_hash (header b) = block_hash_of c (last bs)"
  shows "linked_blocks c (bs @ [b])"
  unfolding linked_blocks_def
proof (intro allI impI)
  fix i assume "Suc i < length (bs @ [b])"
  then consider "Suc i < length bs" | "Suc i = length bs" by fastforce
  then show "prev_hash (header ((bs @ [b]) ! Suc i)) = block_hash_of c ((bs @ [b]) ! i)"
  proof cases
    case 1
    then show ?thesis using assms(1) by (simp add: linked_blocks_def nth_append)
  next
    case 2
    then have "bs ! i = last bs" using assms(2) by (metis diff_Suc_1 last_conv_nth)
    with 2 show ?thesis using assms(3) by (auto simp: nth_append)
  qed
qed

lemma linked_take: "linked_blocks c bs \<Longrightarrow> linked_blocks c (take n bs)"
  by (simp add: linked_blocks_def)

text \<open>The blocks in the store, and that no two blocks of different heights share a hash.\<close>

definition stored_blocks :: "chain_store \<Rightarrow> block set" where
  "stored_blocks s = {b. \<exists>h. get_block_by_hash s h = Some b}"

definition hashes_separate :: "env \<Rightarrow> block set \<Rightarrow> bool" where
  "hashes_separate c B \<longleftrightarrow>
     (\<forall>b \<in> B. \<forall>b' \<in> B. block_hash_of c b = block_hash_of c b' \<longrightarrow> height (header b) = height (header b'))"

definition served :: "fetch \<Rightarrow> block set" where
  "served fetch = {b. \<exists>h. fetch h = Some b}"

lemma hashes_separate_mono: "hashes_separate c B \<Longrightarrow> A \<subseteq> B \<Longrightarrow> hashes_separate c A"
  by (auto simp: hashes_separate_def)

lemma separate_fresh:
  assumes "hashes_separate c B" and "b \<in> B" and "stored_blocks s \<subseteq> B" and "chain_inv c s"
  shows "fresh_hash c b s"
proof (cases "get_block_by_hash s (block_hash_of c b)")
  case (Some b')
  then have "b' \<in> B" using assms(3) by (auto simp: stored_blocks_def)
  moreover have "block_hash_of c b' = block_hash_of c b"
    using chain_inv_hash [OF assms(4)] Some by (simp add: get_block_by_hash_def)
  ultimately have "height (header b') = height (header b)"
    using assms(1,2) unfolding hashes_separate_def by blast
  with Some show ?thesis by (simp add: fresh_hash_def)
qed (simp add: fresh_hash_def)

lemma stored_insert: "stored_blocks (insert_block c b s) \<subseteq> insert b (stored_blocks s)"
  by (auto simp: stored_blocks_def get_block_by_hash_def update_conv' split: if_splits)

lemma stored_rollback: "stored_blocks (snd (rollback_to_height h s)) = stored_blocks s"
  by (simp add: stored_blocks_def get_block_by_hash_def)

lemma stored_packages [simp]: "stored_blocks (s\<lparr> packages := p \<rparr>) = stored_blocks s"
  by (simp add: stored_blocks_def get_block_by_hash_def)

lemma holds_packages: "hm_ok p \<Longrightarrow> holds_chain c bs s \<Longrightarrow> holds_chain c bs (s\<lparr> packages := p \<rparr>)"
  by (auto simp: holds_chain_def chain_inv_def get_block_by_height_def get_block_by_hash_def cong: option.case_cong)

lemma index_of_ok: "hm_ok (index_of c bs)"
  by (induction bs rule: rev_induct) (simp_all add: index_of_snoc index_block_def, simp add: index_of_def)

lemma holds_insert_all:
  assumes "holds_chain c bs s" and "hashes_separate c B" and "set branch \<subseteq> B" and "stored_blocks s \<subseteq> B"
    and "\<forall>i < length branch. height (header (branch ! i)) = length bs + i"
  shows "holds_chain c (bs @ branch) (foldl (\<lambda>s b. insert_block c b s) s branch)"
  using assms
proof (induction branch arbitrary: bs s)
  case (Cons b branch)
  have inv: "chain_inv c s" using Cons.prems(1) by (simp add: holds_chain_def)
  have "height (header b) = length bs" using Cons.prems(5) by force
  then have ins: "holds_chain c (bs @ [b]) (insert_block c b s)"
    using Cons.prems separate_fresh [OF Cons.prems(2) _ Cons.prems(4) inv] by (intro holds_insert) simp_all
  have "height (header (branch ! i)) = length (bs @ [b]) + i" if "i < length branch" for i
    using Cons.prems(5) [rule_format, of "Suc i"] that by simp
  moreover have "stored_blocks (insert_block c b s) \<subseteq> B"
    using stored_insert [of c b s] Cons.prems(3,4) by auto
  moreover have "set branch \<subseteq> B" using Cons.prems(3) by simp
  ultimately have "holds_chain c ((bs @ [b]) @ branch) (foldl (\<lambda>s b. insert_block c b s) (insert_block c b s) branch)"
    by (intro Cons.IH [OF ins Cons.prems(2)]) blast+
  then show ?case by simp
qed simp

section \<open>Recovery\<close>

lemma find_ancestor_Some:
  "find_ancestor c fetch s ks = Some (k, x) \<Longrightarrow>
     k \<in> set ks \<and> (\<exists>b. get_block_by_height s k = Some b \<and> x = block_hash_of c b)"
  by (induction c fetch s ks rule: find_ancestor.induct) (auto split: option.splits if_splits)

text \<open>A branch that continues from a hash at a height, every block of it verified.\<close>

definition verified_branch :: "env \<Rightarrow> node_state \<Rightarrow> nat \<Rightarrow> string \<Rightarrow> block list \<Rightarrow> bool" where
  "verified_branch c st h link branch \<longleftrightarrow>
     (\<forall>i < length branch. height (header (branch ! i)) = h + i \<and>
        prev_hash (header (branch ! i)) = (if i = 0 then link else block_hash_of c (branch ! (i - 1))) \<and>
        verify_block_signatures c (branch ! i) (effective_set st (h + i)) = Inr ())"

lemma verified_branch_Cons:
  "verified_branch c st h link (b # branch) \<longleftrightarrow>
     height (header b) = h \<and> prev_hash (header b) = link \<and> verify_block_signatures c b (effective_set st h) = Inr () \<and>
     verified_branch c st (Suc h) (block_hash_of c b) branch"
  by (auto simp: verified_branch_def less_Suc_eq_0_disj nth_Cons' split: if_splits)

lemma fetch_branch_Some:
  "fetch_branch c fetch st link [h..<h + n] = Some (branch, tip) \<Longrightarrow>
     length branch = n \<and> set branch \<subseteq> served fetch \<and> verified_branch c st h link branch \<and>
     tip = (if branch = [] then link else block_hash_of c (last branch))"
proof (induction n arbitrary: h link branch)
  case 0
  then show ?case by (simp add: verified_branch_def)
next
  case (Suc n)
  have upt: "[h..<h + Suc n] = h # [Suc h..<Suc h + n]" by (simp add: upt_rec)
  from Suc.prems obtain b rest where b: "fetch h = Some b" "height (header b) = h" "prev_hash (header b) = link"
    "verify_block_signatures c b (effective_set st h) = Inr ()"
    and rest: "fetch_branch c fetch st (block_hash_of c b) [Suc h..<Suc h + n] = Some (rest, tip)" "branch = b # rest"
    unfolding upt by (auto split: option.splits if_splits sum.splits)
  from Suc.IH [OF rest(1)] have IH: "length rest = n" "set rest \<subseteq> served fetch"
    "verified_branch c st (Suc h) (block_hash_of c b) rest"
    "tip = (if rest = [] then block_hash_of c b else block_hash_of c (last rest))" by auto
  then have "verified_branch c st h link (b # rest)" using b by (simp add: verified_branch_Cons)
  then show ?case using IH b(1) rest(2) by (auto simp: served_def)
qed

lemma linked_append_branch:
  assumes "linked_blocks c bs" and "bs \<noteq> []" and "verified_branch c st h (block_hash_of c (last bs)) branch"
  shows "linked_blocks c (bs @ branch)"
  using assms
proof (induction branch arbitrary: bs h)
  case (Cons b branch)
  then have "linked_blocks c (bs @ [b])" by (intro linked_snoc) (simp_all add: verified_branch_Cons)
  then have "linked_blocks c ((bs @ [b]) @ branch)"
    by (rule Cons.IH [of _ "Suc h"]) (use Cons.prems(3) in \<open>simp_all add: verified_branch_Cons\<close>)
  then show ?case by simp
qed simp

lemma map_filter_get:
  assumes "holds_chain c bs s" and "bs \<noteq> []"
  shows "List.map_filter (get_block_by_height s) [0..<tip_height s + 1] = bs"
proof -
  have "tip_height s + 1 = length bs" using holds_tip [OF assms] assms(2) by simp
  moreover have "List.map_filter (get_block_by_height s) [0..<k] = take k bs" if "k \<le> length bs" for k
    using that
    by (induction k) (simp_all add: map_filter_def holds_get [OF assms(1)] take_Suc_conv_app_nth)
  ultimately show ?thesis by simp
qed

lemma adopt_branch_holds:
  assumes holds: "holds_chain c bs (node_chain st)" and k: "k < length bs"
    and sep: "hashes_separate c B" "set branch \<subseteq> B" "stored_blocks (node_chain st) \<subseteq> B"
    and heights: "\<forall>i < length branch. height (header (branch ! i)) = Suc k + i"
  shows "holds_chain c (take (Suc k) bs @ branch) (node_chain (adopt_branch c now i ts local_tip k branch link st)) \<and>
    packages (node_chain (adopt_branch c now i ts local_tip k branch link st)) = index_of c (take (Suc k) bs @ branch) \<and>
    publishers (adopt_branch c now i ts local_tip k branch link st) =
      rebuild_from_chain now (take (Suc k) bs @ branch) publisher_index_new \<and>
    stored_blocks (node_chain (adopt_branch c now i ts local_tip k branch link st)) =
      stored_blocks (foldl (\<lambda>s b. insert_block c b s) (snd (rollback_to_height k (node_chain st))) branch)"
proof -
  let ?new = "take (Suc k) bs @ branch"
  let ?s = "foldl (\<lambda>s b. insert_block c b s) (snd (rollback_to_height k (node_chain st))) branch"
  have "holds_chain c ?new ?s"
    by (rule holds_insert_all [OF holds_rollback [OF holds k] sep(1,2)])
      (use k heights sep(3) in \<open>auto simp: stored_rollback min_def\<close>)
  moreover have ne: "?new \<noteq> []" using k by auto
  ultimately have re: "rebuild_package_index c ?s = ?s\<lparr> packages := index_of c ?new \<rparr>"
    and new: "holds_chain c ?new (?s\<lparr> packages := index_of c ?new \<rparr>)"
    using rebuild_holds holds_packages [OF index_of_ok] by blast+
  show ?thesis
    using new map_filter_get [OF new ne]
    by (simp add: adopt_branch_def Let_def split_def re record_reorg_def rebuild_fresh [of now _ "publishers st"] del: upt_Suc)
qed

lemma reorg_recovery_sound_lemma:
  assumes rec: "attempt_reorg_recovery c fa fb now i ts local_tip peer_height st = (applied, st')"
    and holds: "holds_chain c bs (node_chain st)" and tip: "Suc local_tip = length bs" and link: "linked_blocks c bs"
    and sep: "hashes_separate c (stored_blocks (node_chain st) \<union> served fb)"
  shows "if applied then
      \<exists>k branch. k \<le> local_tip \<and> local_tip \<le> k + max_reorg_depth \<and> local_tip < peer_height \<and>
        length (take (Suc k) bs @ branch) = Suc peer_height \<and>
        holds_chain c (take (Suc k) bs @ branch) (node_chain st') \<and> linked_blocks c (take (Suc k) bs @ branch) \<and>
        verified_branch c st (Suc k) (block_hash_of c (bs ! k)) branch \<and>
        packages (node_chain st') = index_of c (take (Suc k) bs @ branch) \<and>
        publishers st' = rebuild_from_chain now (take (Suc k) bs @ branch) publisher_index_new
    else st' = st"
proof (cases applied)
  case True
  let ?ks = "rev [local_tip - max_reorg_depth..<local_tip + 1]"
  from rec True obtain k x branch link where anc: "find_ancestor c fa (node_chain st) ?ks = Some (k, x)"
    and br: "fetch_branch c fb st x [k + 1..<peer_height + 1] = Some (branch, link)"
    and longer: "local_tip < k + length branch"
    and st': "st' = adopt_branch c now i ts local_tip k branch link st"
    by (auto simp: attempt_reorg_recovery_def not_le split: option.splits prod.splits if_splits)
  from find_ancestor_Some [OF anc] have k: "local_tip - max_reorg_depth \<le> k" "k \<le> local_tip"
    and x: "x = block_hash_of c (bs ! k)"
    using holds_get [OF holds, of k] tip by auto
  have n: "peer_height + 1 = k + 1 + (peer_height - k)"
    using br longer k by (cases "k \<le> peer_height") auto
  from fetch_branch_Some [OF br [unfolded n]] have branch: "length branch = peer_height - k" "set branch \<subseteq> served fb"
    "verified_branch c st (Suc k) x branch" by simp_all
  have kb: "k < length bs" using k tip by simp
  have heights: "\<forall>i < length branch. height (header (branch ! i)) = Suc k + i"
    using branch(3) by (simp add: verified_branch_def)
  have "last (take (Suc k) bs) = bs ! k" "take (Suc k) bs \<noteq> []"
    using kb by (auto simp: take_Suc_conv_app_nth)
  then have lnk: "linked_blocks c (take (Suc k) bs @ branch)"
    by (intro linked_append_branch [OF linked_take [OF link]]) (use branch(3) x in simp_all)
  have "\<exists>k branch. k \<le> local_tip \<and> local_tip \<le> k + max_reorg_depth \<and> local_tip < peer_height \<and>
      length (take (Suc k) bs @ branch) = Suc peer_height \<and>
      holds_chain c (take (Suc k) bs @ branch) (node_chain st') \<and> linked_blocks c (take (Suc k) bs @ branch) \<and>
      verified_branch c st (Suc k) (block_hash_of c (bs ! k)) branch \<and>
      packages (node_chain st') = index_of c (take (Suc k) bs @ branch) \<and>
      publishers st' = rebuild_from_chain now (take (Suc k) bs @ branch) publisher_index_new"
  proof (intro exI conjI)
    show "k \<le> local_tip" "local_tip \<le> k + max_reorg_depth" "local_tip < peer_height"
      using k longer branch(1) by linarith+
    show "length (take (Suc k) bs @ branch) = Suc peer_height" using kb branch(1) n by simp
    show "verified_branch c st (Suc k) (block_hash_of c (bs ! k)) branch" using branch(3) x by simp
  qed (use adopt_branch_holds [OF holds kb sep _ _ heights, of now i ts local_tip link] branch(2) lnk st' in blast)+
  with True show ?thesis by simp
next
  case False
  with rec show ?thesis
    by (auto simp: attempt_reorg_recovery_def split: option.splits prod.splits if_splits)
qed

text \<open>
  C33. Recovery from a fork is safe: it either leaves the node as it was, or it finds a block of
  the own chain at most 64 blocks below the tip, keeps the chain up to it, and continues it to
  the peers' tip with a branch that is strictly longer than the part given up, in which every
  block names the block before it and passes the signature check of its height. The package
  index and the publisher index are then those of the new chain.
\<close>

theorem reorg_recovery_sound:
  assumes rec: "attempt_reorg_recovery c fa fb now i ts local_tip peer_height st = (applied, st')"
    and holds: "holds_chain c bs (node_chain st)" and tip: "Suc local_tip = length bs" and link: "linked_blocks c bs"
    and sep: "hashes_separate c (stored_blocks (node_chain st) \<union> served fb)"
  shows "if applied then
      \<exists>k branch. k \<le> local_tip \<and> local_tip \<le> k + max_reorg_depth \<and> local_tip < peer_height \<and>
        length (take (Suc k) bs @ branch) = Suc peer_height \<and>
        holds_chain c (take (Suc k) bs @ branch) (node_chain st') \<and> linked_blocks c (take (Suc k) bs @ branch) \<and>
        verified_branch c st (Suc k) (block_hash_of c (bs ! k)) branch \<and>
        packages (node_chain st') = index_of c (take (Suc k) bs @ branch) \<and>
        publishers st' = rebuild_from_chain now (take (Suc k) bs @ branch) publisher_index_new
    else st' = st"
  by (rule reorg_recovery_sound_lemma [OF assms])

section \<open>Every sync keeps the chain linked\<close>

text \<open>
  The invariant of a node: its store holds a linked chain, and its publisher index is the one
  that replaying this chain gives, up to the days that depend on the clock.
\<close>

definition node_inv :: "env \<Rightarrow> block list \<Rightarrow> node_state \<Rightarrow> bool" where
  "node_inv c bs st \<longleftrightarrow> bs \<noteq> [] \<and> holds_chain c bs (node_chain st) \<and> linked_blocks c bs \<and>
     clear_days (publishers st) = clear_days (rebuild_from_chain 0 bs publisher_index_new)"

definition synced_block :: "env \<Rightarrow> datetime \<Rightarrow> block \<Rightarrow> node_state \<Rightarrow> node_state" where
  "synced_block c now b st =
     st\<lparr> node_chain := insert_block c b (node_chain st), publishers := apply_block now b (publishers st) \<rparr>"

lemma synced_block_sets [simp]: "effective_set (synced_block c now b st) h = effective_set st h"
  by (simp add: synced_block_def effective_set_def cong: option.case_cong)

lemma verified_branch_sets:
  "effective_set st = effective_set st' \<Longrightarrow> verified_branch c st h l br = verified_branch c st' h l br"
  by (simp add: verified_branch_def)

lemma node_inv_synced_block:
  assumes "node_inv c bs st" and "hashes_separate c B" and "b \<in> B" and "stored_blocks (node_chain st) \<subseteq> B"
    and "height (header b) = length bs" and "prev_hash (header b) = block_hash_of c (last bs)"
  shows "node_inv c (bs @ [b]) (synced_block c now b st)" and "stored_blocks (node_chain (synced_block c now b st)) \<subseteq> B"
proof -
  have inv: "chain_inv c (node_chain st)" using assms(1) by (simp add: node_inv_def holds_chain_def)
  note fresh = separate_fresh [OF assms(2-4) inv]
  show "node_inv c (bs @ [b]) (synced_block c now b st)"
    using assms(1,5,6) holds_insert [OF _ fresh] linked_snoc
    by (simp add: node_inv_def synced_block_def rebuild_snoc clear_days_cong)
  show "stored_blocks (node_chain (synced_block c now b st)) \<subseteq> B"
    using stored_insert [of c b "node_chain st"] assms(3,4) by (auto simp: synced_block_def)
qed

lemma recovery_keeps_inv:
  assumes rec: "attempt_reorg_recovery c fa fb now i ts (length bs - 1) peer_height st = (applied, st')"
    and inv: "node_inv c bs st" and sep: "hashes_separate c (stored_blocks (node_chain st) \<union> served fb)"
  shows "if applied then \<exists>bs'. node_inv c bs' st' \<and> length bs' = Suc peer_height \<and> length bs < length bs' else st' = st"
proof -
  have tip: "Suc (length bs - 1) = length bs" and holds: "holds_chain c bs (node_chain st)" and link: "linked_blocks c bs"
    using inv by (auto simp: node_inv_def)
  note sound = reorg_recovery_sound_lemma [OF rec holds tip link sep]
  show ?thesis
  proof (cases applied)
    case True
    with sound obtain k branch where new: "holds_chain c (take (Suc k) bs @ branch) (node_chain st')"
      "linked_blocks c (take (Suc k) bs @ branch)" "length (take (Suc k) bs @ branch) = Suc peer_height"
      "publishers st' = rebuild_from_chain now (take (Suc k) bs @ branch) publisher_index_new"
      "length bs - 1 < peer_height" by auto
    have "node_inv c (take (Suc k) bs @ branch) st'"
      unfolding node_inv_def new(4) using new(1-3) clear_days_rebuild [of now _ 0] by (auto simp del: length_append)
    moreover have "length bs < length (take (Suc k) bs @ branch)" using new(3,5) tip by linarith
    ultimately show ?thesis using True new(3) by auto
  next
    case False
    with sound show ?thesis by simp
  qed
qed

text \<open>One iteration of the loop, with the blocks written over the list that the store holds.\<close>

lemma sync_loop_sound:
  assumes "sync_loop c ps now i ts peer_height (block_hash_of c (last bs)) [length bs..<length bs + n] st = (out, st')"
    and "node_inv c bs st" and "hashes_separate c B" and "served (serve ps) \<subseteq> B" and "served (serve_branch ps) \<subseteq> B"
    and "stored_blocks (node_chain st) \<subseteq> B" and "peer_height + 1 = length bs + n"
  shows "\<exists>bs'. node_inv c bs' st' \<and> length bs \<le> length bs' \<and> (out = Synced \<longrightarrow> length bs' = Suc peer_height) \<and>
    (out \<noteq> Reorganised \<longrightarrow> (\<exists>ext. bs' = bs @ ext \<and> verified_branch c st (length bs) (block_hash_of c (last bs)) ext))"
  using assms
proof (induction n arbitrary: bs st)
  case 0
  then show ?case by (intro exI [of _ bs]) (auto simp: verified_branch_def)
next
  case (Suc n)
  have upt: "[length bs..<length bs + Suc n] = length bs # [Suc (length bs)..<Suc (length bs) + n]" by (simp add: upt_rec)
  have stay: ?case if "st' = st" "out \<noteq> Synced"
    using that Suc.prems(2) by (intro exI [of _ bs]) (auto simp: verified_branch_def)
  show ?case
  proof (cases "serve ps (length bs)")
    case None
    then show ?thesis using Suc.prems(1) unfolding upt by (intro stay) auto
  next
    case (Some b)
    have bB: "b \<in> B" using Suc.prems(4) Some by (auto simp: served_def)
    consider (fork) "prev_hash (header b) \<noteq> block_hash_of c (last bs)"
      | (height) "prev_hash (header b) = block_hash_of c (last bs)" "height (header b) \<noteq> length bs"
      | (sigs) e where "prev_hash (header b) = block_hash_of c (last bs)" "height (header b) = length bs"
          "verify_block_signatures c b (effective_set st (length bs)) = Inl e"
      | (good) "prev_hash (header b) = block_hash_of c (last bs)" "height (header b) = length bs"
          "verify_block_signatures c b (effective_set st (length bs)) = Inr ()"
      by (cases "verify_block_signatures c b (effective_set st (length bs))") auto
    then show ?thesis
    proof cases
      case fork
      obtain applied st2 where rec: "attempt_reorg_recovery c (serve_ancestor ps) (serve_branch ps) now i ts
          (length bs - 1) peer_height st = (applied, st2)" by fastforce
      have sep: "hashes_separate c (stored_blocks (node_chain st) \<union> served (serve_branch ps))"
        using Suc.prems(3,5,6) by (auto simp: hashes_separate_def)
      note sound = recovery_keeps_inv [OF rec Suc.prems(2) sep]
      show ?thesis
      proof (cases "can_slice_to (prev_hash (header b)) 12 \<and> applied")
        case True
        then have st': "st' = st2" "out = Reorganised" using Suc.prems(1) fork Some rec unfolding upt by auto
        from sound True obtain bs' where "node_inv c bs' st2" "length bs < length bs'" by auto
        then show ?thesis using st' by (intro exI [of _ bs']) auto
      next
        case False
        then have "st2 = st" if "can_slice_to (prev_hash (header b)) 12" using sound that by simp
        with False show ?thesis using Suc.prems(1) fork Some rec unfolding upt by (intro stay) (auto split: if_splits)
      qed
    next
      case height
      then show ?thesis using Suc.prems(1) Some unfolding upt by (intro stay) auto
    next
      case sigs
      then show ?thesis using Suc.prems(1) Some unfolding upt by (intro stay) auto
    next
      case good
      let ?st = "synced_block c now b st"
      have loop: "sync_loop c ps now i ts peer_height (block_hash_of c (last (bs @ [b])))
          [length (bs @ [b])..<length (bs @ [b]) + n] ?st = (out, st')"
        using Suc.prems(1) Some good unfolding upt by (simp add: synced_block_def del: upt_Suc)
      note inv = node_inv_synced_block [OF Suc.prems(2,3) bB Suc.prems(6) good(2,1), of now]
      from Suc.IH [OF loop inv(1) Suc.prems(3-5) inv(2)] Suc.prems(7)
      obtain bs' where bs': "node_inv c bs' st'" "length (bs @ [b]) \<le> length bs'" "out = Synced \<longrightarrow> length bs' = Suc peer_height"
        "out \<noteq> Reorganised \<longrightarrow> (\<exists>ext. bs' = (bs @ [b]) @ ext \<and>
           verified_branch c ?st (Suc (length bs)) (block_hash_of c b) ext)" by auto
      moreover have "verified_branch c st (length bs) (block_hash_of c (last bs)) (b # ext)"
        if "verified_branch c ?st (Suc (length bs)) (block_hash_of c b) ext" for ext
        using that good verified_branch_sets [of ?st st] by (simp add: verified_branch_Cons fun_eq_iff)
      ultimately show ?thesis by (intro exI [of _ bs']) auto
    qed
  qed
qed

lemma sync_once_loop:
  assumes "node_inv c bs st" and "length bs \<le> peer_tip ps"
  shows "sync_once c ps now i ts st =
    sync_loop c ps now i ts (peer_tip ps) (block_hash_of c (last bs)) [length bs..<length bs + (Suc (peer_tip ps) - length bs)] st"
proof -
  have "tip_height (node_chain st) = length bs - 1" "tip_hash c (node_chain st) = block_hash_of c (last bs)" "0 < length bs"
    using assms(1) by (auto simp: node_inv_def holds_tip holds_tip_hash)
  moreover from this assms(2) have "\<not> peer_tip ps \<le> length bs - 1" by linarith
  ultimately show ?thesis using assms(2) by (simp add: sync_once_def Let_def del: upt_Suc)
qed

lemma sync_once_up_to_date:
  "node_inv c bs st \<Longrightarrow> peer_tip ps < length bs \<Longrightarrow> sync_once c ps now i ts st = (UpToDate, st)"
  by (auto simp: sync_once_def Let_def node_inv_def holds_tip)

text \<open>
  C32. Every sync keeps the node consistent: whatever the peers answer, the store holds a linked
  chain afterwards that is not shorter than before, and the publisher index is the one of that
  chain. Without a reorganisation the old chain is a prefix, and every block that was added
  passes the signature check of its height; a completed sync reaches the reported tip.
\<close>

theorem sync_keeps_chain:
  assumes "node_inv c bs st" and "sync_once c ps now i ts st = (out, st')"
    and "hashes_separate c (stored_blocks (node_chain st) \<union> served (serve ps) \<union> served (serve_branch ps))"
  shows "\<exists>bs'. node_inv c bs' st' \<and> length bs \<le> length bs' \<and> (out = Synced \<longrightarrow> length bs' = Suc (peer_tip ps)) \<and>
    (out \<noteq> Reorganised \<longrightarrow> (\<exists>ext. bs' = bs @ ext \<and> verified_branch c st (length bs) (block_hash_of c (last bs)) ext))"
proof (cases "length bs \<le> peer_tip ps")
  case True
  show ?thesis
    by (rule sync_loop_sound [OF assms(2) [unfolded sync_once_loop [OF assms(1) True]] assms(1,3)]) (use True in auto)
next
  case False
  then show ?thesis
    using assms(1,2) sync_once_up_to_date [OF assms(1)] by (intro exI [of _ bs]) (auto simp: verified_branch_def)
qed

lemma sync_loop_honest:
  assumes "verified_branch c st (length bs) (block_hash_of c (last bs)) ext"
    and "\<forall>j < length ext. serve ps (length bs + j) = Some (ext ! j)"
    and "node_inv c bs st" and "hashes_separate c B" and "stored_blocks (node_chain st) \<subseteq> B" and "set ext \<subseteq> B"
  shows "\<exists>st'. sync_loop c ps now i ts peer_height (block_hash_of c (last bs)) [length bs..<length bs + length ext] st =
    (Synced, st') \<and> node_inv c (bs @ ext) st'"
  using assms
proof (induction ext arbitrary: bs st)
  case (Cons b ext)
  let ?st = "synced_block c now b st"
  have b: "height (header b) = length bs" "prev_hash (header b) = block_hash_of c (last bs)"
    "verify_block_signatures c b (effective_set st (length bs)) = Inr ()"
    and rest: "verified_branch c ?st (length (bs @ [b])) (block_hash_of c (last (bs @ [b]))) ext"
    using Cons.prems(1) verified_branch_sets [of ?st st] by (auto simp: verified_branch_Cons fun_eq_iff)
  have "b \<in> B" using Cons.prems(6) by simp
  note inv = node_inv_synced_block [OF Cons.prems(3,4) this Cons.prems(5) b(1,2), of now]
  have "serve ps (length (bs @ [b]) + j) = Some (ext ! j)" if "j < length ext" for j
    using Cons.prems(2) [rule_format, of "Suc j"] that by simp
  then obtain st' where "sync_loop c ps now i ts peer_height (block_hash_of c (last (bs @ [b])))
      [length (bs @ [b])..<length (bs @ [b]) + length ext] ?st = (Synced, st')" "node_inv c ((bs @ [b]) @ ext) st'"
    using Cons.IH [OF rest _ inv(1) Cons.prems(4) inv(2)] Cons.prems(6) by auto
  moreover have "serve ps (length bs) = Some b" using Cons.prems(2) [rule_format, of 0] by simp
  moreover have "[length bs..<length bs + length (b # ext)] = length bs # [Suc (length bs)..<Suc (length bs) + length ext]"
    by (simp add: upt_rec)
  ultimately show ?case
    using b by (intro exI [of _ st']) (simp add: synced_block_def del: upt_Suc)
qed simp

text \<open>
  C35. Honest peers bring a node up to date: if the peers report and serve a verified
  continuation of the node's chain, one sync adopts all of it.
\<close>

theorem sync_catches_up:
  assumes "node_inv c bs st" and "verified_branch c st (length bs) (block_hash_of c (last bs)) ext" and "ext \<noteq> []"
    and "\<forall>j < length ext. serve ps (length bs + j) = Some (ext ! j)" and "Suc (peer_tip ps) = length (bs @ ext)"
    and "hashes_separate c (stored_blocks (node_chain st) \<union> set ext)"
  shows "\<exists>st'. sync_once c ps now i ts st = (Synced, st') \<and> node_inv c (bs @ ext) st'"
proof -
  have "0 < length ext" using assms(3) by simp
  then have le: "length bs \<le> peer_tip ps" and n: "Suc (peer_tip ps) - length bs = length ext"
    using assms(5) unfolding length_append by linarith+
  show ?thesis
    unfolding sync_once_loop [OF assms(1) le] n
    by (rule sync_loop_honest [OF assms(2,4,1,6)]) auto
qed

section \<open>A node and its peers\<close>

text \<open>A node with the genesis block and one validator, and two competing branches.\<close>

definition demo_next :: "nat \<Rightarrow> string \<Rightarrow> string \<Rightarrow> block" where
  "demo_next h prev p =
     genesis\<lparr> header := (header genesis)\<lparr> height := h, prev_hash := prev, proposer_id := p \<rparr> \<rparr>"

definition demo_node :: "block list \<Rightarrow> node_state" where
  "demo_node bs = \<lparr> node_chain = chain_of demo_env bs, publishers = publisher_index_new, reorgs = [],
     node_validators = demo_synced_validators, node_history = [] \<rparr>"

lemma demo_next_simps [simp]:
  "height (header (demo_next h prev p)) = h" "prev_hash (header (demo_next h prev p)) = prev"
  "block_hash_of demo_env (demo_next h prev p) = p" "transactions (demo_next h prev p) = []"
  "block_hash_of demo_env genesis = ''genesis''" "height (header genesis) = 0" "transactions genesis = []"
  by (simp_all add: demo_next_def genesis_def block_hash_of_def header_hash_def sha256_hex_def sha256_def)

lemma demo_next_passes [simp]: "verify_block_signatures demo_env (demo_next h prev p) (effective_set (demo_node bs) n) = Inr ()"
  by (simp add: verify_block_signatures_def effective_set_def demo_node_def set_at_def history_load_def select_at_def
      demo_synced_validators_def)

lemma stored_chain_of: "stored_blocks (chain_of c bs) \<subseteq> set bs"
  using chain_of_by_hash by (auto simp: stored_blocks_def)

lemma demo_node_inv:
  assumes "inj_on (block_hash_of demo_env) (set bs)" and "\<forall>i < length bs. height (header (bs ! i)) = i"
    and "linked_blocks demo_env bs" and "bs \<noteq> []" and "\<forall>b \<in> set bs. transactions b = []"
  shows "node_inv demo_env bs (demo_node bs)"
proof -
  have "rebuild_from_chain now bs publisher_index_new = publisher_index_new" for now
    using assms(5) by (induction bs rule: rev_induct)
      (simp_all add: rebuild_snoc apply_block_def, simp add: rebuild_from_chain_def publisher_index_new_def)
  then show ?thesis
    using assms chain_of_holds [OF assms(1,2)] by (simp add: node_inv_def demo_node_def)
qed

lemma demo_genesis_inv: "node_inv demo_env [genesis] (demo_node [genesis])"
  by (rule demo_node_inv) (simp_all add: linked_blocks_def)

definition demo_peers :: peers where
  "demo_peers = \<lparr> reported_tips = [None, Some 1], serve = (\<lambda>h. if h = 1 then Some (demo_next 1 ''genesis'' ''w'') else None),
     serve_ancestor = (\<lambda>h. None), serve_branch = (\<lambda>h. None) \<rparr>"

lemma demo_separate: "hashes_separate demo_env (stored_blocks (node_chain (demo_node [genesis])) \<union> {demo_next 1 ''genesis'' ''w''})"
  using stored_chain_of [of demo_env "[genesis]"] by (auto simp: hashes_separate_def demo_node_def)

lemma demo_branch: "verified_branch demo_env (demo_node bs) 1 ''genesis'' [demo_next 1 ''genesis'' ''w'']"
  by (simp add: verified_branch_def)

theorem sync_catches_up_witness:
  "\<exists>st'. sync_once demo_env demo_peers 0 [] [] (demo_node [genesis]) = (Synced, st') \<and>
     node_inv demo_env [genesis, demo_next 1 ''genesis'' ''w''] st'"
  using sync_catches_up [OF demo_genesis_inv, of "[demo_next 1 ''genesis'' ''w'']" demo_peers 0 "[]" "[]"]
    demo_separate demo_branch by (simp add: demo_peers_def peer_tip_def)

theorem sync_keeps_chain_witness:
  "\<exists>out st' bs'. sync_once demo_env demo_peers 0 [] [] (demo_node [genesis]) = (out, st') \<and>
     node_inv demo_env bs' st' \<and> 1 \<le> length bs'"
proof -
  obtain out st' where eq: "sync_once demo_env demo_peers 0 [] [] (demo_node [genesis]) = (out, st')" by fastforce
  have "served (serve demo_peers) = {demo_next 1 ''genesis'' ''w''}" "served (serve_branch demo_peers) = {}"
    by (auto simp: served_def demo_peers_def)
  with sync_keeps_chain [OF demo_genesis_inv eq] demo_separate eq show ?thesis by fastforce
qed

definition demo_fork :: "block list" where
  "demo_fork = [genesis, demo_next 1 ''genesis'' ''v'']"

definition fork_fetch :: fetch where
  "fork_fetch h = (if h = 0 then Some genesis else if h = 1 then Some (demo_next 1 ''genesis'' ''w'')
     else if h = 2 then Some (demo_next 2 ''w'' ''x'') else None)"

lemma demo_fork_ok: "inj_on (block_hash_of demo_env) (set demo_fork)" "\<forall>i < length demo_fork. height (header (demo_fork ! i)) = i"
    "linked_blocks demo_env demo_fork"
  by (auto simp: demo_fork_def less_Suc_eq linked_blocks_def)

lemma demo_fork_applied:
  "fst (attempt_reorg_recovery demo_env fork_fetch fork_fetch 0 [] [] 1 2 (demo_node demo_fork))"
proof -
  have "get_block_by_height (node_chain (demo_node demo_fork)) h =
      (if h < 2 then Some (demo_fork ! h) else None)" for h
    using chain_of_holds [OF demo_fork_ok(1,2)] by (simp add: demo_node_def holds_chain_def demo_fork_def)
  then have "find_ancestor demo_env fork_fetch (node_chain (demo_node demo_fork)) [1, 0] = Some (0, ''genesis'')"
    by (simp add: demo_fork_def fork_fetch_def)
  then show ?thesis
    by (simp add: attempt_reorg_recovery_def max_reorg_depth_def upt_rec fork_fetch_def)
qed

theorem reorg_recovery_sound_witness:
  "\<exists>k branch st'. attempt_reorg_recovery demo_env fork_fetch fork_fetch 0 [] [] 1 2 (demo_node demo_fork) = (True, st') \<and>
     k \<le> 1 \<and> length (take (Suc k) demo_fork @ branch) = 3 \<and>
     holds_chain demo_env (take (Suc k) demo_fork @ branch) (node_chain st')"
proof -
  obtain st' where eq: "attempt_reorg_recovery demo_env fork_fetch fork_fetch 0 [] [] 1 2 (demo_node demo_fork) = (True, st')"
    using demo_fork_applied by (metis prod.collapse)
  have sep: "hashes_separate demo_env (stored_blocks (node_chain (demo_node demo_fork)) \<union> served fork_fetch)"
  proof (rule hashes_separate_mono)
    show "hashes_separate demo_env (set demo_fork \<union> {demo_next 1 ''genesis'' ''w'', demo_next 2 ''w'' ''x''})"
      by (simp add: hashes_separate_def demo_fork_def)
    show "stored_blocks (node_chain (demo_node demo_fork)) \<union> served fork_fetch \<subseteq>
        set demo_fork \<union> {demo_next 1 ''genesis'' ''w'', demo_next 2 ''w'' ''x''}"
      using stored_chain_of [of demo_env demo_fork]
      by (auto simp: demo_node_def served_def fork_fetch_def demo_fork_def split: if_splits)
  qed
  have "holds_chain demo_env demo_fork (node_chain (demo_node demo_fork))"
    using chain_of_holds [OF demo_fork_ok(1,2)] by (simp add: demo_node_def)
  from reorg_recovery_sound [OF eq this _ demo_fork_ok(3) sep] eq show ?thesis
    by (auto simp: demo_fork_def numeral_eq_Suc)
qed

end
