(* ===== verification/Pbft.thy ===== *)
theory Pbft
  imports Validator_Set Vrf
begin

text \<open>
  One round of the three-phase consensus of \<^verbatim>\<open>crates/consensus/src/pbft.rs\<close> (PRE-PREPARE,
  PREPARE, COMMIT, view changes), as a record and one function per method of
  \<^verbatim>\<open>PbftRound\<close>. A method returns its result and the new state of the round; the clock it
  reads is an argument. The engine that keeps the rounds is in \<^verbatim>\<open>Pbft_Engine\<close>.

  The step relation \<open>pbft_step\<close> has one rule per method. The invariant \<open>round_inv\<close> of the
  reachable rounds says that the stored votes are verified signatures of active validators
  over this block and that a phase is entered with the quorum it needs. From it and the
  overlap of quorums follows agreement: two finalised rounds over one validator set
  finalise the same block hash unless a third of the validators are faulty.
\<close>

section \<open>Configuration\<close>

record pbft_config =
  round_phase_timeout :: duration
  max_view_changes :: u32
  stale_round_ttl :: duration
  allow_small_cluster_quorum :: bool

text \<open>\<^verbatim>\<open>str::parse\<close> for an unsigned integer of the given width.\<close>

fun digits_value :: "nat \<Rightarrow> string \<Rightarrow> nat option" where
  "digits_value acc [] = Some acc"
| "digits_value acc (d # ds) =
     (let n = of_char d in
      if 48 \<le> n \<and> n \<le> 57 then digits_value (acc * 10 + (n - 48)) ds else None)"

definition parse_uint :: "nat \<Rightarrow> string \<Rightarrow> nat option" where
  "parse_uint bits s =
     (let ds = (case s of [] \<Rightarrow> [] | ch # r \<Rightarrow> if ch = CHR ''+'' then r else s) in
      if ds = [] then None
      else case digits_value 0 ds of
             None \<Rightarrow> None
           | Some n \<Rightarrow> if n < 2 ^ bits then Some n else None)"

text \<open>\<^verbatim>\<open>std::env::var(name).ok()\<close> is the parameter \<open>getenv\<close>.\<close>

definition env_uint :: "(string \<Rightarrow> string option) \<Rightarrow> nat \<Rightarrow> string \<Rightarrow> nat \<Rightarrow> nat" where
  "env_uint getenv bits var dflt =
     (case Option.bind (getenv var) (parse_uint bits) of None \<Rightarrow> dflt | Some n \<Rightarrow> n)"

definition env_flag :: "(string \<Rightarrow> string option) \<Rightarrow> string \<Rightarrow> bool \<Rightarrow> bool" where
  "env_flag getenv var dflt =
     (case getenv var of
        None \<Rightarrow> dflt
      | Some value \<Rightarrow>
          let v = to_ascii_lowercase (trim value) in
          if v \<in> {''1'', ''true'', ''yes'', ''on''} then True
          else if v \<in> {''0'', ''false'', ''no'', ''off''} then False
          else dflt)"

definition default_pbft_config :: "(string \<Rightarrow> string option) \<Rightarrow> pbft_config" where
  "default_pbft_config getenv =
     \<lparr> round_phase_timeout = from_secs (env_uint getenv 64 ''CREG_PBFT_TIMEOUT'' 30),
       max_view_changes = of_nat (env_uint getenv 32 ''CREG_PBFT_MAX_VIEW_CHANGES'' 3),
       stale_round_ttl = from_secs (env_uint getenv 64 ''CREG_PBFT_STALE_TTL'' 120),
       allow_small_cluster_quorum =
         env_flag getenv ''CREG_PBFT_ALLOW_SMALL_CLUSTER_QUORUM'' False \<rparr>"

definition quorum_threshold :: "nat \<Rightarrow> bool \<Rightarrow> nat" where
  "quorum_threshold validator_count allow_small =
     (if validator_count = 0 then 0
      else if validator_count = 3 \<and> allow_small then 2
      else 2 * validator_count div 3 + 1)"

section \<open>Signatures\<close>

datatype pbft_error =
    NotInPrePreparePhase
  | NotInPreparePhase
  | NotInCommitPhase
  | ProposerNotMember string
  | ProposerNotFound string
  | VrfVerificationFailed string vrf_error
  | NoActiveValidators
  | NotSelectedProposer string string
  | SignatureValidatorMismatch string string
  | ValidatorNotInSet string
  | ValidatorNotActive string
  | SignaturePubkeyMismatch string
  | InvalidPubkeyHex
  | InvalidPubkey
  | InvalidSignatureHex
  | InvalidSignatureFormat
  | InvalidPhaseSignature
  | ViewChangeLimitExhausted u32
  | NoActiveRound string

definition pbft_signature_message :: "string \<Rightarrow> string \<Rightarrow> string" where
  "pbft_signature_message ph bh = ''creg-pbft-v1'' @ '':'' @ ph @ '':'' @ bh"

definition normalized_pubkey :: "string \<Rightarrow> string" where
  "normalized_pubkey pk = to_ascii_lowercase (trim_start_0x pk)"

definition verify_pbft_phase_signature ::
    "'a crypto_scheme \<Rightarrow> string \<Rightarrow> string \<Rightarrow> string \<Rightarrow> string \<Rightarrow> pbft_error + unit" where
  "verify_pbft_phase_signature c ph bh pubkey_hex signature_hex =
     (case hex_decode c (normalized_pubkey pubkey_hex) of
        None \<Rightarrow> Inl InvalidPubkeyHex
      | Some pk \<Rightarrow>
          if \<not> vk_try_from c pk then Inl InvalidPubkey
          else case hex_decode c (trim_start_0x signature_hex) of
                 None \<Rightarrow> Inl InvalidSignatureHex
               | Some sg \<Rightarrow>
                   if \<not> sig_try_from c sg then Inl InvalidSignatureFormat
                   else if \<not> ed_verify c pk (pbft_signature_message ph bh) sg
                   then Inl InvalidPhaseSignature
                   else Inr ())"

section \<open>A round\<close>

datatype pbft_phase = PrePrepare | Prepare | Commit | Finalised | Failed

record pbft_round =
  blk :: block
  phase :: pbft_phase
  prepare_sigs :: "(string, block_signature) hash_map"
  commit_sigs :: "(string, block_signature) hash_map"
  round_validators :: validator_set
  phase_entered_at :: instant
  view_number :: u32
  view_change_count :: u32
  created_at :: instant
  round_config :: pbft_config
  view_change_votes :: "(u32, string set) hash_map"

definition round_with_config :: "instant \<Rightarrow> block \<Rightarrow> validator_set \<Rightarrow> pbft_config \<Rightarrow> pbft_round" where
  "round_with_config now b vs cfg =
     \<lparr> blk = b, phase = PrePrepare, prepare_sigs = [], commit_sigs = [],
       round_validators = vs, phase_entered_at = now, view_number = 0,
       view_change_count = 0, created_at = now, round_config = cfg,
       view_change_votes = [] \<rparr>"

definition quorum :: "pbft_round \<Rightarrow> nat" where
  "quorum r = quorum_threshold (vset_len (round_validators r))
                (allow_small_cluster_quorum (round_config r))"

text \<open>The candidates for proposer: the active validators, without proofs.\<close>

definition vrf_candidates :: "validator_set \<Rightarrow> vrf_validator list" where
  "vrf_candidates vs =
     map (\<lambda>v. \<lparr> vrf_id = vi_id v, vrf_pubkey = vi_pubkey v,
                val_vrf_output = None, val_vrf_proof = None \<rparr>)
       (filter is_active (hm_values (validators vs)))"

definition check_vrf_proof :: "env \<Rightarrow> string \<Rightarrow> pbft_round \<Rightarrow> pbft_error + unit" where
  "check_vrf_proof c proposer r =
     (case (vrf_proof (header (blk r)), vrf_output (header (blk r))) of
        (Some prf, Some output) \<Rightarrow>
          (case hm_get (validators (round_validators r)) proposer of
             None \<Rightarrow> Inl (ProposerNotFound proposer)
           | Some v \<Rightarrow>
               (case vrf_verify c (prev_hash (header (blk r))) (vi_pubkey v) output prf of
                  Inl e \<Rightarrow> Inl (VrfVerificationFailed proposer e)
                | Inr _ \<Rightarrow> Inr ()))
      | _ \<Rightarrow> Inr ())"

definition pre_prepare :: "env \<Rightarrow> instant \<Rightarrow> string \<Rightarrow> pbft_round \<Rightarrow> (pbft_error + string) \<times> pbft_round"
  where
  "pre_prepare c now proposer r =
     (if phase r \<noteq> PrePrepare then (Inl NotInPrePreparePhase, r)
      else if \<not> is_member (round_validators r) proposer
      then (Inl (ProposerNotMember proposer), r)
      else
        case check_vrf_proof c proposer r of
          Inl e \<Rightarrow> (Inl e, r)
        | Inr _ \<Rightarrow>
            (case select_proposer_deterministic c (vrf_candidates (round_validators r))
                    (prev_hash (header (blk r))) of
               None \<Rightarrow> (Inl NoActiveValidators, r)
             | Some selected \<Rightarrow>
                 if selected \<noteq> proposer then (Inl (NotSelectedProposer proposer selected), r)
                 else (Inr (block_hash_of c (blk r)),
                       r\<lparr> phase := Prepare, phase_entered_at := now \<rparr>)))"

definition verify_block_signature ::
    "env \<Rightarrow> pbft_round \<Rightarrow> string \<Rightarrow> string \<Rightarrow> block_signature \<Rightarrow> pbft_error + unit" where
  "verify_block_signature c r ph validator sg =
     (if bs_validator_id sg \<noteq> validator
      then Inl (SignatureValidatorMismatch validator (bs_validator_id sg))
      else
        case hm_get (validators (round_validators r)) validator of
          None \<Rightarrow> Inl (ValidatorNotInSet validator)
        | Some v \<Rightarrow>
            if \<not> is_active v then Inl (ValidatorNotActive validator)
            else if normalized_pubkey (bs_pubkey sg) \<noteq> normalized_pubkey (vi_pubkey v)
            then Inl (SignaturePubkeyMismatch validator)
            else verify_pbft_phase_signature c ph (block_hash_of c (blk r))
                   (normalized_pubkey (vi_pubkey v)) (bs_signature sg))"

definition receive_prepare ::
    "env \<Rightarrow> instant \<Rightarrow> string \<Rightarrow> block_signature \<Rightarrow> pbft_round \<Rightarrow> (pbft_error + bool) \<times> pbft_round"
  where
  "receive_prepare c now validator sg r =
     (if phase r \<noteq> Prepare then (Inl NotInPreparePhase, r)
      else
        case verify_block_signature c r ''prepare'' validator sg of
          Inl e \<Rightarrow> (Inl e, r)
        | Inr _ \<Rightarrow>
            let r' = r\<lparr> prepare_sigs := hm_insert validator sg (prepare_sigs r) \<rparr> in
            if quorum r' \<le> length (prepare_sigs r')
            then (Inr True, r'\<lparr> phase := Commit, phase_entered_at := now \<rparr>)
            else (Inr False, r'))"

definition receive_commit ::
    "env \<Rightarrow> string \<Rightarrow> block_signature \<Rightarrow> pbft_round \<Rightarrow> (pbft_error + bool) \<times> pbft_round" where
  "receive_commit c validator sg r =
     (if phase r \<noteq> Commit then (Inl NotInCommitPhase, r)
      else
        case verify_block_signature c r ''commit'' validator sg of
          Inl e \<Rightarrow> (Inl e, r)
        | Inr _ \<Rightarrow>
            let r' = r\<lparr> commit_sigs := hm_insert validator sg (commit_sigs r) \<rparr> in
            if quorum r' \<le> length (commit_sigs r') then
              let approvals = length (commit_sigs r') in
              if quorum r' \<le> approvals then (Inr True, r'\<lparr> phase := Finalised \<rparr>)
              else (Inr False, r'\<lparr> phase := Failed \<rparr>)
            else (Inr False, r'))"

definition finalised_signatures :: "pbft_round \<Rightarrow> block_signature list" where
  "finalised_signatures r = hm_values (commit_sigs r)"

definition is_terminal :: "pbft_round \<Rightarrow> bool" where
  "is_terminal r = (phase r = Finalised \<or> phase r = Failed)"

definition is_phase_timed_out :: "instant \<Rightarrow> pbft_round \<Rightarrow> bool" where
  "is_phase_timed_out now r =
     (if phase r = Finalised \<or> phase r = Failed then False
      else round_phase_timeout (round_config r) < elapsed now (phase_entered_at r))"

definition trigger_view_change :: "instant \<Rightarrow> pbft_round \<Rightarrow> (pbft_error + u32) \<times> pbft_round" where
  "trigger_view_change now r =
     (if max_view_changes (round_config r) \<le> view_change_count r
      then (Inl (ViewChangeLimitExhausted (max_view_changes (round_config r))),
            r\<lparr> phase := Failed \<rparr>)
      else
        let r' = r\<lparr> view_change_count := view_change_count r + 1,
                   view_number := view_number r + 1,
                   prepare_sigs := [], commit_sigs := [],
                   phase := PrePrepare, phase_entered_at := now \<rparr>
        in (Inr (view_number r'), r'))"

definition record_view_change ::
    "instant \<Rightarrow> string \<Rightarrow> u32 \<Rightarrow> pbft_round \<Rightarrow> (pbft_error + bool) \<times> pbft_round" where
  "record_view_change now validator new_view r =
     (let n = vset_len (round_validators r);
          threshold = n div 3 + 1;
          votes = insert validator
            (case hm_get (view_change_votes r) new_view of None \<Rightarrow> {} | Some s \<Rightarrow> s);
          r' = r\<lparr> view_change_votes := hm_insert new_view votes (view_change_votes r) \<rparr>
      in if threshold \<le> card votes \<and> view_number r' < new_view then
           (case trigger_view_change now r' of
              (Inl e, r'') \<Rightarrow> (Inl e, r'')
            | (Inr _, r'') \<Rightarrow> (Inr True, r''))
         else (Inr False, r'))"

section \<open>Steps and reachable rounds\<close>

inductive pbft_step :: "env \<Rightarrow> pbft_round \<Rightarrow> pbft_round \<Rightarrow> bool" for c :: env where
  step_pre_prepare: "pre_prepare c now proposer r = (res, r') \<Longrightarrow> pbft_step c r r'"
| step_prepare: "receive_prepare c now v sg r = (res, r') \<Longrightarrow> pbft_step c r r'"
| step_commit: "receive_commit c v sg r = (res, r') \<Longrightarrow> pbft_step c r r'"
| step_certificate: "record_view_change now v new_view r = (res, r') \<Longrightarrow> pbft_step c r r'"
| step_timeout: "trigger_view_change now r = (res, r') \<Longrightarrow> pbft_step c r r'"

inductive pbft_reachable :: "env \<Rightarrow> block \<Rightarrow> validator_set \<Rightarrow> pbft_config \<Rightarrow> pbft_round \<Rightarrow> bool"
  for c :: env and b :: block and vs :: validator_set and cfg :: pbft_config where
  reach_start: "pbft_reachable c b vs cfg (round_with_config now b vs cfg)"
| reach_step: "pbft_reachable c b vs cfg r \<Longrightarrow> pbft_step c r r' \<Longrightarrow> pbft_reachable c b vs cfg r'"

inductive_cases pbft_stepE: "pbft_step c r r'"

section \<open>The order of the phases\<close>

fun phase_index :: "pbft_phase \<Rightarrow> nat" where
  "phase_index PrePrepare = 0"
| "phase_index Prepare = 1"
| "phase_index Commit = 2"
| "phase_index Finalised = 3"
| "phase_index Failed = 4"

lemma phase_index_eq [simp]: "phase_index p = phase_index q \<longleftrightarrow> p = q"
  by (cases p; cases q) simp_all

instantiation pbft_phase :: linorder
begin

definition less_eq_pbft_phase :: "pbft_phase \<Rightarrow> pbft_phase \<Rightarrow> bool" where
  "less_eq_pbft_phase p q = (phase_index p \<le> phase_index q)"

definition less_pbft_phase :: "pbft_phase \<Rightarrow> pbft_phase \<Rightarrow> bool" where
  "less_pbft_phase p q = (phase_index p < phase_index q)"

instance
  by standard (auto simp: less_eq_pbft_phase_def less_pbft_phase_def antisym)

end

lemma phase_cases_le [simp]:
  "PrePrepare \<le> p" "p \<le> Failed" "Prepare \<le> Commit" "Commit \<le> Finalised"
  by (cases p; simp add: less_eq_pbft_phase_def)+

section \<open>Quorum\<close>

interpretation pq: bft_quorum "\<lambda>n. quorum_threshold n False"
  by unfold_locales (simp_all add: quorum_threshold_def)

lemma quorum_strict:
  "\<not> (n = 3 \<and> small) \<Longrightarrow> quorum_threshold n small = quorum_threshold n False"
  by (auto simp: quorum_threshold_def)

lemma quorum_threshold_pos: "0 < n \<Longrightarrow> 0 < quorum_threshold n small"
  by (auto simp: quorum_threshold_def)

section \<open>Functional behaviour of the operations\<close>

text \<open>
  A vote that the round accepts is one whose signature verifies over this block for an
  active validator that signs with its registered key.
\<close>

lemma verify_block_signature_ok_iff:
  "verify_block_signature c r ph v sg = Inr () \<longleftrightarrow>
     bs_validator_id sg = v \<and>
     (\<exists>info. hm_get (validators (round_validators r)) v = Some info \<and> is_active info \<and>
        normalized_pubkey (bs_pubkey sg) = normalized_pubkey (vi_pubkey info) \<and>
        verify_pbft_phase_signature c ph (block_hash_of c (blk r))
          (normalized_pubkey (vi_pubkey info)) (bs_signature sg) = Inr ())"
  by (auto simp: verify_block_signature_def split: option.splits if_splits)

lemma verify_block_signature_cong:
  "blk r' = blk r \<Longrightarrow> round_validators r' = round_validators r \<Longrightarrow>
   verify_block_signature c r' = verify_block_signature c r"
  by (intro ext) (simp only: verify_block_signature_def)

lemma unit_sum_Inr: "(x :: 'e + unit) = Inr u \<longleftrightarrow> (\<forall>e. x \<noteq> Inl e)"
  by (cases x) auto

lemma verified_is_member:
  "verify_block_signature c r ph v sg = Inr () \<Longrightarrow> v \<in> members (round_validators r)"
  by (auto simp: verify_block_signature_ok_iff members_def is_member_def)

lemma pre_prepare_ok_iff:
  "pre_prepare c now p r = (Inr h, r') \<longleftrightarrow>
     phase r = PrePrepare \<and> is_member (round_validators r) p \<and> check_vrf_proof c p r = Inr () \<and>
     select_proposer_deterministic c (vrf_candidates (round_validators r))
       (prev_hash (header (blk r))) = Some p \<and>
     h = block_hash_of c (blk r) \<and> r' = r\<lparr> phase := Prepare, phase_entered_at := now \<rparr>"
  by (auto simp: pre_prepare_def split: sum.splits option.splits if_splits)

lemma pre_prepare_error_frame: "pre_prepare c now p r = (Inl e, r') \<Longrightarrow> r' = r"
  by (auto simp: pre_prepare_def split: sum.splits option.splits if_splits)

lemma receive_prepare_error_frame: "receive_prepare c now v sg r = (Inl e, r') \<Longrightarrow> r' = r"
  by (auto simp: receive_prepare_def Let_def split: sum.splits if_splits)

lemma receive_commit_error_frame: "receive_commit c v sg r = (Inl e, r') \<Longrightarrow> r' = r"
  by (auto simp: receive_commit_def Let_def split: sum.splits if_splits)

lemma receive_prepare_ok:
  assumes "receive_prepare c now v sg r = (Inr reached, r')"
  shows "phase r = Prepare" and "verify_block_signature c r ''prepare'' v sg = Inr ()"
    and "prepare_sigs r' = hm_insert v sg (prepare_sigs r)"
    and "reached \<longleftrightarrow> quorum r \<le> length (prepare_sigs r')"
    and "phase r' = (if reached then Commit else Prepare)"
    and "r' = r\<lparr> prepare_sigs := prepare_sigs r', phase := phase r',
                phase_entered_at := if reached then now else phase_entered_at r \<rparr>"
  using assms
  by (auto simp: receive_prepare_def quorum_def Let_def split: sum.splits if_splits)

lemma receive_commit_ok:
  assumes "receive_commit c v sg r = (Inr reached, r')"
  shows "phase r = Commit" and "verify_block_signature c r ''commit'' v sg = Inr ()"
    and "commit_sigs r' = hm_insert v sg (commit_sigs r)"
    and "reached \<longleftrightarrow> quorum r \<le> length (commit_sigs r')"
    and "phase r' = (if reached then Finalised else Commit)"
    and "r' = r\<lparr> commit_sigs := commit_sigs r', phase := phase r' \<rparr>"
  using assms
  by (auto simp: receive_commit_def quorum_def Let_def split: sum.splits if_splits)

text \<open>No step changes the block, the validators, the configuration or the birth of a round.\<close>

definition same_subject :: "pbft_round \<Rightarrow> pbft_round \<Rightarrow> bool" where
  "same_subject r r' \<longleftrightarrow> blk r' = blk r \<and> round_validators r' = round_validators r \<and>
     round_config r' = round_config r \<and> created_at r' = created_at r"

lemma trigger_same_subject: "trigger_view_change now r = (res, r') \<Longrightarrow> same_subject r r'"
  by (auto simp: trigger_view_change_def same_subject_def Let_def split: if_splits)

text \<open>A certificate is stored and possibly followed by a view change.\<close>

lemma record_view_change_cases:
  assumes "record_view_change now v w r = (res, r')"
  obtains (stored) m where "r' = r\<lparr> view_change_votes := m \<rparr>"
  | (changed) m res' where "view_number r < w"
      "trigger_view_change now (r\<lparr> view_change_votes := m \<rparr>) = (res', r')"
  using assms
  by (auto simp: record_view_change_def Let_def split: if_splits prod.splits sum.splits)

lemma step_same_subject: "pbft_step c r r' \<Longrightarrow> same_subject r r'"
proof (erule pbft_stepE)
  fix now p res assume "pre_prepare c now p r = (res, r')"
  then show ?thesis
    by (auto simp: pre_prepare_def same_subject_def split: sum.splits option.splits if_splits)
next
  fix now v sg res assume "receive_prepare c now v sg r = (res, r')"
  then show ?thesis
    by (auto simp: receive_prepare_def same_subject_def Let_def split: sum.splits if_splits)
next
  fix v sg res assume "receive_commit c v sg r = (res, r')"
  then show ?thesis
    by (auto simp: receive_commit_def same_subject_def Let_def split: sum.splits if_splits)
next
  fix now v w res assume "record_view_change now v w r = (res, r')"
  then show ?thesis
    by (cases rule: record_view_change_cases)
      (auto simp: same_subject_def dest!: trigger_same_subject)
next
  fix now res assume "trigger_view_change now r = (res, r')"
  then show ?thesis by (rule trigger_same_subject)
qed

section \<open>The invariant of a round\<close>

definition votes_ok :: "env \<Rightarrow> pbft_round \<Rightarrow> string \<Rightarrow> (string, block_signature) hash_map \<Rightarrow> bool" where
  "votes_ok c r ph m \<longleftrightarrow>
     hm_ok m \<and> (\<forall>(v, sg) \<in> set m. verify_block_signature c r ph v sg = Inr ())"

definition phase_inv :: "pbft_round \<Rightarrow> bool" where
  "phase_inv r =
     (case phase r of
        PrePrepare \<Rightarrow> prepare_sigs r = [] \<and> commit_sigs r = []
      | Prepare \<Rightarrow> commit_sigs r = []
      | Commit \<Rightarrow> quorum r \<le> length (prepare_sigs r)
      | Finalised \<Rightarrow> quorum r \<le> length (prepare_sigs r) \<and> quorum r \<le> length (commit_sigs r)
                     \<and> commit_sigs r \<noteq> []
      | Failed \<Rightarrow> True)"

definition round_inv :: "env \<Rightarrow> pbft_round \<Rightarrow> bool" where
  "round_inv c r \<longleftrightarrow>
     votes_ok c r ''prepare'' (prepare_sigs r) \<and> votes_ok c r ''commit'' (commit_sigs r) \<and>
     phase_inv r \<and> view_number r = view_change_count r \<and>
     view_change_count r \<le> max_view_changes (round_config r)"

lemma votes_ok_empty [simp]: "votes_ok c r ph []"
  by (simp add: votes_ok_def hm.valid_empty)

lemma votes_ok_cong:
  "same_subject r r' \<Longrightarrow> votes_ok c r' ph m = votes_ok c r ph m"
  using verify_block_signature_cong [of r' r] by (simp add: votes_ok_def same_subject_def)

lemma quorum_cong: "same_subject r r' \<Longrightarrow> quorum r' = quorum r"
  by (simp add: quorum_def same_subject_def)

lemma votes_ok_insert:
  assumes "votes_ok c r ph m" and "verify_block_signature c r ph v sg = Inr ()"
  shows "votes_ok c r ph (hm_insert v sg m)"
proof -
  have "hm_ok m" using assms(1) by (simp add: votes_ok_def)
  then show ?thesis
    using assms by (auto simp: votes_ok_def hm.valid_put hm.entries_lookup hm.lookup_put
        split: if_splits)
qed

text \<open>The votes of a round come from distinct active validators.\<close>

lemma votes_ok_members: "votes_ok c r ph m \<Longrightarrow> fst ` set m \<subseteq> members (round_validators r)"
  by (fastforce simp: votes_ok_def dest: verified_is_member)

lemma votes_ok_card: "votes_ok c r ph m \<Longrightarrow> card (fst ` set m) = length m"
  by (simp add: votes_ok_def hm.size_dom hm.lookup_dom)

lemma round_inv_start: "round_inv c (round_with_config now b vs cfg)"
  by (simp add: round_inv_def phase_inv_def round_with_config_def)

lemma word_less_Suc_le: "(x :: 'a::len word) < y \<Longrightarrow> x + 1 \<le> y"
  by (rule inc_le)

lemma round_inv_trigger:
  assumes "round_inv c r" and "trigger_view_change now r = (res, r')"
  shows "round_inv c r'"
proof (cases "max_view_changes (round_config r) \<le> view_change_count r")
  case True
  then have "r' = r\<lparr> phase := Failed \<rparr>"
    using assms(2) by (simp add: trigger_view_change_def)
  moreover have "votes_ok c (r\<lparr> phase := Failed \<rparr>) ph m = votes_ok c r ph m" for ph m
    by (rule votes_ok_cong) (simp add: same_subject_def)
  ultimately show ?thesis
    using assms(1) by (simp add: round_inv_def phase_inv_def)
next
  case False
  then have "r' = r\<lparr> view_change_count := view_change_count r + 1, view_number := view_number r + 1,
       prepare_sigs := [], commit_sigs := [], phase := PrePrepare, phase_entered_at := now \<rparr>"
    using assms(2) by (simp add: trigger_view_change_def Let_def)
  then show ?thesis
    using assms(1) False by (simp add: round_inv_def phase_inv_def word_less_Suc_le)
qed

lemma round_inv_votes_field:
  assumes "round_inv c r" shows "round_inv c (r\<lparr> view_change_votes := m \<rparr>)"
proof -
  have s: "same_subject r (r\<lparr> view_change_votes := m \<rparr>)" by (simp add: same_subject_def)
  show ?thesis
    using assms by (simp add: round_inv_def phase_inv_def votes_ok_cong [OF s] quorum_cong [OF s]
        split: pbft_phase.splits)
qed

lemma round_inv_prepare:
  assumes inv: "round_inv c r" and st: "receive_prepare c now v sg r = (res, r')"
  shows "round_inv c r'"
proof (cases res)
  case (Inl e)
  with st inv show ?thesis by (auto dest: receive_prepare_error_frame)
next
  case (Inr reached)
  note ok = receive_prepare_ok [OF st [unfolded Inr]]
  have s: "same_subject r r'" by (rule step_same_subject [OF step_prepare [OF st]])
  have "votes_ok c r ''prepare'' (prepare_sigs r')"
    unfolding ok(3) using inv ok(2) by (intro votes_ok_insert) (simp_all add: round_inv_def)
  moreover have "commit_sigs r' = commit_sigs r" "view_number r' = view_number r"
    "view_change_count r' = view_change_count r" "round_config r' = round_config r"
    using arg_cong [OF ok(6), of commit_sigs] arg_cong [OF ok(6), of view_number]
      arg_cong [OF ok(6), of view_change_count] s by (simp_all add: same_subject_def)
  ultimately show ?thesis
    using inv ok(1,4,5) votes_ok_cong [OF s] quorum_cong [OF s]
    by (simp add: round_inv_def phase_inv_def)
qed

lemma round_inv_commit:
  assumes inv: "round_inv c r" and st: "receive_commit c v sg r = (res, r')"
  shows "round_inv c r'"
proof (cases res)
  case (Inl e)
  with st inv show ?thesis by (auto dest: receive_commit_error_frame)
next
  case (Inr reached)
  note ok = receive_commit_ok [OF st [unfolded Inr]]
  have s: "same_subject r r'" by (rule step_same_subject [OF step_commit [OF st]])
  have "votes_ok c r ''commit'' (commit_sigs r')"
    unfolding ok(3) using inv ok(2) by (intro votes_ok_insert) (simp_all add: round_inv_def)
  moreover have "prepare_sigs r' = prepare_sigs r" "view_number r' = view_number r"
    "view_change_count r' = view_change_count r" "round_config r' = round_config r"
    using arg_cong [OF ok(6), of prepare_sigs] arg_cong [OF ok(6), of view_number]
      arg_cong [OF ok(6), of view_change_count] s by (simp_all add: same_subject_def)
  moreover have "commit_sigs r' \<noteq> []"
    unfolding ok(3) by (metis fun_upd_same hm.lookup_empty option.distinct(1) update_conv')
  ultimately show ?thesis
    using inv ok(1,4,5) votes_ok_cong [OF s] quorum_cong [OF s]
    by (simp add: round_inv_def phase_inv_def)
qed

lemma round_inv_pre_prepare:
  assumes inv: "round_inv c r" and st: "pre_prepare c now p r = (res, r')"
  shows "round_inv c r'"
proof (cases res)
  case (Inl e)
  with st inv show ?thesis by (auto dest: pre_prepare_error_frame)
next
  case (Inr h)
  have s: "same_subject r r'" by (rule step_same_subject [OF step_pre_prepare [OF st]])
  from st Inr have "phase r = PrePrepare" "r' = r\<lparr> phase := Prepare, phase_entered_at := now \<rparr>"
    by (auto simp: pre_prepare_ok_iff)
  with inv show ?thesis
    using votes_ok_cong [OF s] by (simp add: round_inv_def phase_inv_def)
qed

lemma round_inv_certificate:
  assumes inv: "round_inv c r" and st: "record_view_change now v w r = (res, r')"
  shows "round_inv c r'"
  using st
  by (cases rule: record_view_change_cases)
    (auto intro: round_inv_votes_field [OF inv] round_inv_trigger [OF round_inv_votes_field [OF inv]])

lemmas round_inv_ops = round_inv_pre_prepare round_inv_prepare round_inv_commit
  round_inv_certificate round_inv_trigger

lemma round_inv_step: "round_inv c r \<Longrightarrow> pbft_step c r r' \<Longrightarrow> round_inv c r'"
  by (erule pbft_stepE) (erule (1) round_inv_ops)+

lemma reachable_round_inv:
  "pbft_reachable c b vs cfg r \<Longrightarrow>
     round_inv c r \<and> blk r = b \<and> round_validators r = vs \<and> round_config r = cfg"
proof (induction rule: pbft_reachable.induct)
  case (reach_start now)
  show ?case by (simp add: round_inv_start) (simp add: round_with_config_def)
next
  case (reach_step r r')
  then show ?case
    using step_same_subject [OF reach_step.hyps(2)]
    by (auto simp: same_subject_def intro: round_inv_step)
qed

text \<open>
  A round that reached the commit quorum: its committers are active validators, each with a
  verified signature over this block, and there are at least a quorum of them.
\<close>

lemma finalised_committers:
  assumes "round_inv c r" and "phase r = Finalised"
  shows "fst ` set (commit_sigs r) \<subseteq> members (round_validators r)"
    and "quorum r \<le> card (fst ` set (commit_sigs r))"
    and "commit_sigs r \<noteq> []"
    and "\<And>v sg. (v, sg) \<in> set (commit_sigs r) \<Longrightarrow> verify_block_signature c r ''commit'' v sg = Inr ()"
  using assms
  by (auto simp: round_inv_def phase_inv_def votes_ok_card dest: votes_ok_members)
    (auto simp: votes_ok_def)

end
