(* ===== verification/Pbft_Engine.thy ===== *)
theory Pbft_Engine
  imports Pbft Concrete
begin

text \<open>
  \<^verbatim>\<open>PbftEngine\<close> of \<^verbatim>\<open>crates/consensus/src/pbft.rs\<close>: the rounds of a node, by block hash.
  Every operation keeps \<open>engine_inv\<close> (each stored round satisfies the round invariant and is
  stored under the hash of its block), so whatever the order of the messages, timeouts and
  garbage collections, a block that \<open>get_finalised_block\<close> returns carries a quorum of
  verified commit signatures of distinct active validators. Agreement between two nodes
  follows from the overlap of their quorums.
\<close>

section \<open>The engine\<close>

record pbft_engine =
  rounds :: "(string, pbft_round) hash_map"
  engine_config :: pbft_config

definition engine_with_config :: "pbft_config \<Rightarrow> pbft_engine" where
  "engine_with_config cfg = \<lparr> rounds = [], engine_config = cfg \<rparr>"

definition start_round ::
    "env \<Rightarrow> instant \<Rightarrow> block \<Rightarrow> validator_set \<Rightarrow> pbft_engine \<Rightarrow> (pbft_error + string) \<times> pbft_engine"
  where
  "start_round c now b vs e =
     (let h = block_hash_of c b;
          r = round_with_config now b vs (engine_config e);
          proposer = proposer_id (header (blk r))
      in case pre_prepare c now proposer r of
           (Inl err, _) \<Rightarrow> (Inl err, e)
         | (Inr _, r') \<Rightarrow> (Inr h, e\<lparr> rounds := hm_insert h r' (rounds e) \<rparr>))"

definition engine_prepare ::
    "env \<Rightarrow> instant \<Rightarrow> string \<Rightarrow> string \<Rightarrow> block_signature \<Rightarrow> pbft_engine \<Rightarrow> (pbft_error + bool) \<times> pbft_engine"
  where
  "engine_prepare c now bh vid sg e =
     (case hm_get (rounds e) bh of
        None \<Rightarrow> (Inl (NoActiveRound bh), e)
      | Some r \<Rightarrow> (case receive_prepare c now vid sg r of
          (res, r') \<Rightarrow> (res, e\<lparr> rounds := hm_insert bh r' (rounds e) \<rparr>)))"

definition engine_commit ::
    "env \<Rightarrow> string \<Rightarrow> string \<Rightarrow> block_signature \<Rightarrow> pbft_engine \<Rightarrow> (pbft_error + bool) \<times> pbft_engine"
  where
  "engine_commit c bh vid sg e =
     (case hm_get (rounds e) bh of
        None \<Rightarrow> (Inl (NoActiveRound bh), e)
      | Some r \<Rightarrow> (case receive_commit c vid sg r of
          (res, r') \<Rightarrow> (res, e\<lparr> rounds := hm_insert bh r' (rounds e) \<rparr>)))"

definition receive_view_change ::
    "instant \<Rightarrow> string \<Rightarrow> string \<Rightarrow> u32 \<Rightarrow> pbft_engine \<Rightarrow> (pbft_error + bool) \<times> pbft_engine"
  where
  "receive_view_change now bh vid new_view e =
     (case hm_get (rounds e) bh of
        None \<Rightarrow> (Inl (NoActiveRound bh), e)
      | Some r \<Rightarrow> (case record_view_change now vid new_view r of
          (res, r') \<Rightarrow> (res, e\<lparr> rounds := hm_insert bh r' (rounds e) \<rparr>)))"

definition finalised_sigs :: "string \<Rightarrow> pbft_engine \<Rightarrow> block_signature list" where
  "finalised_sigs bh e =
     (case hm_get (rounds e) bh of None \<Rightarrow> [] | Some r \<Rightarrow> finalised_signatures r)"

definition get_finalised_block :: "string \<Rightarrow> pbft_engine \<Rightarrow> block option" where
  "get_finalised_block bh e =
     (case hm_get (rounds e) bh of
        None \<Rightarrow> None
      | Some r \<Rightarrow>
          if phase r = Finalised
          then Some ((blk r)\<lparr> pbft_signatures := finalised_signatures r \<rparr>)
          else None)"

text \<open>
  \<^verbatim>\<open>ViewChangeSignal\<close>, and the loop of \<^verbatim>\<open>timeout_rounds\<close> over the hashes collected first.
\<close>

record view_change_signal =
  signal_block_hash :: string
  signal_new_view :: u32

fun timeout_loop ::
    "instant \<Rightarrow> string list \<Rightarrow> view_change_signal list \<Rightarrow> pbft_engine \<Rightarrow> view_change_signal list \<times> pbft_engine"
  where
  "timeout_loop now [] signals e = (signals, e)"
| "timeout_loop now (h # hs) signals e =
     (case hm_get (rounds e) h of
        None \<Rightarrow> timeout_loop now hs signals e
      | Some r \<Rightarrow> (case trigger_view_change now r of
          (res, r') \<Rightarrow>
            timeout_loop now hs
              (case res of
                 Inr new_view \<Rightarrow>
                   signals @ [\<lparr> signal_block_hash = h, signal_new_view = new_view \<rparr>]
               | Inl _ \<Rightarrow> signals)
              (e\<lparr> rounds := hm_insert h r' (rounds e) \<rparr>)))"

definition timed_out_rounds :: "instant \<Rightarrow> pbft_engine \<Rightarrow> string list" where
  "timed_out_rounds now e = map fst (filter (\<lambda>(_, r). is_phase_timed_out now r) (rounds e))"

definition timeout_rounds :: "instant \<Rightarrow> pbft_engine \<Rightarrow> view_change_signal list \<times> pbft_engine" where
  "timeout_rounds now e = timeout_loop now (timed_out_rounds now e) [] e"

definition stale_rounds :: "instant \<Rightarrow> pbft_engine \<Rightarrow> string list" where
  "stale_rounds now e =
     map fst (filter (\<lambda>(_, r). is_terminal r \<and> stale_round_ttl (engine_config e) < elapsed now (created_at r))
       (rounds e))"

definition cleanup_stale_rounds :: "instant \<Rightarrow> pbft_engine \<Rightarrow> nat \<times> pbft_engine" where
  "cleanup_stale_rounds now e =
     (let stale = stale_rounds now e in
      (length stale, e\<lparr> rounds := fold hm_remove stale (rounds e) \<rparr>))"

definition active_round_count :: "pbft_engine \<Rightarrow> nat" where
  "active_round_count e = length (rounds e)"

section \<open>Runs of the engine\<close>

datatype engine_event =
    Ev_Start instant block validator_set
  | Ev_Prepare instant string string block_signature
  | Ev_Commit string string block_signature
  | Ev_View_Change instant string string u32
  | Ev_Timeout instant
  | Ev_Cleanup instant

fun engine_step :: "env \<Rightarrow> pbft_engine \<Rightarrow> engine_event \<Rightarrow> pbft_engine" where
  "engine_step c e (Ev_Start now b vs) = snd (start_round c now b vs e)"
| "engine_step c e (Ev_Prepare now bh v sg) = snd (engine_prepare c now bh v sg e)"
| "engine_step c e (Ev_Commit bh v sg) = snd (engine_commit c bh v sg e)"
| "engine_step c e (Ev_View_Change now bh v w) = snd (receive_view_change now bh v w e)"
| "engine_step c e (Ev_Timeout now) = snd (timeout_rounds now e)"
| "engine_step c e (Ev_Cleanup now) = snd (cleanup_stale_rounds now e)"

definition engine_run :: "env \<Rightarrow> pbft_config \<Rightarrow> engine_event list \<Rightarrow> pbft_engine" where
  "engine_run c cfg evs = foldl (engine_step c) (engine_with_config cfg) evs"

section \<open>The invariant of the engine\<close>

definition engine_inv :: "env \<Rightarrow> pbft_engine \<Rightarrow> bool" where
  "engine_inv c e \<longleftrightarrow> hm_ok (rounds e) \<and>
     (\<forall>h r. hm_get (rounds e) h = Some r \<longrightarrow>
        h = block_hash_of c (blk r) \<and> round_config r = engine_config e \<and> round_inv c r)"

lemma engine_inv_get:
  "engine_inv c e \<Longrightarrow> hm_get (rounds e) h = Some r \<Longrightarrow>
     h = block_hash_of c (blk r) \<and> round_config r = engine_config e \<and> round_inv c r"
  by (simp add: engine_inv_def)

lemma engine_inv_insert:
  assumes "engine_inv c e" and "h = block_hash_of c (blk r)" and "round_config r = engine_config e"
    and "round_inv c r"
  shows "engine_inv c (e\<lparr> rounds := hm_insert h r (rounds e) \<rparr>)"
  using assms by (auto simp: engine_inv_def hm.valid_put hm.lookup_put)

lemma engine_inv_replace:
  assumes inv: "engine_inv c e" and get: "hm_get (rounds e) h = Some r" and st: "pbft_step c r r'"
  shows "engine_inv c (e\<lparr> rounds := hm_insert h r' (rounds e) \<rparr>)"
proof -
  note r = engine_inv_get [OF inv get] and s = step_same_subject [OF st, unfolded same_subject_def]
  show ?thesis
    by (rule engine_inv_insert [OF inv]) (use r s round_inv_step [OF _ st] in simp_all)
qed

lemma engine_inv_start: "engine_inv c e \<Longrightarrow> engine_inv c (snd (start_round c now b vs e))"
proof (cases "pre_prepare c now (proposer_id (header b)) (round_with_config now b vs (engine_config e))")
  case (Pair res r')
  assume inv: "engine_inv c e"
  let ?r = "round_with_config now b vs (engine_config e)"
  have st: "pbft_step c ?r r'" using Pair by (rule step_pre_prepare)
  have subj: "blk r' = b" "round_config r' = engine_config e"
    using step_same_subject [OF st] by (simp_all add: same_subject_def round_with_config_def)
  have "engine_inv c (e\<lparr> rounds := hm_insert (block_hash_of c b) r' (rounds e) \<rparr>)"
    by (rule engine_inv_insert [OF inv]) (simp_all add: subj round_inv_step [OF round_inv_start st])
  then show ?thesis
    using inv Pair by (simp add: start_round_def Let_def round_with_config_def split: sum.splits)
qed

lemma engine_inv_timeout_loop: "engine_inv c e \<Longrightarrow> engine_inv c (snd (timeout_loop now hs sig e))"
proof (induction hs arbitrary: sig e)
  case (Cons h hs)
  have "engine_inv c (e\<lparr> rounds := hm_insert h r' (rounds e) \<rparr>)"
    if "hm_get (rounds e) h = Some r" and "trigger_view_change now r = (res, r')" for r res r'
    using Cons.prems that(1) step_timeout [OF that(2)] by (rule engine_inv_replace)
  then show ?case
    using Cons.prems by (auto split: option.split prod.split intro!: Cons.IH)
qed simp

lemma hm_fold_remove:
  "hm_ok m \<Longrightarrow> hm_ok (fold hm_remove ks m) \<and>
     hm_get (fold hm_remove ks m) k = (if k \<in> set ks then None else hm_get m k)"
  by (induction ks arbitrary: m) (auto simp: hm.valid_drop hm.lookup_drop)

lemma engine_inv_step: "engine_inv c e \<Longrightarrow> engine_inv c (engine_step c e ev)"
proof (cases ev)
  case (Ev_Start now b vs)
  assume "engine_inv c e" then show ?thesis by (simp add: Ev_Start engine_inv_start)
next
  case (Ev_Prepare now bh v sg)
  assume "engine_inv c e"
  then show ?thesis
    by (auto simp: Ev_Prepare engine_prepare_def split: option.split prod.split
        intro: engine_inv_replace step_prepare)
next
  case (Ev_Commit bh v sg)
  assume "engine_inv c e"
  then show ?thesis
    by (auto simp: Ev_Commit engine_commit_def split: option.split prod.split
        intro: engine_inv_replace step_commit)
next
  case (Ev_View_Change now bh v w)
  assume "engine_inv c e"
  then show ?thesis
    by (auto simp: Ev_View_Change receive_view_change_def split: option.split prod.split
        intro: engine_inv_replace step_certificate)
next
  case (Ev_Timeout now)
  assume "engine_inv c e" then show ?thesis by (simp add: Ev_Timeout timeout_rounds_def engine_inv_timeout_loop)
next
  case (Ev_Cleanup now)
  assume "engine_inv c e"
  then show ?thesis
    by (auto simp: Ev_Cleanup cleanup_stale_rounds_def Let_def engine_inv_def hm_fold_remove
        split: if_splits)
qed

interpretation pe: invariant_system "engine_step c" "engine_inv c" for c
  by unfold_locales (rule engine_inv_step)

lemma engine_run_inv: "engine_inv c (engine_run c cfg evs)"
  unfolding engine_run_def
  by (rule pe.run_inv) (simp add: engine_inv_def engine_with_config_def hm.valid_empty)

lemma engine_config_step [simp]: "engine_config (engine_step c e ev) = engine_config e"
proof -
  have "engine_config (snd (timeout_loop now hs sig e)) = engine_config e" for now hs sig
    by (induction hs arbitrary: sig e) (auto split: option.split prod.split)
  then show ?thesis
    by (cases ev) (auto simp: start_round_def engine_prepare_def engine_commit_def
        receive_view_change_def timeout_rounds_def cleanup_stale_rounds_def Let_def
        split: option.split prod.split sum.split)
qed

lemma engine_run_config [simp]: "engine_config (engine_run c cfg evs) = cfg"
proof -
  have "engine_config (foldl (engine_step c) e evs) = engine_config e" for e
    by (induction evs arbitrary: e) simp_all
  then show ?thesis by (simp add: engine_run_def engine_with_config_def)
qed

section \<open>Finalised blocks\<close>

text \<open>Every commit vote in a round is a vote that was received for its block hash.\<close>

definition commits_received :: "engine_event list \<Rightarrow> pbft_engine \<Rightarrow> bool" where
  "commits_received evs e \<longleftrightarrow>
     (\<forall>h r v sg. hm_get (rounds e) h = Some r \<longrightarrow> hm_get (commit_sigs r) v = Some sg \<longrightarrow> Ev_Commit h v sg \<in> set evs)"

lemma pre_prepare_commits: "commit_sigs (snd (pre_prepare c now p r)) = commit_sigs r"
  by (auto simp: pre_prepare_def split: sum.split option.split)

lemma receive_prepare_commits: "commit_sigs (snd (receive_prepare c now v sg r)) = commit_sigs r"
  by (auto simp: receive_prepare_def Let_def split: sum.split)

lemma trigger_view_change_commits: "commit_sigs (snd (trigger_view_change now r)) \<in> {[], commit_sigs r}"
  by (simp add: trigger_view_change_def Let_def)

lemma record_view_change_commits: "commit_sigs (snd (record_view_change now v w r)) \<in> {[], commit_sigs r}"
  by (simp add: record_view_change_def trigger_view_change_def Let_def)

lemma receive_commit_commits:
  "hm_get (commit_sigs (snd (receive_commit c v sg r))) u = Some sg' \<Longrightarrow>
     hm_get (commit_sigs r) u = Some sg' \<or> u = v \<and> sg' = sg"
  by (auto simp: receive_commit_def Let_def update_conv' split: sum.splits if_splits)

lemma commits_received_put:
  assumes "commits_received evs e" and "set evs \<subseteq> set evs'"
    and "\<And>v sg. hm_get (commit_sigs r) v = Some sg \<Longrightarrow> Ev_Commit h v sg \<in> set evs'"
  shows "commits_received evs' (e\<lparr> rounds := hm_insert h r (rounds e) \<rparr>)"
  using assms by (auto simp: commits_received_def update_conv' split: if_splits)

lemma commits_received_get:
  "commits_received evs e \<Longrightarrow> hm_get (rounds e) h = Some r \<Longrightarrow> hm_get (commit_sigs r) v = Some sg \<Longrightarrow> Ev_Commit h v sg \<in> set evs"
  by (simp add: commits_received_def)

lemma commits_received_timeout_loop:
  "commits_received evs e \<Longrightarrow> commits_received evs (snd (timeout_loop now hs sig e))"
proof (induction hs arbitrary: sig e)
  case (Cons h hs)
  have "commits_received evs (e\<lparr> rounds := hm_insert h r' (rounds e) \<rparr>)"
    if "hm_get (rounds e) h = Some r" and "trigger_view_change now r = (res, r')" for r res r'
    using trigger_view_change_commits [of now r] that commits_received_get [OF Cons.prems that(1)]
    by (intro commits_received_put [OF Cons.prems]) auto
  then show ?case
    using Cons.prems by (auto split: option.split prod.split intro!: Cons.IH)
qed simp

lemma commits_received_step:
  assumes "commits_received evs e" and "hm_ok (rounds e)"
  shows "commits_received (evs @ [ev]) (engine_step c e ev)"
proof -
  have mono: "commits_received (evs @ [ev]) e" using assms(1) by (auto simp: commits_received_def)
  note put = commits_received_put [OF assms(1), of "evs @ [ev]"]
  note get = commits_received_get [OF assms(1)]
  show ?thesis
  proof (cases ev)
    case (Ev_Start now b vs)
    have "commit_sigs r' = []" if "pre_prepare c now p (round_with_config now b vs (engine_config e)) = (res, r')" for p res r'
      using pre_prepare_commits [of c now p "round_with_config now b vs (engine_config e)"] that
      by (simp add: round_with_config_def)
    then show ?thesis
      using mono [unfolded Ev_Start] by (auto simp: Ev_Start start_round_def Let_def intro!: put [unfolded Ev_Start] split: prod.split sum.split)
  next
    case (Ev_Prepare now bh v sg)
    show ?thesis
      using mono [unfolded Ev_Prepare] get receive_prepare_commits [of c now v sg]
      by (auto simp: Ev_Prepare engine_prepare_def intro!: put [unfolded Ev_Prepare] split: option.split prod.split) (metis snd_conv)
  next
    case (Ev_Commit bh v sg)
    show ?thesis
      using mono [unfolded Ev_Commit] get receive_commit_commits [of c v sg]
      by (auto simp: Ev_Commit engine_commit_def intro!: put [unfolded Ev_Commit] split: option.split prod.split) (metis snd_conv)+
  next
    case (Ev_View_Change now bh v w)
    have "Ev_Commit bh u sg' \<in> set evs" if "hm_get (rounds e) bh = Some r" "record_view_change now v w r = (res, r')"
      "hm_get (commit_sigs r') u = Some sg'" for r res r' u sg'
      using record_view_change_commits [of now v w r] that get [OF that(1)] by auto
    then show ?thesis
      using mono [unfolded Ev_View_Change] by (auto simp: Ev_View_Change receive_view_change_def intro!: put [unfolded Ev_View_Change] split: option.split prod.split)
  next
    case (Ev_Timeout now)
    then show ?thesis using mono by (simp add: timeout_rounds_def commits_received_timeout_loop)
  next
    case (Ev_Cleanup now)
    then show ?thesis
      using mono hm_fold_remove [OF assms(2)]
      by (auto simp: cleanup_stale_rounds_def Let_def commits_received_def split: if_splits)
  qed
qed

lemma engine_run_snoc: "engine_run c cfg (evs @ [ev]) = engine_step c (engine_run c cfg evs) ev"
  by (simp add: engine_run_def)

lemma engine_run_commits: "commits_received evs (engine_run c cfg evs)"
proof (induction evs rule: rev_induct)
  case Nil
  show ?case by (simp add: commits_received_def engine_run_def engine_with_config_def)
next
  case (snoc ev evs)
  then show ?case
    unfolding engine_run_snoc using engine_run_inv [of c cfg evs]
    by (intro commits_received_step) (simp_all add: engine_inv_def)
qed

text \<open>
  What correct validators have signed is a relation between validators and block hashes. A run
  is without forgery if every commit vote received for a correct validator that verifies under
  its key was signed by it.
\<close>

definition no_forgery ::
    "env \<Rightarrow> validator_set \<Rightarrow> string set \<Rightarrow> (string \<Rightarrow> string \<Rightarrow> bool) \<Rightarrow> engine_event list \<Rightarrow> bool" where
  "no_forgery c vs correct has_signed evs \<longleftrightarrow>
     (\<forall>h v sg info. Ev_Commit h v sg \<in> set evs \<longrightarrow> v \<in> correct \<longrightarrow> hm_get (validators vs) v = Some info \<longrightarrow>
        verify_pbft_phase_signature c ''commit'' h (normalized_pubkey (vi_pubkey info)) (bs_signature sg) = Inr () \<longrightarrow>
        has_signed v h)"

lemma finalised_signed:
  assumes run: "hm_get (rounds (engine_run c cfg evs)) h = Some r" "phase r = Finalised"
    and "no_forgery c (round_validators r) correct has_signed evs" and "v \<in> fst ` set (commit_sigs r)" and "v \<in> correct"
  shows "has_signed v h"
proof -
  note i = engine_inv_get [OF engine_run_inv run(1)]
  obtain sg where sg: "(v, sg) \<in> set (commit_sigs r)" using assms(4) by auto
  have "hm_ok (commit_sigs r)" using i by (simp add: round_inv_def votes_ok_def)
  with sg have "hm_get (commit_sigs r) v = Some sg" by (simp add: hm_ok_def map_of_eq_Some_iff)
  then have "Ev_Commit h v sg \<in> set evs" by (rule commits_received_get [OF engine_run_commits run(1)])
  moreover have "verify_block_signature c r ''commit'' v sg = Inr ()"
    using i run(2) sg by (intro finalised_committers(4)) auto
  ultimately show ?thesis
    using assms(3,5) i unfolding no_forgery_def verify_block_signature_ok_iff by blast
qed

lemma get_finalised_block_Some:
  "get_finalised_block h e = Some b \<longleftrightarrow>
     (\<exists>r. hm_get (rounds e) h = Some r \<and> phase r = Finalised \<and>
        b = (blk r)\<lparr> pbft_signatures := finalised_signatures r \<rparr>)"
  by (auto simp: get_finalised_block_def split: option.splits)

lemma block_hash_of_signatures [simp]:
  "block_hash_of c (b\<lparr> pbft_signatures := s \<rparr>) = block_hash_of c b"
  by (simp add: block_hash_of_def)

lemma quorum_members:
  assumes "vset_wf (round_validators r)"
    and "\<not> (vset_len (round_validators r) = 3 \<and> allow_small_cluster_quorum (round_config r))"
  shows "quorum r = quorum_threshold (card (members (round_validators r))) False"
  unfolding quorum_def quorum_strict [OF assms(2)] by (simp only: vset_len_members [OF assms(1)])

lemma two_finalised_share_correct:
  assumes inv: "round_inv c r1" "round_inv c r2"
    and fin: "phase r1 = Finalised" "phase r2 = Finalised"
    and vs: "round_validators r1 = vs" "round_validators r2 = vs" "vset_wf vs"
    and strict: "\<not> (vset_len vs = 3 \<and> allow_small_cluster_quorum (round_config r1))"
      "\<not> (vset_len vs = 3 \<and> allow_small_cluster_quorum (round_config r2))"
    and F: "finite F" "3 * card F \<le> vset_len vs"
  shows "\<exists>v \<in> members vs - F. v \<in> fst ` set (commit_sigs r1) \<and> v \<in> fst ` set (commit_sigs r2)"
proof -
  note 1 = finalised_committers [OF inv(1) fin(1), unfolded vs]
    and 2 = finalised_committers [OF inv(2) fin(2), unfolded vs]
  have "members vs \<noteq> {}" using 1(1,3) by (cases "commit_sigs r1") auto
  moreover have "quorum_threshold (card (members vs)) False \<le> card (fst ` set (commit_sigs r1))"
    using 1(2) by (subst (asm) quorum_members) (use vs strict in simp_all)
  moreover have "quorum_threshold (card (members vs)) False \<le> card (fst ` set (commit_sigs r2))"
    using 2(2) by (subst (asm) quorum_members) (use vs strict in simp_all)
  moreover have "3 * card F \<le> card (members vs)"
    using F vs(3) by (simp flip: vset_len_members)
  ultimately have "\<exists>v. v \<in> fst ` set (commit_sigs r1) \<and> v \<in> fst ` set (commit_sigs r2) \<and> v \<notin> F"
    by (intro pq.honest_overlap [OF finite_members _ 1(1) 2(1)] F)
  then show ?thesis using 1(1) by blast
qed


text \<open>A single-validator run that finalises a block, in an environment where only it is signed.\<close>

definition solo_env :: env where
  "solo_env = demo_env\<lparr> ed_verify := (\<lambda>pk m s. m \<in> {pbft_signature_message ''prepare'' ''v'',
     pbft_signature_message ''commit'' ''v''}) \<rparr>"

definition demo_config :: pbft_config where
  "demo_config = \<lparr> round_phase_timeout = from_secs 30, max_view_changes = 3,
     stale_round_ttl = from_secs 120, allow_small_cluster_quorum = False \<rparr>"

definition demo_vote :: block_signature where
  "demo_vote = \<lparr> bs_validator_id = ''v'', bs_pubkey = ''k'', bs_signature = ''s'' \<rparr>"

definition solo_events :: "engine_event list" where
  "solo_events = [Ev_Start 0 demo_proposal demo_vset, Ev_Prepare 1 ''v'' ''v'' demo_vote,
     Ev_Commit ''v'' ''v'' demo_vote]"

definition solo_round :: pbft_round where
  "solo_round = (round_with_config 0 demo_proposal demo_vset demo_config)\<lparr> phase := Finalised,
     prepare_sigs := [(''v'', demo_vote)], commit_sigs := [(''v'', demo_vote)], phase_entered_at := 1 \<rparr>"

lemma solo_env_hash [simp]: "block_hash_of solo_env demo_proposal = ''v''"
  by (simp add: solo_env_def block_hash_of_def header_hash_def sha256_hex_def sha256_def)

lemma solo_verify [simp]:
  assumes "blk r = demo_proposal" and "round_validators r = demo_vset" and "ph \<in> {''prepare'', ''commit''}"
  shows "verify_block_signature solo_env r ph ''v'' demo_vote = Inr ()"
  using assms
  by (auto simp: verify_block_signature_def demo_vote_def verify_pbft_phase_signature_def
      normalized_pubkey_def demo_info_def) (simp_all add: solo_env_def)

lemma solo_start:
  "start_round solo_env 0 demo_proposal demo_vset (engine_with_config demo_config) =
     (Inr ''v'', \<lparr> rounds = [(''v'', (round_with_config 0 demo_proposal demo_vset demo_config)\<lparr> phase := Prepare \<rparr>)],
        engine_config = demo_config \<rparr>)"
  by (simp add: start_round_def Let_def pre_prepare_def round_with_config_def engine_with_config_def
      check_vrf_proof_def select_proposer_deterministic_def vrf_candidates_def demo_vset_def
      scored_def demo_info_def is_member_def)

lemma solo_run: "engine_run solo_env demo_config solo_events = \<lparr> rounds = [(''v'', solo_round)], engine_config = demo_config \<rparr>"
  by (simp add: engine_run_def solo_events_def solo_start engine_prepare_def engine_commit_def
      receive_prepare_def receive_commit_def round_with_config_def quorum_def quorum_threshold_def
      solo_round_def Let_def)

lemma solo_rounds: "hm_get (rounds (engine_run solo_env demo_config solo_events)) ''v'' = Some solo_round"
  by (simp add: solo_run)

lemma solo_round_simps [simp]:
  "phase solo_round = Finalised" "round_validators solo_round = demo_vset" "blk solo_round = demo_proposal"
  by (simp_all add: solo_round_def round_with_config_def)


lemma finalised_block_facts:
  assumes inv: "engine_inv c e" and "get_finalised_block h e = Some b"
  obtains r where "hm_get (rounds e) h = Some r" and "phase r = Finalised"
    and "b = (blk r)\<lparr> pbft_signatures := finalised_signatures r \<rparr>" and "h = block_hash_of c (blk r)"
    and "round_config r = engine_config e"
    and "quorum r \<le> length (pbft_signatures b)" and "distinct (map bs_validator_id (pbft_signatures b))"
    and "pbft_signatures b \<noteq> []"
    and "\<forall>sg \<in> set (pbft_signatures b). verify_block_signature c r ''commit'' (bs_validator_id sg) sg = Inr ()"
proof -
  obtain r where r: "hm_get (rounds e) h = Some r" "phase r = Finalised"
    and b: "b = (blk r)\<lparr> pbft_signatures := finalised_signatures r \<rparr>"
    using assms(2) by (auto simp: get_finalised_block_Some)
  note i = engine_inv_get [OF inv r(1)]
  have v: "votes_ok c r ''commit'' (commit_sigs r)" and q: "quorum r \<le> length (commit_sigs r)"
    and ne: "commit_sigs r \<noteq> []"
    using i r(2) by (simp_all add: round_inv_def phase_inv_def)
  have ids: "verify_block_signature c r ''commit'' k sg = Inr () \<and> bs_validator_id sg = k"
    if "(k, sg) \<in> set (commit_sigs r)" for k sg
    using v that by (auto simp: votes_ok_def) (auto simp: verify_block_signature_ok_iff)
  have keys: "map bs_validator_id (hm_values (commit_sigs r)) = map fst (commit_sigs r)"
    using ids by (auto intro!: map_cong)
  have "distinct (map fst (commit_sigs r))"
    using v by (simp add: votes_ok_def hm_ok_def)
  moreover have sigs: "pbft_signatures b = hm_values (commit_sigs r)"
    by (simp add: b finalised_signatures_def)
  ultimately have "quorum r \<le> length (pbft_signatures b)" "distinct (map bs_validator_id (pbft_signatures b))"
    "pbft_signatures b \<noteq> []"
    unfolding sigs keys using q ne by simp_all
  moreover have "\<forall>sg \<in> set (pbft_signatures b).
      verify_block_signature c r ''commit'' (bs_validator_id sg) sg = Inr ()"
    using ids by (auto simp: sigs)
  ultimately show thesis using that [OF r b] i by auto
qed

text \<open>
  C2. Certified finality. Whatever the engine was fed, a block it hands out as finalised has
  the hash it was asked for and carries at least a quorum of commit signatures, of distinct
  validators, each verified over that hash for an active validator of the round.
\<close>

theorem finalised_block_certified:
  assumes "get_finalised_block h (engine_run c cfg evs) = Some b"
  shows "block_hash_of c b = h \<and>
    (\<exists>r. hm_get (rounds (engine_run c cfg evs)) h = Some r \<and>
       quorum r \<le> length (pbft_signatures b) \<and> distinct (map bs_validator_id (pbft_signatures b)) \<and>
       (\<forall>sg \<in> set (pbft_signatures b).
          verify_block_signature c r ''commit'' (bs_validator_id sg) sg = Inr ()))"
  by (rule finalised_block_facts [OF engine_run_inv assms]) auto

theorem finalised_block_certified_witness:
  "block_hash_of solo_env (demo_proposal\<lparr> pbft_signatures := [demo_vote] \<rparr>) = ''v''"
proof -
  have "get_finalised_block ''v'' (engine_run solo_env demo_config solo_events) =
      Some (demo_proposal\<lparr> pbft_signatures := [demo_vote] \<rparr>)"
    by (simp add: solo_run get_finalised_block_def solo_round_def round_with_config_def
        finalised_signatures_def)
  from finalised_block_certified [OF this] show ?thesis by blast
qed

section \<open>Invariants of one round\<close>

text \<open>
  C8. In every reachable round the commit phase and the finalised phase are entered only with
  a quorum of PREPARE votes whose signatures verify over the block, and the view number counts
  the view changes and stays within the configured limit (so the 32-bit counters do not wrap).
\<close>

theorem reachable_round_sound:
  assumes "pbft_reachable c b vs cfg r"
  shows "(phase r \<in> {Commit, Finalised} \<longrightarrow> quorum_threshold (vset_len vs) (allow_small_cluster_quorum cfg)
             \<le> card {v. \<exists>sg. hm_get (prepare_sigs r) v = Some sg \<and>
                   verify_block_signature c r ''prepare'' v sg = Inr ()}) \<and>
         view_number r = view_change_count r \<and> view_number r \<le> max_view_changes cfg \<and>
         blk r = b \<and> round_validators r = vs"
proof -
  note inv = reachable_round_inv [OF assms]
  have v: "votes_ok c r ''prepare'' (prepare_sigs r)"
    using inv by (simp add: round_inv_def)
  then have "{v. \<exists>sg. hm_get (prepare_sigs r) v = Some sg \<and>
      verify_block_signature c r ''prepare'' v sg = Inr ()} = dom (hm_get (prepare_sigs r))"
    by (auto simp: votes_ok_def dest: map_of_SomeD)
  moreover have "card (dom (hm_get (prepare_sigs r))) = length (prepare_sigs r)"
    using v by (simp add: votes_ok_def hm.size_dom)
  ultimately show ?thesis
    using inv by (auto simp: round_inv_def phase_inv_def quorum_def)
qed

lemma solo_prepared:
  "pbft_reachable solo_env demo_proposal demo_vset demo_config
     ((round_with_config 0 demo_proposal demo_vset demo_config)\<lparr> phase := Commit,
        prepare_sigs := [(''v'', demo_vote)], phase_entered_at := 1 \<rparr>)"
proof (rule reach_step [OF reach_step [OF reach_start [where now = 0]]])
  let ?r = "round_with_config 0 demo_proposal demo_vset demo_config"
  show "pbft_step solo_env ?r (?r\<lparr> phase := Prepare, phase_entered_at := 0 \<rparr>)"
    by (rule step_pre_prepare [where now = 0 and proposer = "''v''" and res = "Inr ''v''"])
      (simp add: pre_prepare_def round_with_config_def check_vrf_proof_def
        select_proposer_deterministic_def vrf_candidates_def demo_vset_def scored_def demo_info_def
        is_member_def)
  show "pbft_step solo_env (?r\<lparr> phase := Prepare, phase_entered_at := 0 \<rparr>)
      (?r\<lparr> phase := Commit, prepare_sigs := [(''v'', demo_vote)], phase_entered_at := 1 \<rparr>)"
    by (rule step_prepare [where now = 1 and v = "''v''" and sg = demo_vote and res = "Inr True"])
      (simp add: receive_prepare_def Let_def quorum_def quorum_threshold_def round_with_config_def)
qed

theorem reachable_round_sound_witness:
  "quorum_threshold 1 False \<le> card {v. \<exists>sg. hm_get [(''v'', demo_vote)] v = Some sg \<and>
     verify_block_signature solo_env
       ((round_with_config 0 demo_proposal demo_vset demo_config)\<lparr> phase := Commit,
          prepare_sigs := [(''v'', demo_vote)], phase_entered_at := 1 \<rparr>) ''prepare'' v sg = Inr ()}"
  using reachable_round_sound [OF solo_prepared] by (simp add: demo_config_def)

text \<open>
  Messages only move a round forward: accepting a proposal, a PREPARE or a COMMIT never
  lowers its phase, and a message that is rejected leaves the round as it was.
\<close>

lemma messages_move_forward:
  "phase r \<le> phase (snd (pre_prepare c now p r)) \<and>
   phase r \<le> phase (snd (receive_prepare c now v sg r)) \<and>
   phase r \<le> phase (snd (receive_commit c v sg r)) \<and>
   (is_ok (fst (pre_prepare c now p r)) \<or> snd (pre_prepare c now p r) = r) \<and>
   (is_ok (fst (receive_prepare c now v sg r)) \<or> snd (receive_prepare c now v sg r) = r) \<and>
   (is_ok (fst (receive_commit c v sg r)) \<or> snd (receive_commit c v sg r) = r)"
  by (auto simp: pre_prepare_def receive_prepare_def receive_commit_def Let_def
      split: sum.split option.split)

end
