(* ===== verification/Light_Client.thy ===== *)
theory Light_Client
  imports Merkle Pbft_Engine
begin

text \<open>
  Verification of a package proof by the resolver, \<^verbatim>\<open>crates/resolver/src/light_client.rs\<close>: the
  digest of the validator set, the check of the commit signatures of a block, the check of a
  chain of headers from a checkpoint, and \<^verbatim>\<open>verify_package\<close> from the moment it has parsed
  the node's response (the HTTP exchange before it is not modelled).

  The lemmas show what acceptance means: a chain of headers is fixed by its last hash, an
  accepted block has a quorum of verified signatures, and a block that the consensus engine
  finalised is accepted. Two further theorems state what acceptance does not bind.
\<close>

section \<open>Definitions\<close>

record checkpoint =
  cp_height :: nat
  cp_hash :: string

definition genesis_checkpoint :: "env \<Rightarrow> checkpoint" where
  "genesis_checkpoint c = \<lparr> cp_height = 0, cp_hash = block_hash_of c genesis \<rparr>"

text \<open>The identifiers, sorted, each followed by a zero byte.\<close>

definition compute_validator_set_hash :: "'a crypto_scheme \<Rightarrow> validator list \<Rightarrow> string" where
  "compute_validator_set_hash c vs =
     sha256_hex c (concat (map (\<lambda>i. i @ [CHR 0x00]) (sort (map v_id vs))))"

datatype light_error =
    ValidatorSetHashMismatch
  | EmptyValidatorSet
  | BadValidatorPubkeyHex string
  | BadValidatorPubkey string
  | BadSignatureHex string
  | BadSignatureFormat string
  | BadSignature string
  | InsufficientSignatures nat nat
  | HeaderHashMismatch nat
  | HeightMismatch nat nat
  | ChainBreak nat
  | MerkleProofFailed string
  | MerkleRootMismatch string
  | TerminalBlockOmitted string
  | TerminalMismatch string
  | CheckpointMismatch string

definition light_quorum :: "bool \<Rightarrow> nat \<Rightarrow> nat" where
  "light_quorum allow_small n = (if n = 3 \<and> allow_small then 2 else 2 * n div 3 + 1)"

definition light_allow_small :: "(string \<Rightarrow> string option) \<Rightarrow> bool" where
  "light_allow_small getenv =
     (case getenv ''CREG_PBFT_ALLOW_SMALL_CLUSTER_QUORUM'' of
        None \<Rightarrow> False | Some v \<Rightarrow> v = ''true'' \<or> v = ''1'')"

definition validator_pubkeys :: "validator list \<Rightarrow> (string, string) hash_map" where
  "validator_pubkeys vs = foldl (\<lambda>m v. hm_insert (v_id v) (normalized_pubkey (v_pubkey v)) m) [] vs"

text \<open>The loop over the signatures, with the validators seen so far.\<close>

fun check_signatures ::
    "'a crypto_scheme \<Rightarrow> (string, string) hash_map \<Rightarrow> string \<Rightarrow> string set \<Rightarrow> block_signature list \<Rightarrow> light_error + string set"
  where
  "check_signatures c pubkeys msg seen [] = Inr seen"
| "check_signatures c pubkeys msg seen (sg # sigs) =
     (case hm_get pubkeys (bs_validator_id sg) of
        None \<Rightarrow> check_signatures c pubkeys msg seen sigs
      | Some expected \<Rightarrow>
          if normalized_pubkey (bs_pubkey sg) \<noteq> expected then check_signatures c pubkeys msg seen sigs
          else if bs_validator_id sg \<in> seen then check_signatures c pubkeys msg seen sigs
          else case hex_decode c expected of
                 None \<Rightarrow> Inl (BadValidatorPubkeyHex (bs_validator_id sg))
               | Some pk \<Rightarrow>
                   if \<not> vk_try_from c pk then Inl (BadValidatorPubkey (bs_validator_id sg))
                   else case hex_decode c (trim_start_0x (bs_signature sg)) of
                          None \<Rightarrow> Inl (BadSignatureHex (bs_validator_id sg))
                        | Some s \<Rightarrow>
                            if \<not> sig_try_from c s then Inl (BadSignatureFormat (bs_validator_id sg))
                            else if \<not> ed_verify c pk msg s then Inl (BadSignature (bs_validator_id sg))
                            else check_signatures c pubkeys msg (insert (bs_validator_id sg) seen) sigs)"

definition verify_pbft_consensus ::
    "'a crypto_scheme \<Rightarrow> bool \<Rightarrow> string \<Rightarrow> block_header \<Rightarrow> validator list \<Rightarrow> block_signature list \<Rightarrow> light_error + unit"
  where
  "verify_pbft_consensus c allow_small bh hdr active sigs =
     (if compute_validator_set_hash c active \<noteq> validator_set_hash hdr then Inl ValidatorSetHashMismatch
      else
        let n = length active in
        if n = 0 then Inl EmptyValidatorSet
        else
          and_then (check_signatures c (validator_pubkeys active) (''creg-pbft-v1:commit:'' @ bh) {} sigs)
            (\<lambda>seen. if card seen < light_quorum allow_small n
                    then Inl (InsufficientSignatures (card seen) (light_quorum allow_small n))
                    else Inr ()))"

definition verify_header :: "env \<Rightarrow> block_header \<Rightarrow> string \<Rightarrow> nat \<Rightarrow> light_error + unit" where
  "verify_header c hdr expected_hash expected_height =
     (if header_hash c hdr \<noteq> expected_hash then Inl (HeaderHashMismatch expected_height)
      else if height hdr \<noteq> expected_height then Inl (HeightMismatch expected_height (height hdr))
      else Inr ())"

text \<open>The loop over \<^verbatim>\<open>headers.windows(2)\<close>: a header, its hash, and the rest.\<close>

fun verify_links :: "env \<Rightarrow> block_header \<times> string \<Rightarrow> (block_header \<times> string) list \<Rightarrow> light_error + unit" where
  "verify_links c prev [] = Inr ()"
| "verify_links c (prev_header, prev_h) ((next_header, next_h) # rest) =
     and_then (verify_header c next_header next_h (height prev_header + 1))
       (\<lambda>_. if prev_hash next_header \<noteq> prev_h then Inl (ChainBreak (height next_header))
            else verify_links c (next_header, next_h) rest)"

fun verify_header_chain :: "env \<Rightarrow> (block_header \<times> string) list \<Rightarrow> checkpoint \<Rightarrow> light_error + unit" where
  "verify_header_chain c [] cp = Inr ()"
| "verify_header_chain c ((first_header, first_hash) # rest) cp =
     and_then (verify_header c first_header first_hash (cp_height cp + 1))
       (\<lambda>_. if prev_hash first_header \<noteq> cp_hash cp then Inl (ChainBreak (height first_header))
            else verify_links c (first_header, first_hash) rest)"

record light_client_response =
  lc_status :: string
  lc_block_hash :: string
  lc_block_header :: block_header
  lc_proof :: merkle_proof
  lc_header_chain :: "(block_header \<times> string) list"
  lc_pbft_signatures :: "block_signature list"
  lc_active_validators :: "validator list"

definition relevant_headers :: "checkpoint \<Rightarrow> light_client_response \<Rightarrow> (block_header \<times> string) list" where
  "relevant_headers cp resp = filter (\<lambda>(h, _). cp_height cp < height h) (lc_header_chain resp)"

definition verify_response ::
    "env \<Rightarrow> bool \<Rightarrow> string \<Rightarrow> checkpoint \<Rightarrow> light_client_response \<Rightarrow> light_error + bool" where
  "verify_response c allow_small can cp resp =
     (if lc_status resp \<noteq> ''verified'' then Inr False
      else if \<not> proof_verify c (lc_proof resp) then Inl (MerkleProofFailed can)
      else if expected_root (lc_proof resp) \<noteq> merkle_root_field (lc_block_header resp)
      then Inl (MerkleRootMismatch can)
      else
        and_then (verify_header c (lc_block_header resp) (lc_block_hash resp) (height (lc_block_header resp)))
        (\<lambda>_. and_then (verify_pbft_consensus c allow_small (lc_block_hash resp) (lc_block_header resp)
                 (lc_active_validators resp) (lc_pbft_signatures resp))
        (\<lambda>_. let relevant = relevant_headers cp resp in
          if cp_height cp < height (lc_block_header resp) \<and> relevant = [] then Inl (TerminalBlockOmitted can)
          else if relevant \<noteq> [] then
            (let (terminal_header, terminal_hash) = last relevant in
             if terminal_hash \<noteq> lc_block_hash resp
               \<or> height terminal_header \<noteq> height (lc_block_header resp)
             then Inl (TerminalMismatch can)
             else and_then (verify_header_chain c relevant cp) (\<lambda>_. Inr True))
          else if height (lc_block_header resp) \<noteq> cp_height cp \<or> lc_block_hash resp \<noteq> cp_hash cp
          then Inl (CheckpointMismatch can)
          else Inr True)))"

section \<open>Chains of headers\<close>

text \<open>A list of headers that continues from a given height and hash.\<close>

fun linked :: "env \<Rightarrow> nat \<Rightarrow> string \<Rightarrow> (block_header \<times> string) list \<Rightarrow> bool" where
  "linked c h0 prev [] = True"
| "linked c h0 prev ((hdr, h) # rest) \<longleftrightarrow>
     h = header_hash c hdr \<and> height hdr = Suc h0 \<and> prev_hash hdr = prev \<and> linked c (height hdr) h rest"

lemma verify_header_ok: "verify_header c hdr h n = Inr () \<longleftrightarrow> header_hash c hdr = h \<and> height hdr = n"
  by (simp add: verify_header_def)

lemma verify_links_ok: "verify_links c prev rest = Inr () \<longleftrightarrow> linked c (height (fst prev)) (snd prev) rest"
  by (induction c prev rest rule: verify_links.induct)
    (auto simp: and_then_eq_Inr verify_header_ok split: if_splits)

lemma verify_header_chain_ok:
  "verify_header_chain c hs cp = Inr () \<longleftrightarrow> linked c (cp_height cp) (cp_hash cp) hs"
  by (cases "(c, hs, cp)" rule: verify_header_chain.cases)
    (auto simp: and_then_eq_Inr verify_header_ok verify_links_ok)

lemma linked_append: "linked c h0 prev (xs @ [x]) \<longleftrightarrow> linked c h0 prev xs \<and>
    linked c (h0 + length xs) (if xs = [] then prev else snd (last xs)) [x]"
  by (induction c h0 prev xs rule: linked.induct) auto

lemma linked_height: "linked c h0 prev (xs @ [x]) \<Longrightarrow> height (fst x) = Suc (h0 + length xs)"
  by (cases x) (simp add: linked_append)

text \<open>
  Without collisions the last hash fixes the last header, and with it the hash before.
\<close>

lemma linked_unique:
  assumes "inj_on (header_hash c) (fst ` set xs \<union> fst ` set ys)"
    and "linked c h0 prev xs" and "linked c h0 prev ys" and "xs \<noteq> []" and "ys \<noteq> []"
    and "snd (last xs) = snd (last ys)"
  shows "xs = ys"
  using assms
proof (induction xs arbitrary: ys rule: rev_induct)
  case (snoc x xs)
  obtain y ys' where ys: "ys = ys' @ [y]" using snoc.prems(5) by (cases ys rule: rev_cases) auto
  have lx: "linked c (h0 + length xs) (if xs = [] then prev else snd (last xs)) [x]"
    and ly: "linked c (h0 + length ys') (if ys' = [] then prev else snd (last ys')) [y]"
    using snoc.prems(2,3) by (simp_all add: ys linked_append)
  have "header_hash c (fst x) = header_hash c (fst y)"
    using snoc.prems(6) lx ly by (cases x; cases y) (simp add: ys)
  then have fst_eq: "fst x = fst y"
    by (rule inj_onD [OF snoc.prems(1)]) (simp_all add: ys)
  then have xy: "x = y" using snoc.prems(6) by (simp add: ys prod_eq_iff)
  have len: "length xs = length ys'"
    using linked_height snoc.prems(2,3) fst_eq unfolding ys by (metis add_left_cancel nat.inject)
  show ?case
  proof (cases "xs = []")
    case False
    then have ne: "ys' \<noteq> []" using len by auto
    have "snd (last xs) = snd (last ys')"
      using lx ly xy False ne by (cases y) simp
    moreover have "inj_on (header_hash c) (fst ` set xs \<union> fst ` set ys')"
      by (rule inj_on_subset [OF snoc.prems(1)]) (auto simp: ys)
    ultimately have "xs = ys'"
      using snoc.IH [of ys'] snoc.prems(2,3) False ne by (simp add: ys linked_append)
    then show ?thesis by (simp add: ys xy)
  qed (use len xy ys in simp)
qed simp

text \<open>
  A chain of headers is tamper evident: two chains that the light client accepts from the
  same checkpoint and that end in the same hash are identical, if no two different headers of
  the two chains have the same hash.
\<close>

lemma header_chain_unique:
  assumes "verify_header_chain c hs cp = Inr ()" and "verify_header_chain c hs' cp = Inr ()"
    and "hs \<noteq> []" and "hs' \<noteq> []" and "snd (last hs) = snd (last hs')"
    and "inj_on (header_hash c) (fst ` set hs \<union> fst ` set hs')"
  shows "hs = hs'"
  using assms unfolding verify_header_chain_ok by (metis linked_unique)

lemma header_chain_unique_witness:
  "{hs. hs \<noteq> [] \<and> verify_header_chain unary_env hs \<lparr> cp_height = 0, cp_hash = replicate 64 (CHR ''0'') \<rparr> = Inr () \<and>
      snd (last hs) = header_hash unary_env (header demo_proposal)} =
   {[(header demo_proposal, header_hash unary_env (header demo_proposal))]}"
proof -
  let ?hs = "[(header demo_proposal, header_hash unary_env (header demo_proposal))]"
  have ok: "verify_header_chain unary_env ?hs \<lparr> cp_height = 0, cp_hash = replicate 64 (CHR ''0'') \<rparr> = Inr ()"
    by (simp add: verify_header_def)
  have "hs = ?hs" if "hs \<noteq> []" "snd (last hs) = header_hash unary_env (header demo_proposal)"
    "verify_header_chain unary_env hs \<lparr> cp_height = 0, cp_hash = replicate 64 (CHR ''0'') \<rparr> = Inr ()" for hs
    by (rule header_chain_unique [OF that(3) ok that(1)]) (simp_all only: that(2) last.simps if_True snd_conv refl list.distinct not_False_eq_True
        inj_on_subset [OF unary_hash_inj subset_UNIV])
  with ok show ?thesis by fastforce
qed

text \<open>
  An accepted chain starts right after the checkpoint, its heights are consecutive, every
  hash is the hash of its header, and every header names the hash before it.
\<close>

lemma header_chain_sound:
  assumes "verify_header_chain c hs cp = Inr ()" and "i < length hs"
  shows "height (fst (hs ! i)) = cp_height cp + i + 1 \<and> snd (hs ! i) = header_hash c (fst (hs ! i)) \<and>
    prev_hash (fst (hs ! i)) = (if i = 0 then cp_hash cp else snd (hs ! (i - 1)))"
proof -
  have "linked c h0 p hs \<Longrightarrow> height (fst (hs ! i)) = h0 + i + 1 \<and> snd (hs ! i) = header_hash c (fst (hs ! i)) \<and>
    prev_hash (fst (hs ! i)) = (if i = 0 then p else snd (hs ! (i - 1)))" for h0 p
    using assms(2)
  proof (induction hs arbitrary: h0 p i)
    case (Cons x hs)
    show ?case
    proof (cases i)
      case 0
      with Cons.prems show ?thesis by (cases x) simp
    next
      case (Suc j)
      with Cons.prems Cons.IH [of "height (fst x)" "snd x" j] show ?thesis by (cases x; cases j) auto
    qed
  qed simp
  then show ?thesis using assms(1) by (simp add: verify_header_chain_ok)
qed

lemma header_chain_sound_witness:
  "height (fst ([(header demo_proposal, ''v'')] ! 0)) = 0 + 0 + 1 \<and>
   snd ([(header demo_proposal, ''v'')] ! 0) = header_hash demo_env (fst ([(header demo_proposal, ''v'')] ! 0)) \<and>
   prev_hash (fst ([(header demo_proposal, ''v'')] ! 0)) = replicate 64 (CHR ''0'')"
proof -
  have "verify_header_chain demo_env [(header demo_proposal, ''v'')]
      \<lparr> cp_height = 0, cp_hash = replicate 64 (CHR ''0'') \<rparr> = Inr ()"
    by (simp add: verify_header_def header_hash_def sha256_hex_def sha256_def)
  from header_chain_sound [OF this, of 0] show ?thesis by simp
qed

section \<open>Commit signatures\<close>

definition valid_commit :: "'a crypto_scheme \<Rightarrow> string \<Rightarrow> string \<Rightarrow> block_signature \<Rightarrow> bool" where
  "valid_commit c msg pubkey sg \<longleftrightarrow>
     normalized_pubkey (bs_pubkey sg) = pubkey \<and>
     (\<exists>pk s. hex_decode c pubkey = Some pk \<and> vk_try_from c pk \<and>
        hex_decode c (trim_start_0x (bs_signature sg)) = Some s \<and> sig_try_from c s \<and> ed_verify c pk msg s)"

lemma check_signatures_sound:
  assumes "check_signatures c pks msg seen sigs = Inr seen'"
  shows "seen \<subseteq> seen' \<and> finite (seen' - seen) \<and>
    (\<forall>v \<in> seen' - seen. \<exists>sg \<in> set sigs. bs_validator_id sg = v \<and>
       (\<exists>pk. hm_get pks v = Some pk \<and> valid_commit c msg pk sg))"
  using assms
proof (induction sigs arbitrary: seen)
  case (Cons sg sigs)
  show ?case
  proof (cases "check_signatures c pks msg seen sigs = Inr seen'")
    case True
    with Cons.IH [OF this] show ?thesis by auto
  next
    case False
    with Cons.prems have rest: "check_signatures c pks msg (insert (bs_validator_id sg) seen) sigs = Inr seen'"
      and ok: "\<exists>pk. hm_get pks (bs_validator_id sg) = Some pk \<and> valid_commit c msg pk sg"
      by (auto simp: valid_commit_def split: option.splits if_splits)
    have "seen' - seen \<subseteq> insert (bs_validator_id sg) (seen' - insert (bs_validator_id sg) seen)" by auto
    with Cons.IH [OF rest] ok show ?thesis
      by (auto intro: finite_subset)
  qed
qed simp

text \<open>Signatures of different validators that all verify are all counted.\<close>

lemma check_signatures_complete:
  assumes "\<forall>sg \<in> set sigs. \<exists>pk. hm_get pks (bs_validator_id sg) = Some pk \<and> valid_commit c msg pk sg"
    and "distinct (map bs_validator_id sigs)" and "seen \<inter> bs_validator_id ` set sigs = {}"
  shows "check_signatures c pks msg seen sigs = Inr (seen \<union> bs_validator_id ` set sigs)"
  using assms
proof (induction sigs arbitrary: seen)
  case (Cons sg sigs)
  then obtain pk where "hm_get pks (bs_validator_id sg) = Some pk" "valid_commit c msg pk sg" by auto
  then have "check_signatures c pks msg seen (sg # sigs) =
      check_signatures c pks msg (insert (bs_validator_id sg) seen) sigs"
    using Cons.prems(3) by (auto simp: valid_commit_def)
  moreover have "check_signatures c pks msg (insert (bs_validator_id sg) seen) sigs =
      Inr (insert (bs_validator_id sg) seen \<union> bs_validator_id ` set sigs)"
    using Cons.prems by (intro Cons.IH) auto
  ultimately show ?case by simp
qed simp

lemma validator_pubkeys_get:
  assumes "distinct (map v_id vs)"
  shows "hm_get (validator_pubkeys vs) i = Some pk \<longleftrightarrow>
    (\<exists>v \<in> set vs. v_id v = i \<and> pk = normalized_pubkey (v_pubkey v))"
  using assms unfolding validator_pubkeys_def
  by (induction vs arbitrary: i pk rule: rev_induct) (auto simp: update_conv' image_iff)

lemma validator_pubkeys_dom: "dom (hm_get (validator_pubkeys vs)) = v_id ` set vs"
  unfolding validator_pubkeys_def by (induction vs rule: rev_induct) (simp_all add: update_conv' del: fun_upd_apply)

interpretation lq: bft_quorum "light_quorum False"
  by unfold_locales (simp_all add: light_quorum_def)


lemma validator_pubkeys_demo [simp]:
  "validator_pubkeys [v] = [(v_id v, normalized_pubkey (v_pubkey v))]"
  by (simp add: validator_pubkeys_def)

definition demo_validator :: validator where
  "demo_validator = \<lparr> v_id = ''v'', v_alias = ''v'', v_pubkey = ''k'', v_eth_address = [],
     v_stake = 100, v_reputation = 50, v_status = ''online'' \<rparr>"

definition demo_signed_header :: block_header where
  "demo_signed_header = (header demo_proposal)\<lparr> validator_set_hash := ''v'' @ [CHR 0x00] \<rparr>"


section \<open>Blocks the consensus engine finalised\<close>

lemma vset_from_get:
  assumes "distinct (map v_id vs)"
  shows "hm_get (validators (vset_from vs)) i = Some info \<longleftrightarrow>
    (\<exists>v \<in> set vs. v_id v = i \<and> info = validator_info_of v)"
  using assms unfolding vset_from_def
proof (induction vs arbitrary: i info rule: rev_induct)
  case (snoc x xs)
  then show ?case by (auto simp: vset_add_def update_conv' validator_info_of_def image_iff)
qed (simp add: vset_new_def)

lemma vset_len_from:
  assumes "distinct (map v_id vs)" and "\<forall>v \<in> set vs. is_active (validator_info_of v)"
  shows "vset_len (vset_from vs) = length vs"
proof -
  have "members (vset_from vs) = v_id ` set vs"
    using assms(2) vset_from_get [OF assms(1)]
    by (force simp: members_def is_member_def split: option.splits)
  moreover have "card (v_id ` set vs) = length vs"
    using distinct_card [OF assms(1)] by simp
  ultimately show ?thesis by (simp add: vset_len_members vset_wf_from)
qed

lemma engine_commit_is_valid:
  assumes "verify_block_signature c r ''commit'' i sg = Inr ()" and "round_validators r = vset_from vs"
    and d: "distinct (map v_id vs)"
    and keys: "\<forall>v \<in> set vs. normalized_pubkey (normalized_pubkey (v_pubkey v)) = normalized_pubkey (v_pubkey v)"
  shows "bs_validator_id sg = i \<and> (\<exists>pk. hm_get (validator_pubkeys vs) i = Some pk \<and>
    valid_commit c (pbft_signature_message ''commit'' (block_hash_of c (blk r))) pk sg)"
proof -
  from assms(1,2) obtain v where v: "v \<in> set vs" "v_id v = i" and id: "bs_validator_id sg = i"
    and key: "normalized_pubkey (bs_pubkey sg) = normalized_pubkey (v_pubkey v)"
    and ok: "verify_pbft_phase_signature c ''commit'' (block_hash_of c (blk r))
        (normalized_pubkey (v_pubkey v)) (bs_signature sg) = Inr ()"
    by (auto simp: verify_block_signature_ok_iff vset_from_get [OF d] validator_info_of_def)
  have "hm_get (validator_pubkeys vs) i = Some (normalized_pubkey (v_pubkey v))"
    using v validator_pubkeys_get [OF d] by auto
  moreover have "valid_commit c (pbft_signature_message ''commit'' (block_hash_of c (blk r)))
      (normalized_pubkey (v_pubkey v)) sg"
    using ok key keys v(1)
    by (auto simp: verify_pbft_phase_signature_def valid_commit_def split: option.splits if_splits)
  ultimately show ?thesis using id by blast
qed

lemma engine_block_accepted:
  assumes inv: "engine_inv c e" and b: "get_finalised_block h e = Some b"
    and r: "hm_get (rounds e) h = Some r" "round_validators r = vset_from vs"
    and vs: "distinct (map v_id vs)" "\<forall>v \<in> set vs. is_active (validator_info_of v)"
      "\<forall>v \<in> set vs. normalized_pubkey (normalized_pubkey (v_pubkey v)) = normalized_pubkey (v_pubkey v)"
    and hash: "validator_set_hash (header b) = compute_validator_set_hash c vs"
  shows "verify_pbft_consensus c (allow_small_cluster_quorum (engine_config e)) h (header b) vs (pbft_signatures b) = Inr ()"
proof -
  obtain r' where r': "hm_get (rounds e) h = Some r'" "phase r' = Finalised"
    "b = (blk r')\<lparr> pbft_signatures := finalised_signatures r' \<rparr>" "h = block_hash_of c (blk r')"
    "round_config r' = engine_config e"
    and q: "quorum r' \<le> length (pbft_signatures b)" "distinct (map bs_validator_id (pbft_signatures b))"
    "pbft_signatures b \<noteq> []"
    and sigs: "\<forall>sg \<in> set (pbft_signatures b). verify_block_signature c r' ''commit'' (bs_validator_id sg) sg = Inr ()"
    by (rule finalised_block_facts [OF inv b])
  have "r' = r" using r(1) r'(1) by simp
  note commit = engine_commit_is_valid [OF _ r(2) vs(1,3)]
  have check: "check_signatures c (validator_pubkeys vs) (pbft_signature_message ''commit'' h) {} (pbft_signatures b)
      = Inr ({} \<union> bs_validator_id ` set (pbft_signatures b))"
    using sigs commit q(2) r'(4) \<open>r' = r\<close> by (intro check_signatures_complete) auto
  have card: "card (bs_validator_id ` set (pbft_signatures b)) = length (pbft_signatures b)"
    using distinct_card [OF q(2)] by simp
  obtain sg where "sg \<in> set (pbft_signatures b)" using q(3) by (cases "pbft_signatures b") auto
  with sigs \<open>r' = r\<close> have "\<exists>info. hm_get (validators (vset_from vs)) (bs_validator_id sg) = Some info"
    by (auto simp: verify_block_signature_ok_iff r(2))
  then have "vs \<noteq> []" by (auto simp: vset_from_def vset_new_def)
  moreover have "quorum r' = light_quorum (allow_small_cluster_quorum (engine_config e)) (length vs)"
    using \<open>r' = r\<close> r(2) r'(5) \<open>vs \<noteq> []\<close> vset_len_from [OF vs(1,2)]
    by (auto simp: quorum_def quorum_threshold_def light_quorum_def)
  ultimately show ?thesis
    using check card q(1) hash
    by (simp add: verify_pbft_consensus_def pbft_signature_message_def Let_def)
qed


definition demo_signed_block :: block where
  "demo_signed_block = demo_proposal\<lparr> header := demo_signed_header \<rparr>"

definition light_events :: "engine_event list" where
  "light_events = [Ev_Start 0 demo_signed_block (vset_from [demo_validator]),
     Ev_Prepare 1 ''v'' ''v'' demo_vote, Ev_Commit ''v'' ''v'' demo_vote]"

lemma demo_signed_simps [simp]:
  "proposer_id demo_signed_header = ''v''" "vrf_proof demo_signed_header = None"
  "header demo_signed_block = demo_signed_header" "block_hash_of solo_env demo_signed_block = ''v''"
  by (simp_all add: demo_signed_header_def demo_signed_block_def solo_env_def block_hash_of_def
      header_hash_def sha256_hex_def sha256_def)

lemma light_vset: "vset_from [demo_validator] = \<lparr> validators = [(''v'', validator_info_of demo_validator)] \<rparr>"
  by (simp add: vset_from_def vset_add_def vset_new_def demo_validator_def validator_info_of_def)

lemma light_info [simp]:
  "vi_id (validator_info_of demo_validator) = ''v''" "vi_pubkey (validator_info_of demo_validator) = ''k''"
  "is_active (validator_info_of demo_validator)"
  by (simp_all add: demo_validator_def validator_info_of_def)

lemma light_verify:
  assumes "blk r = demo_signed_block" and "round_validators r = vset_from [demo_validator]"
    and "ph \<in> {''prepare'', ''commit''}"
  shows "verify_block_signature solo_env r ph ''v'' demo_vote = Inr ()"
  using assms
  by (auto simp: verify_block_signature_def demo_vote_def verify_pbft_phase_signature_def
      normalized_pubkey_def light_vset) (simp_all add: solo_env_def)

lemma light_run:
  "\<exists>r. rounds (engine_run solo_env demo_config light_events) = [(''v'', r)] \<and> phase r = Finalised \<and>
     round_validators r = vset_from [demo_validator] \<and> blk r = demo_signed_block"
proof -
  let ?r = "round_with_config 0 demo_signed_block (vset_from [demo_validator]) demo_config"
  have start: "start_round solo_env 0 demo_signed_block (vset_from [demo_validator]) (engine_with_config demo_config) =
     (Inr ''v'', \<lparr> rounds = [(''v'', ?r\<lparr> phase := Prepare \<rparr>)], engine_config = demo_config \<rparr>)"
    by (simp add: start_round_def Let_def pre_prepare_def round_with_config_def engine_with_config_def
      check_vrf_proof_def select_proposer_deterministic_def vrf_candidates_def light_vset
      scored_def is_member_def)
  have len: "vset_len (vset_from [demo_validator]) = 1" by (simp add: light_vset vset_len_def)
  show ?thesis
    by (simp add: engine_run_def light_events_def start engine_prepare_def engine_commit_def
      receive_prepare_def receive_commit_def round_with_config_def quorum_def quorum_threshold_def
      light_verify len Let_def)
qed


section \<open>The verdict on a package\<close>

text \<open>
  A positive verdict means that the block header hashes to the block hash, the inclusion
  proof leads to the header's Merkle root, the commit signatures were accepted, and the block
  is the checkpoint or ends a linked chain of headers that starts right after it.
\<close>

lemma verdict_sound:
  assumes "verify_response c small can cp resp = Inr True"
  shows "lc_block_hash resp = header_hash c (lc_block_header resp) \<and>
    foldl (merkle_walk c) (mp_tx_hash (lc_proof resp)) (path (lc_proof resp)) = merkle_root_field (lc_block_header resp) \<and>
    verify_pbft_consensus c small (lc_block_hash resp) (lc_block_header resp) (lc_active_validators resp)
      (lc_pbft_signatures resp) = Inr () \<and>
    (lc_block_hash resp = cp_hash cp \<and> height (lc_block_header resp) = cp_height cp \<or>
     relevant_headers cp resp \<noteq> [] \<and> linked c (cp_height cp) (cp_hash cp) (relevant_headers cp resp) \<and>
       snd (last (relevant_headers cp resp)) = lc_block_hash resp)"
  using assms
  by (auto simp: verify_response_def proof_verify_def and_then_eq_Inr verify_header_ok
      verify_header_chain_ok Let_def split: if_splits prod.splits)

definition demo_response :: light_client_response where
  "demo_response = \<lparr> lc_status = ''verified'', lc_block_hash = ''v'', lc_block_header = demo_signed_header,
     lc_proof = \<lparr> mp_tx_hash = merkle_root_field demo_signed_header, path = [],
       expected_root = merkle_root_field demo_signed_header \<rparr>,
     lc_header_chain = [], lc_pbft_signatures = [demo_vote], lc_active_validators = [demo_validator] \<rparr>"

lemma demo_response_ok: "verify_response solo_env False can \<lparr> cp_height = 1, cp_hash = ''v'' \<rparr> demo_response = Inr True"
proof -
  have "verify_pbft_consensus solo_env False ''v'' demo_signed_header [demo_validator] [demo_vote] = Inr ()"
    by (simp add: verify_pbft_consensus_def compute_validator_set_hash_def demo_signed_header_def
        demo_validator_def demo_vote_def light_quorum_def normalized_pubkey_def sha256_hex_def sha256_def)
      (simp add: solo_env_def pbft_signature_message_def)
  moreover have "header_hash solo_env demo_signed_header = ''v''"
    by (simp add: header_hash_def sha256_hex_def sha256_def solo_env_def)
  moreover have "height demo_signed_header = 1" by (simp add: demo_signed_header_def)
  ultimately show ?thesis
    by (simp add: verify_response_def demo_response_def proof_verify_def verify_header_def
        relevant_headers_def)
qed

lemma verdict_sound_witness: "lc_block_hash demo_response = header_hash solo_env (lc_block_header demo_response)"
  using verdict_sound [OF demo_response_ok] by blast

text \<open>
  The verdict does not depend on the package: a response that is accepted for one package
  name is accepted for every other, since nothing ties the proven transaction to the name.
\<close>

lemma verdict_ignores_package:
  assumes "verify_response c small can cp resp = Inr True"
  shows "verify_response c small other cp resp = Inr True"
  using assms
  by (auto simp: verify_response_def and_then_eq_Inr Let_def split: if_splits prod.splits)

lemma verdict_ignores_package_witness:
  "verify_response solo_env False ''npm:left-pad@1'' \<lparr> cp_height = 1, cp_hash = ''v'' \<rparr> demo_response = Inr True \<and>
   verify_response solo_env False ''npm:malware@6'' \<lparr> cp_height = 1, cp_hash = ''v'' \<rparr> demo_response = Inr True"
  using verdict_ignores_package [OF demo_response_ok [of "''npm:left-pad@1''"], of "''npm:malware@6''"]
    demo_response_ok by blast

lemma set_hash_ignores_keys:
  "compute_validator_set_hash c (map (\<lambda>v. v\<lparr> v_pubkey := k \<rparr>) vs) = compute_validator_set_hash c vs"
  by (simp add: compute_validator_set_hash_def comp_def)

definition forged_signature :: "'a crypto_scheme \<Rightarrow> string \<Rightarrow> string \<Rightarrow> string \<Rightarrow> validator \<Rightarrow> block_signature" where
  "forged_signature c sk pk bh v =
     \<lparr> bs_validator_id = v_id v, bs_pubkey = pk,
       bs_signature = hex_encode c (ed_sign c sk (pbft_signature_message ''commit'' bh)) \<rparr>"

lemma forged_signature_valid:
  assumes "crypto_roundtrip c" and "length sk = 32" and "pk = hex_encode c (ed_public c sk)"
    and "normalized_pubkey pk = pk" and "\<forall>x. trim_start_0x (hex_encode c x) = hex_encode c x"
  shows "valid_commit c (pbft_signature_message ''commit'' bh) pk (forged_signature c sk pk bh v)"
  using assms by (simp add: valid_commit_def forged_signature_def crypto_roundtrip_def)

text \<open>
  The keys are not bound by the header: for any block and any validator list that matches
  its header, whoever sends the response can replace every key of the list by a key of their
  own and sign alone, and the check of the commit signatures accepts.
\<close>

lemma substituted_keys_accepted:
  assumes c: "crypto_roundtrip c" "length sk = 32" "pk = hex_encode c (ed_public c sk)"
      "normalized_pubkey pk = pk" "\<forall>x. trim_start_0x (hex_encode c x) = hex_encode c x"
    and vs: "vs \<noteq> []" "distinct (map v_id vs)" "validator_set_hash hdr = compute_validator_set_hash c vs"
  shows "verify_pbft_consensus c small bh hdr (map (\<lambda>v. v\<lparr> v_pubkey := pk \<rparr>) vs)
    (map (forged_signature c sk pk bh) vs) = Inr ()"
proof -
  let ?vs = "map (\<lambda>v. v\<lparr> v_pubkey := pk \<rparr>) vs" and ?sigs = "map (forged_signature c sk pk bh) vs"
  have ids: "map v_id ?vs = map v_id vs" "map bs_validator_id ?sigs = map v_id vs"
    by (simp_all add: forged_signature_def)
  have d: "distinct (map v_id ?vs)" unfolding ids by (rule vs(2))
  have "\<forall>sg \<in> set ?sigs. \<exists>k. hm_get (validator_pubkeys ?vs) (bs_validator_id sg) = Some k \<and>
      valid_commit c (pbft_signature_message ''commit'' bh) k sg"
    using forged_signature_valid [OF c] c(4)
    by (auto simp: validator_pubkeys_get [OF d]) (force simp: forged_signature_def)
  moreover have "distinct (map bs_validator_id ?sigs)" unfolding ids by (rule vs(2))
  ultimately have "check_signatures c (validator_pubkeys ?vs) (pbft_signature_message ''commit'' bh) {} ?sigs
      = Inr ({} \<union> bs_validator_id ` set ?sigs)"
    by (intro check_signatures_complete) auto
  moreover have "card (bs_validator_id ` set ?sigs) = length vs"
    using distinct_card [of "map bs_validator_id ?sigs"] vs(2) unfolding ids
    by (metis ids(2) length_map list.set_map)
  moreover have "light_quorum small (length vs) \<le> length vs"
    using lq.attainable [of "length vs"] vs(1) by (auto simp: light_quorum_def)
  ultimately show ?thesis
    using vs by (simp add: verify_pbft_consensus_def pbft_signature_message_def set_hash_ignores_keys Let_def)
qed

definition tagged_hex_env :: env where
  "tagged_hex_env = demo_env\<lparr> hex_encode := (\<lambda>s. CHR ''h'' # s), hex_decode := (\<lambda>s. Some (tl s)),
     ed_public := (\<lambda>_. ''p''), ed_verify := (\<lambda>_ _ _. True) \<rparr>"

lemma trim_start_0x_tagged [simp]: "trim_start_0x (CHR ''h'' # x) = CHR ''h'' # x"
  by (cases x) simp_all

lemma substituted_keys_accepted_witness:
  "verify_pbft_consensus tagged_hex_env False ''v'' (demo_signed_header\<lparr> validator_set_hash :=
       compute_validator_set_hash tagged_hex_env [demo_validator] \<rparr>)
     (map (\<lambda>v. v\<lparr> v_pubkey := ''hp'' \<rparr>) [demo_validator])
     (map (forged_signature tagged_hex_env (replicate 32 CHR ''a'') ''hp'' ''v'') [demo_validator]) = Inr ()"
  by (rule substituted_keys_accepted)
    (simp_all add: tagged_hex_env_def crypto_roundtrip_def normalized_pubkey_def
      to_ascii_lowercase_def ascii_lower_def)

end
