(* ===== verification/Proof_Service.thy ===== *)
theory Proof_Service
  imports Sync Light_Client
begin

text \<open>
  The light-client endpoint of \<^verbatim>\<open>crates/node/src/proof.rs\<close>: from its chain store a node builds
  the response that the light client of \<^verbatim>\<open>crates/resolver/src/light_client.rs\<close> checks. The
  messages of the error branches slice the record's block hash; it is the digest that
  \<open>insert_block\<close> wrote, so the slices are not modelled.

  The theorem composes the two programs: what the node serves for a package of its chain, the
  client accepts, from every checkpoint on that chain.
\<close>

section \<open>Definitions\<close>

datatype proof_error = PackageNotInBlock string string | NoMerkleProof merkle_error

fun publishes :: "string \<Rightarrow> transaction \<Rightarrow> bool" where
  "publishes can (Publish r) = (canonical (rec_id r) = can)"
| "publishes can _ = False"

definition headers_to :: "env \<Rightarrow> chain_store \<Rightarrow> block \<Rightarrow> (block_header \<times> string) list" where
  "headers_to c s b =
     List.map_filter (\<lambda>h. map_option (\<lambda>x. (header x, block_hash_of c x)) (get_block_by_height s h)) [1..<height (header b)]
     @ [(header b, block_hash_of c b)]"

definition build_proof ::
    "env \<Rightarrow> string \<Rightarrow> chain_store \<Rightarrow> validator list \<Rightarrow> proof_error + light_client_response option" where
  "build_proof c can s active =
     (case get_package s can of
        None \<Rightarrow> Inr None
      | Some r \<Rightarrow>
          if status r \<noteq> Verified then Inr None
          else case get_block_by_hash s (block_hash r) of
                 None \<Rightarrow> Inr None
               | Some b \<Rightarrow>
                   case position (publishes can) (transactions b) of
                     None \<Rightarrow> Inl (PackageNotInBlock can (block_hash r))
                   | Some i \<Rightarrow>
                       case build_merkle_proof c b i of
                         Inl e \<Rightarrow> Inl (NoMerkleProof e)
                       | Inr p \<Rightarrow>
                           Inr (Some \<lparr> lc_status = ''verified'', lc_block_hash = block_hash_of c b,
                                  lc_block_header = header b, lc_proof = p, lc_header_chain = headers_to c s b,
                                  lc_pbft_signatures = pbft_signatures b, lc_active_validators = active \<rparr>))"

section \<open>The headers of a chain\<close>

abbreviation hashed_header :: "env \<Rightarrow> block \<Rightarrow> block_header \<times> string" where
  "hashed_header c b \<equiv> (header b, block_hash_of c b)"

lemma headers_to_chain:
  assumes "holds_chain c bs s" and "n < length bs" and "0 < n"
  shows "headers_to c s (bs ! n) = map (\<lambda>h. hashed_header c (bs ! h)) [1..<Suc n]"
proof -
  have "height (header (bs ! n)) = n" using assms(1,2) by (simp add: holds_chain_def)
  moreover have "List.map_filter (\<lambda>h. map_option (hashed_header c) (get_block_by_height s h)) [1..<k] =
      map (\<lambda>h. hashed_header c (bs ! h)) [1..<k]" if "k \<le> n" for k
    using that assms(2) by (induction k) (auto simp: map_filter_def holds_get [OF assms(1)])
  ultimately show ?thesis using assms(3) by (simp add: headers_to_def)
qed

lemma linked_headers:
  assumes "linked_blocks c bs" and "\<forall>i < length bs. height (header (bs ! i)) = i" and "k + m < length bs"
  shows "linked c k (block_hash_of c (bs ! k)) (map (\<lambda>h. hashed_header c (bs ! h)) [Suc k..<Suc (k + m)])"
  using assms(3)
proof (induction m arbitrary: k)
  case (Suc m)
  have upt: "[Suc k..<Suc (k + Suc m)] = Suc k # [Suc (Suc k)..<Suc (Suc k + m)]" by (simp add: upt_rec)
  have "prev_hash (header (bs ! Suc k)) = block_hash_of c (bs ! k)" "height (header (bs ! Suc k)) = Suc k"
    using assms(1,2) Suc.prems by (simp_all add: linked_blocks_def)
  then show ?case
    using Suc.IH [of "Suc k"] Suc.prems unfolding upt by (simp add: block_hash_of_def del: upt_Suc)
qed simp

lemma filter_above: "filter (\<lambda>h. k < h) [1..<Suc n] = [Suc k..<Suc n]"
  by (induction n) auto

lemma relevant_headers_chain:
  assumes "holds_chain c bs s" and "n < length bs" and "0 < n"
  shows "filter (\<lambda>(h, _). k < height h) (headers_to c s (bs ! n)) = map (\<lambda>h. hashed_header c (bs ! h)) [Suc k..<Suc n]"
proof -
  have "\<forall>i < length bs. height (header (bs ! i)) = i" using assms(1) by (simp add: holds_chain_def)
  then have "filter (\<lambda>(h, _). k < height h) (map (\<lambda>h. hashed_header c (bs ! h)) [1..<Suc n]) =
      map (\<lambda>h. hashed_header c (bs ! h)) (filter (\<lambda>h. k < h) [1..<Suc n])"
    unfolding filter_map comp_def split_conv
    by (intro arg_cong [of _ _ "map _"] filter_cong) (use assms(2) in auto)
  then show ?thesis by (simp only: headers_to_chain [OF assms] filter_above)
qed

section \<open>What the node serves the client accepts\<close>

lemma chain_proof_accepted:
  assumes holds: "holds_chain c bs s" and link: "linked_blocks c bs" and n: "n < length bs" "0 < n" and k: "k \<le> n"
    and pkg: "get_package s can = Some r" "status r = Verified" "block_hash r = block_hash_of c (bs ! n)"
    and tx: "list_ex (publishes can) (transactions (bs ! n))"
    and root: "merkle_root_field (header (bs ! n)) = merkle_root c (transactions (bs ! n))"
    and sigs: "verify_pbft_consensus c small (block_hash_of c (bs ! n)) (header (bs ! n)) vs (pbft_signatures (bs ! n)) = Inr ()"
  shows "\<exists>resp. build_proof c can s vs = Inr (Some resp) \<and>
    verify_response c small can \<lparr> cp_height = k, cp_hash = block_hash_of c (bs ! k) \<rparr> resp = Inr True"
proof -
  let ?b = "bs ! n" and ?cp = "\<lparr> cp_height = k, cp_hash = block_hash_of c (bs ! k) \<rparr>"
  let ?hs = "map (\<lambda>h. hashed_header c (bs ! h)) [Suc k..<Suc n]"
  have heights: "\<forall>i < length bs. height (header (bs ! i)) = i" using holds by (simp add: holds_chain_def)
  have inv: "chain_inv c s" using holds by (simp add: holds_chain_def)
  have "get_block_by_hash s (block_hash_of c ?b) = Some ?b"
    using holds_get [OF holds n(1)] chain_inv_hash [OF inv]
    by (auto simp: get_block_by_height_def get_block_by_hash_def split: option.splits)
  moreover obtain i where i: "position (publishes can) (transactions ?b) = Some i"
    using tx by (cases "position (publishes can) (transactions ?b)") (auto simp: position_None list_ex_iff)
  moreover obtain p where p: "build_merkle_proof c ?b i = Inr p" "proof_verify c p" "expected_root p = merkle_root_field (header ?b)"
    using built_proof_verifies [OF _ root] position_Some [OF i] by blast
  ultimately obtain resp where resp: "build_proof c can s vs = Inr (Some resp)" and
    fields: "resp = \<lparr> lc_status = ''verified'', lc_block_hash = block_hash_of c ?b, lc_block_header = header ?b, lc_proof = p,
       lc_header_chain = headers_to c s ?b, lc_pbft_signatures = pbft_signatures ?b, lc_active_validators = vs \<rparr>"
    using pkg by (simp add: build_proof_def)
  have rel: "relevant_headers ?cp resp = ?hs"
    using relevant_headers_chain [OF holds n, of k] by (simp only: relevant_headers_def fields light_client_response.simps checkpoint.simps)
  have hash: "header_hash c (header ?b) = block_hash_of c ?b" by (simp add: block_hash_of_def)
  have "linked c k (block_hash_of c (bs ! k)) ?hs"
    using linked_headers [OF link heights, of k "n - k"] k n by simp
  then have chain: "verify_header_chain c ?hs ?cp = Inr ()" by (simp add: verify_header_chain_ok)
  have "last ?hs = hashed_header c ?b" "?hs \<noteq> []" if "k < n" using that by auto
  then have "verify_response c small can ?cp resp = Inr True"
    unfolding verify_response_def Let_def rel using p sigs heights n k chain
    by (cases "k < n") (simp_all add: fields hash verify_header_def del: upt_Suc)
  with resp show ?thesis by blast
qed


definition served_block :: block where
  "served_block = \<lparr> header = demo_signed_header\<lparr> prev_hash := ''genesis'', merkle_root_field := ''tx'' \<rparr>,
     transactions = [Publish (demo_record ''lib'' ''1'')], pbft_signatures = [demo_vote] \<rparr>"

lemma served_block_hash: "block_hash_of solo_env served_block = ''v''" "block_hash_of solo_env genesis = ''genesis''"
  by (simp_all add: served_block_def block_hash_of_def header_hash_def sha256_hex_def sha256_def solo_env_def genesis_def
      demo_signed_header_def)

lemma served_block_fields: "height (header served_block) = 1" "prev_hash (header served_block) = ''genesis''"
  "merkle_root_field (header served_block) = merkle_root solo_env (transactions served_block)"
  by (simp_all add: served_block_def demo_signed_header_def merkle_root_def tx_hash_of_def solo_env_def sha256_hex_def sha256_def)

lemma served_block_signed:
  "verify_pbft_consensus solo_env False ''v'' (header served_block) [demo_validator] (pbft_signatures served_block) = Inr ()"
  by (simp add: verify_pbft_consensus_def compute_validator_set_hash_def demo_signed_header_def served_block_def
      demo_validator_def demo_vote_def light_quorum_def normalized_pubkey_def sha256_hex_def sha256_def)
    (simp add: solo_env_def pbft_signature_message_def)


end
