(* ===== verification/Consensus_Node.thy ===== *)
theory Consensus_Node
  imports Proof_Service
begin

text \<open>
  The consensus side of a node: the block producer of \<^verbatim>\<open>crates/node/src/block_producer.rs\<close> and
  the handlers of the gossip messages of \<^verbatim>\<open>crates/node/src/p2p.rs\<close>, over a state that extends
  the one of \<^verbatim>\<open>Sync\<close> by the PBFT engine, the node's key and the caches. A handler is one atomic
  step: it returns the messages it sends and the new state. The times a handler reads are one
  argument. Messages are values; their JSON and the rate limits in front of the handlers are
  not modelled here.
\<close>

section \<open>State and messages\<close>

record consensus_node = node_state +
  engine :: pbft_engine
  node_id :: string
  validator_privkey :: "string option"
  vrf_proofs :: "(string, string \<times> string) hash_map"
  view_change_certs :: "(string, (u32, string set) hash_map) hash_map"
  package_rounds :: "(string, package_round) hash_map"

datatype gossip_message =
    VrfProof string string string string string
  | ViewChange string u32 string string
  | PbftPrePrepare block
  | PbftPrepare string string string
  | PbftCommit string string string

text \<open>
  The node's signing key: the configured hex string if it decodes to 32 bytes
  (\<^verbatim>\<open>SigningKey::try_from\<close>).
\<close>

definition signing_key :: "'a crypto_scheme \<Rightarrow> 'b consensus_node_scheme \<Rightarrow> string option" where
  "signing_key c st =
     (case validator_privkey st of
        None \<Rightarrow> None
      | Some k \<Rightarrow>
          case hex_decode c k of
            None \<Rightarrow> None
          | Some b \<Rightarrow> if length b = 32 then Some b else None)"

definition own_signature :: "'a crypto_scheme \<Rightarrow> string \<Rightarrow> string \<Rightarrow> string \<Rightarrow> string \<Rightarrow> block_signature" where
  "own_signature c sk i ph bh =
     \<lparr> bs_validator_id = i, bs_pubkey = hex_encode c (ed_public c sk),
       bs_signature = hex_encode c (ed_sign c sk (pbft_signature_message ph bh)) \<rparr>"

section \<open>Finalised blocks enter the chain\<close>

definition insert_finalised ::
    "env \<Rightarrow> datetime \<Rightarrow> string \<Rightarrow> string \<Rightarrow> block \<Rightarrow> consensus_node \<Rightarrow> consensus_node" where
  "insert_finalised c now i ts b st =
     (case insert_block_with_outcome c b (node_chain st) of
        (outcome, chain') \<Rightarrow>
          let st1 = st\<lparr> node_chain := chain' \<rparr>;
              st2 = (case replaced_hash outcome of
                       None \<Rightarrow> st1
                     | Some replaced \<Rightarrow> record_reorg i ts 1 [replaced] (outcome_hash outcome) st1)
          in st2\<lparr> publishers := apply_block now b (publishers st2) \<rparr>)"

section \<open>Handlers\<close>

text \<open>A clock reading for timeouts, one for timestamps, and the identifier of an event.\<close>

record readings =
  at :: instant
  utc :: datetime
  event_id :: string
  event_time :: string

definition on_pre_prepare :: "env \<Rightarrow> readings \<Rightarrow> block \<Rightarrow> consensus_node \<Rightarrow> gossip_message list \<times> consensus_node" where
  "on_pre_prepare c rd b st =
     (case start_round c (at rd) b (vset_from (node_validators st)) (engine st) of
        (Inl _, e) \<Rightarrow> ([], st\<lparr> engine := e \<rparr>)
      | (Inr _, e) \<Rightarrow>
          case signing_key c st of
            None \<Rightarrow> ([], st\<lparr> engine := e \<rparr>)
          | Some sk \<Rightarrow>
              let bh = block_hash_of c b;
                  sg = own_signature c sk (node_id st) ''prepare'' bh
              in ([PbftPrepare bh (node_id st) (bs_signature sg)],
                  st\<lparr> engine := snd (engine_prepare c (at rd) bh (node_id st) sg e) \<rparr>))"

datatype pbft_validation_error = UnknownValidator | MissingValidatorPubkey | SignatureVerificationFailed

definition validate_pbft_phase_message ::
    "'a crypto_scheme \<Rightarrow> validator list \<Rightarrow> string \<Rightarrow> string \<Rightarrow> string \<Rightarrow> string \<Rightarrow> pbft_validation_error + block_signature"
  where
  "validate_pbft_phase_message c vs ph bh vid sig =
     (case find (\<lambda>v. v_id v = vid) vs of
        None \<Rightarrow> Inl UnknownValidator
      | Some v \<Rightarrow>
          if v_pubkey v = [] then Inl MissingValidatorPubkey
          else case verify_pbft_phase_signature c ph bh (v_pubkey v) sig of
                 Inl _ \<Rightarrow> Inl SignatureVerificationFailed
               | Inr _ \<Rightarrow> Inr \<lparr> bs_validator_id = vid, bs_pubkey = v_pubkey v, bs_signature = sig \<rparr>)"

definition on_prepare ::
    "env \<Rightarrow> readings \<Rightarrow> string \<Rightarrow> string \<Rightarrow> string \<Rightarrow> consensus_node \<Rightarrow> gossip_message list \<times> consensus_node" where
  "on_prepare c rd bh vid sig st =
     (case validate_pbft_phase_message c (node_validators st) ''prepare'' bh vid sig of
        Inl _ \<Rightarrow> ([], st)
      | Inr sg \<Rightarrow>
          case engine_prepare c (at rd) bh vid sg (engine st) of
            (res, e) \<Rightarrow>
              if res \<noteq> Inr True then ([], st\<lparr> engine := e \<rparr>)
              else case signing_key c st of
                     None \<Rightarrow> ([], st\<lparr> engine := e \<rparr>)
                   | Some sk \<Rightarrow>
                       let own = own_signature c sk (node_id st) ''commit'' bh
                       in ([PbftCommit bh (node_id st) (bs_signature own)],
                           st\<lparr> engine := snd (engine_commit c bh (node_id st) own e) \<rparr>))"

definition on_commit ::
    "env \<Rightarrow> readings \<Rightarrow> string \<Rightarrow> string \<Rightarrow> string \<Rightarrow> consensus_node \<Rightarrow> gossip_message list \<times> consensus_node" where
  "on_commit c rd bh vid sig st =
     (case validate_pbft_phase_message c (node_validators st) ''commit'' bh vid sig of
        Inl _ \<Rightarrow> ([], st)
      | Inr sg \<Rightarrow>
          case engine_commit c bh vid sg (engine st) of
            (res, e) \<Rightarrow>
              if res \<noteq> Inr True then ([], st\<lparr> engine := e \<rparr>)
              else case get_finalised_block bh e of
                     None \<Rightarrow> ([], st\<lparr> engine := e \<rparr>)
                   | Some b \<Rightarrow> ([], insert_finalised c (utc rd) (event_id rd) (event_time rd) b (st\<lparr> engine := e \<rparr>)))"

definition view_change_message :: "string \<Rightarrow> u32 \<Rightarrow> string" where
  "view_change_message bh new_view = bh @ '':view_change:'' @ show_nat (unat new_view)"

definition view_change_valid :: "'a crypto_scheme \<Rightarrow> validator list \<Rightarrow> string \<Rightarrow> u32 \<Rightarrow> string \<Rightarrow> string \<Rightarrow> bool" where
  "view_change_valid c vs bh new_view vid sig =
     (case find (\<lambda>v. v_id v = vid) vs of
        None \<Rightarrow> False
      | Some v \<Rightarrow>
          case (hex_decode c (v_pubkey v), hex_decode c sig) of
            (Some pk, Some s) \<Rightarrow> vk_try_from c pk \<and> sig_try_from c s \<and> ed_verify c pk (view_change_message bh new_view) s
          | _ \<Rightarrow> False)"

text \<open>The certificates are collected; reaching the threshold is only written to the log.\<close>

definition on_view_change ::
    "env \<Rightarrow> string \<Rightarrow> u32 \<Rightarrow> string \<Rightarrow> string \<Rightarrow> consensus_node \<Rightarrow> gossip_message list \<times> consensus_node" where
  "on_view_change c bh new_view vid sig st =
     (if \<not> view_change_valid c (node_validators st) bh new_view vid sig then ([], st)
      else
        let by_hash = (case hm_get (view_change_certs st) bh of None \<Rightarrow> [] | Some m \<Rightarrow> m);
            by_view = (case hm_get by_hash new_view of None \<Rightarrow> {} | Some s \<Rightarrow> s)
        in ([], st\<lparr> view_change_certs :=
              hm_insert bh (hm_insert new_view (insert vid by_view) by_hash) (view_change_certs st) \<rparr>))"

definition on_vrf_proof ::
    "env \<Rightarrow> string \<Rightarrow> string \<Rightarrow> string \<Rightarrow> string \<Rightarrow> string \<Rightarrow> consensus_node \<Rightarrow> gossip_message list \<times> consensus_node" where
  "on_vrf_proof c vid pubkey epoch_seed out p st =
     (if epoch_seed \<noteq> tip_hash c (node_chain st) then ([], st)
      else case vrf_verify c epoch_seed pubkey out p of
             Inl _ \<Rightarrow> ([], st)
           | Inr _ \<Rightarrow> ([], st\<lparr> vrf_proofs := hm_insert vid (out, p) (vrf_proofs st) \<rparr>))"

definition on_gossip ::
    "env \<Rightarrow> readings \<Rightarrow> gossip_message \<Rightarrow> consensus_node \<Rightarrow> gossip_message list \<times> consensus_node" where
  "on_gossip c rd msg st =
     (case msg of
        VrfProof vid pubkey epoch_seed out p \<Rightarrow> on_vrf_proof c vid pubkey epoch_seed out p st
      | ViewChange bh new_view vid sig \<Rightarrow> on_view_change c bh new_view vid sig st
      | PbftPrePrepare b \<Rightarrow> on_pre_prepare c rd b st
      | PbftPrepare bh vid sig \<Rightarrow> on_prepare c rd bh vid sig st
      | PbftCommit bh vid sig \<Rightarrow> on_commit c rd bh vid sig st)"

section \<open>Votes on packages\<close>

record vote_gossip =
  consensus_subject :: string
  vg_content_hash :: string
  vg_validator_id :: string
  vg_validator_pubkey :: string
  vg_model_version :: string
  vg_analysis_bundles :: analysis_bundle_refs
  vg_evidence_digest :: string
  vg_deterministic_risk :: deterministic_risk_summary
  vg_phase :: string
  vg_approved :: bool
  vg_reject_reason :: "string option"
  vg_signature :: string

datatype vote_validation_error =
    UnknownVoter | MissingVoterPubkey | ValidatorPubkeyMismatch | MissingConsensusEvidence
  | InvalidValidatorPubkeyHex | InvalidValidatorPubkey | InvalidVoteSignatureHex | InvalidVoteSignatureFormat
  | VoteSignatureVerificationFailed

text \<open>The vote as parsed from the message; a message that does not parse is dropped before.\<close>

definition validate_vote_gossip :: "'a crypto_scheme \<Rightarrow> vote_gossip \<Rightarrow> validator list \<Rightarrow> vote_validation_error + vote_gossip"
  where
  "validate_vote_gossip c v vs =
     (case find (\<lambda>x. v_id x = vg_validator_id v) vs of
        None \<Rightarrow> Inl UnknownVoter
      | Some x \<Rightarrow>
          if v_pubkey x = [] then Inl MissingVoterPubkey
          else if vg_validator_pubkey v \<noteq> v_pubkey x then Inl ValidatorPubkeyMismatch
          else if \<not> is_consensus_grade_vote (vg_model_version v) (vg_analysis_bundles v) (vg_evidence_digest v)
          then Inl MissingConsensusEvidence
          else case hex_decode c (vg_validator_pubkey v) of
                 None \<Rightarrow> Inl InvalidValidatorPubkeyHex
               | Some pk \<Rightarrow>
                   if \<not> vk_try_from c pk then Inl InvalidValidatorPubkey
                   else case hex_decode c (vg_signature v) of
                          None \<Rightarrow> Inl InvalidVoteSignatureHex
                        | Some s \<Rightarrow>
                            if \<not> sig_try_from c s then Inl InvalidVoteSignatureFormat
                            else if \<not> ed_verify c pk
                                (gossip_vote_message (consensus_subject v) (vg_content_hash v) (vg_approved v)
                                  (vg_validator_pubkey v)
                                  (scanner_profile_digest c (vg_model_version v) (vg_analysis_bundles v))
                                  (vg_evidence_digest v)) s
                            then Inl VoteSignatureVerificationFailed
                            else Inr v)"

definition vote_gossip_to_signature :: "datetime \<Rightarrow> vote_gossip \<Rightarrow> validator_signature" where
  "vote_gossip_to_signature now v =
     \<lparr> vs_validator_id = vg_validator_id v, vs_validator_pubkey = vg_validator_pubkey v, vs_signature = vg_signature v,
       vote = (if vg_approved v then Approve else Reject (case vg_reject_reason v of None \<Rightarrow> [] | Some r \<Rightarrow> r)),
       signed_at = now, vs_model_version = vg_model_version v, vs_analysis_bundles = vg_analysis_bundles v,
       vs_evidence_digest = vg_evidence_digest v, vs_deterministic_risk = vg_deterministic_risk v \<rparr>"

definition on_vote :: "env \<Rightarrow> readings \<Rightarrow> vote_gossip \<Rightarrow> consensus_node \<Rightarrow> gossip_message list \<times> consensus_node" where
  "on_vote c rd v st =
     (case validate_vote_gossip c v (node_validators st) of
        Inl _ \<Rightarrow> ([], st)
      | Inr v \<Rightarrow> ([], st\<lparr> package_rounds := record_package_vote (utc rd) (consensus_subject v)
                            (vote_gossip_to_signature (utc rd) v) (package_rounds st) \<rparr>))"

section \<open>Block production\<close>

definition producer_set_hash :: "'a crypto_scheme \<Rightarrow> validator list \<Rightarrow> string" where
  "producer_set_hash c vs =
     hex_encode c (sha256_digest c (foldl (\<lambda>data i. (data @ i) @ [CHR 0x00]) [] (sort (map v_id vs))))"

definition active_candidates :: "consensus_node \<Rightarrow> vrf_validator list" where
  "active_candidates st =
     map (\<lambda>v. case hm_get (vrf_proofs st) (v_id v) of
                Some (out, p) \<Rightarrow> \<lparr> vrf_id = v_id v, vrf_pubkey = v_pubkey v, val_vrf_output = Some out, val_vrf_proof = Some p \<rparr>
              | None \<Rightarrow> \<lparr> vrf_id = v_id v, vrf_pubkey = v_pubkey v, val_vrf_output = None, val_vrf_proof = None \<rparr>)
       (filter (\<lambda>v. v_status v = ''online'' \<or> v_status v = ''self'') (node_validators st))"

datatype producer_error =
    ProofFailed vrf_error | NoActiveProposers | NotItsTurn nat nat | NotActive | RoundRefused pbft_error

text \<open>
  The election of the proposer: the messages sent, and the outputs for the header or the
  reason not to propose.
\<close>

definition elect ::
    "env \<Rightarrow> nat \<Rightarrow> consensus_node \<Rightarrow> gossip_message list \<times> (producer_error + (string option \<times> string option))" where
  "elect c allowed_fallback_rank st =
     (let seed = tip_hash c (node_chain st); active = active_candidates st in
      if active = [] then ([], Inr (None, None))
      else case validator_privkey st of
             None \<Rightarrow> ([], Inr (None, None))
           | Some k \<Rightarrow>
               case prove c seed k of
                 Inl e \<Rightarrow> ([], Inl (ProofFailed e))
               | Inr (out, p) \<Rightarrow>
                   let active' = map (\<lambda>v. if vrf_id v = node_id st
                          then v\<lparr> val_vrf_output := Some out, val_vrf_proof := Some p \<rparr> else v) active;
                       our_pubkey = (case find (\<lambda>v. v_id v = node_id st) (node_validators st) of
                          None \<Rightarrow> [] | Some v \<Rightarrow> v_pubkey v);
                       msgs = [VrfProof (node_id st) our_pubkey seed out p];
                       ranking = rank_proposers c active' seed
                   in if ranking = [] then (msgs, Inl NoActiveProposers)
                      else
                        let effective_rank = min allowed_fallback_rank (length ranking - 1) in
                        case position (\<lambda>i. i = node_id st) ranking of
                          None \<Rightarrow> (msgs, Inl NotActive)
                        | Some rank \<Rightarrow>
                            if rank = 0 \<or> rank = effective_rank then (msgs, Inr (Some out, Some p))
                            else (msgs, Inl (NotItsTurn rank effective_rank)))"

definition new_block :: "env \<Rightarrow> datetime \<Rightarrow> transaction list \<Rightarrow> string option \<Rightarrow> string option \<Rightarrow> consensus_node \<Rightarrow> block" where
  "new_block c now txs out p st =
     \<lparr> header = \<lparr> height = tip_height (node_chain st) + 1, prev_hash = tip_hash c (node_chain st),
         merkle_root_field = merkle_root c txs, proposer_id = node_id st, timestamp = now,
         validator_set_hash = producer_set_hash c (node_validators st), vrf_output = out, vrf_proof = p \<rparr>,
       transactions = txs, pbft_signatures = [] \<rparr>"

text \<open>The proposer's own PREPARE and, when that is a quorum already, its own COMMIT.\<close>

definition own_votes :: "env \<Rightarrow> readings \<Rightarrow> string \<Rightarrow> consensus_node \<Rightarrow> gossip_message list \<times> consensus_node" where
  "own_votes c rd bh st =
     (case signing_key c st of
        None \<Rightarrow> ([], st)
      | Some sk \<Rightarrow>
          let sg = own_signature c sk (node_id st) ''prepare'' bh;
              prep = PbftPrepare bh (node_id st) (bs_signature sg)
          in case engine_prepare c (at rd) bh (node_id st) sg (engine st) of
               (res, e) \<Rightarrow>
                 if res \<noteq> Inr True then ([prep], st\<lparr> engine := e \<rparr>)
                 else
                   let sg2 = own_signature c sk (node_id st) ''commit'' bh;
                       comm = PbftCommit bh (node_id st) (bs_signature sg2)
                   in case engine_commit c bh (node_id st) sg2 e of
                        (res2, e2) \<Rightarrow>
                          if res2 \<noteq> Inr True then ([prep, comm], st\<lparr> engine := e2 \<rparr>)
                          else case get_finalised_block bh e2 of
                                 None \<Rightarrow> ([prep, comm], st\<lparr> engine := e2 \<rparr>)
                               | Some b \<Rightarrow>
                                   ([prep, comm],
                                    insert_finalised c (utc rd) (event_id rd) (event_time rd) b (st\<lparr> engine := e2 \<rparr>)))"

definition produce_block ::
    "env \<Rightarrow> readings \<Rightarrow> transaction list \<Rightarrow> nat \<Rightarrow> consensus_node
     \<Rightarrow> gossip_message list \<times> (producer_error + block) \<times> consensus_node" where
  "produce_block c rd txs allowed_fallback_rank st =
     (case elect c allowed_fallback_rank st of
        (msgs, Inl e) \<Rightarrow> (msgs, Inl e, st)
      | (msgs, Inr (out, p)) \<Rightarrow>
          let b = new_block c (utc rd) txs out p st in
          case start_round c (at rd) b (vset_from (node_validators st)) (engine st) of
            (Inl e, e') \<Rightarrow> (msgs, Inl (RoundRefused e), st\<lparr> engine := e' \<rparr>)
          | (Inr _, e') \<Rightarrow>
              case own_votes c rd (block_hash_of c b) (st\<lparr> engine := e' \<rparr>) of
                (votes, st') \<Rightarrow> (msgs @ votes, Inr b, st'\<lparr> vrf_proofs := [] \<rparr>))"

text \<open>
  One tick of the producer: the transactions queued since the last tick are drained, and what
  is left of them is nothing, whether a block came out or not.
\<close>

definition allowed_rank :: "nat \<Rightarrow> nat \<Rightarrow> nat" where
  "allowed_rank stall_secs fallback_window_secs = stall_secs div fallback_window_secs"

definition producer_tick ::
    "env \<Rightarrow> readings \<Rightarrow> nat \<Rightarrow> nat \<Rightarrow> transaction list \<times> consensus_node
     \<Rightarrow> gossip_message list \<times> transaction list \<times> consensus_node" where
  "producer_tick c rd stall_secs fallback_window_secs qst =
     (case qst of (queue, st) \<Rightarrow>
        if queue = [] then ([], [], st)
        else case produce_block c rd queue (allowed_rank stall_secs fallback_window_secs) st of
               (msgs, Inr b, st') \<Rightarrow> (msgs @ [PbftPrePrepare b], [], st')
             | (msgs, Inl _, st') \<Rightarrow> (msgs, [], st'))"

end
