(* ===== verification/Pbft_Progress.thy ===== *)
theory Pbft_Progress
  imports Pbft_Engine
begin

text \<open>
  Progress of the consensus rounds: enough valid votes finalise a round, a round that keeps
  timing out is abandoned after a bounded number of view changes, and what the timeouts and
  the clean-up of the engine do to each round. The last section states how a view change and
  a repeated proposal treat a round that is already finalised.
\<close>

section \<open>Votes finalise a round\<close>

definition deliver_prepares ::
    "env \<Rightarrow> instant \<Rightarrow> (string \<times> block_signature) list \<Rightarrow> pbft_round \<Rightarrow> pbft_round" where
  "deliver_prepares c now votes r = fold (\<lambda>(v, sg) r. snd (receive_prepare c now v sg r)) votes r"

definition deliver_commits ::
    "env \<Rightarrow> (string \<times> block_signature) list \<Rightarrow> pbft_round \<Rightarrow> pbft_round" where
  "deliver_commits c votes r = fold (\<lambda>(v, sg) r. snd (receive_commit c v sg r)) votes r"

text \<open>
  While the quorum is not reached every valid vote of a new validator adds one signature; once
  it is reached the further votes change nothing.
\<close>

lemma deliver_prepares_reaches:
  assumes "phase r = Prepare" and "hm_ok (prepare_sigs r)" and "votes \<noteq> []"
    and "\<forall>(v, sg) \<in> set votes. verify_block_signature c r ''prepare'' v sg = Inr ()"
    and "distinct (map fst votes)" and "\<forall>v \<in> fst ` set votes. hm_get (prepare_sigs r) v = None"
    and "quorum r \<le> length (prepare_sigs r) + length votes"
  shows "\<exists>r'. deliver_prepares c now votes r = r' \<and> phase r' = Commit \<and> same_subject r r' \<and>
           commit_sigs r' = commit_sigs r"
  using assms
proof (induction votes arbitrary: r)
  case (Cons vote votes)
  obtain v sg where vote: "vote = (v, sg)" by (cases vote)
  define r1 where "r1 = r\<lparr> prepare_sigs := hm_insert v sg (prepare_sigs r) \<rparr>"
  have len: "length (prepare_sigs r1) = Suc (length (prepare_sigs r))"
    using Cons.prems vote by (simp add: r1_def hm.size_put)
  have s1: "same_subject r r1" and p1: "phase r1 = Prepare"
    using Cons.prems(1) by (simp_all add: r1_def same_subject_def)
  have recv: "snd (receive_prepare c now v sg r) =
      (if quorum r \<le> length (prepare_sigs r1) then r1\<lparr> phase := Commit, phase_entered_at := now \<rparr> else r1)"
    using Cons.prems vote quorum_cong [OF s1]
    by (simp add: receive_prepare_def r1_def Let_def quorum_def)
  show ?case
  proof (cases "quorum r \<le> length (prepare_sigs r1)")
    case True
    have stays: "phase r' = Commit \<Longrightarrow> deliver_prepares c now vs r' = r'" for r' vs
      by (induction vs) (auto simp: deliver_prepares_def receive_prepare_def)
    have "deliver_prepares c now (vote # votes) r =
        deliver_prepares c now votes (r1\<lparr> phase := Commit, phase_entered_at := now \<rparr>)"
      using True by (simp add: deliver_prepares_def vote recv)
    also have "\<dots> = r1\<lparr> phase := Commit, phase_entered_at := now \<rparr>"
      by (rule stays) simp
    finally show ?thesis by (simp add: r1_def same_subject_def)
  next
    case False
    then have "votes \<noteq> []" using Cons.prems(7) len by auto
    moreover have "verify_block_signature c r1 = verify_block_signature c r"
      using s1 by (intro verify_block_signature_cong) (simp_all add: same_subject_def)
    ultimately have "\<exists>r'. deliver_prepares c now votes r1 = r' \<and> phase r' = Commit \<and>
        same_subject r1 r' \<and> commit_sigs r' = commit_sigs r1"
      using Cons.prems vote p1 len quorum_cong [OF s1]
      by (intro Cons.IH) (auto simp: r1_def hm.lookup_put)
    then show ?thesis
      using False by (auto simp: deliver_prepares_def vote recv r1_def same_subject_def)
  qed
qed simp

lemma deliver_commits_reaches:
  assumes "phase r = Commit" and "hm_ok (commit_sigs r)" and "votes \<noteq> []"
    and "\<forall>(v, sg) \<in> set votes. verify_block_signature c r ''commit'' v sg = Inr ()"
    and "distinct (map fst votes)" and "\<forall>v \<in> fst ` set votes. hm_get (commit_sigs r) v = None"
    and "quorum r \<le> length (commit_sigs r) + length votes"
  shows "phase (deliver_commits c votes r) = Finalised"
  using assms
proof (induction votes arbitrary: r)
  case (Cons vote votes)
  obtain v sg where vote: "vote = (v, sg)" by (cases vote)
  define r1 where "r1 = r\<lparr> commit_sigs := hm_insert v sg (commit_sigs r) \<rparr>"
  have len: "length (commit_sigs r1) = Suc (length (commit_sigs r))"
    using Cons.prems vote by (simp add: r1_def hm.size_put)
  have s1: "same_subject r r1" and p1: "phase r1 = Commit"
    using Cons.prems(1) by (simp_all add: r1_def same_subject_def)
  have recv: "snd (receive_commit c v sg r) =
      (if quorum r \<le> length (commit_sigs r1) then r1\<lparr> phase := Finalised \<rparr> else r1)"
    using Cons.prems vote by (simp add: receive_commit_def r1_def Let_def quorum_def)
  show ?case
  proof (cases "quorum r \<le> length (commit_sigs r1)")
    case True
    have stays: "phase r' = Finalised \<Longrightarrow> phase (deliver_commits c vs r') = Finalised" for r' vs
      by (induction vs) (auto simp: deliver_commits_def receive_commit_def)
    show ?thesis
      using True stays [of "r1\<lparr> phase := Finalised \<rparr>" votes] by (simp add: deliver_commits_def vote recv)
  next
    case False
    then have "votes \<noteq> []" using Cons.prems(7) len by auto
    moreover have "verify_block_signature c r1 = verify_block_signature c r"
      using s1 by (intro verify_block_signature_cong) (simp_all add: same_subject_def)
    ultimately have "phase (deliver_commits c votes r1) = Finalised"
      using Cons.prems vote p1 len quorum_cong [OF s1]
      by (intro Cons.IH) (auto simp: r1_def hm.lookup_put)
    then show ?thesis
      using False by (simp add: deliver_commits_def vote recv)
  qed
qed simp

text \<open>
  Progress: in a round that was just proposed, valid PREPARE votes of a quorum of
  validators followed by valid COMMIT votes of a quorum finalise the block, however many
  further valid votes arrive.
\<close>

lemma quorum_votes_finalise:
  assumes r: "phase r = Prepare" "prepare_sigs r = []" "commit_sigs r = []"
    and ps: "distinct (map fst ps)" "\<forall>(v, sg) \<in> set ps. verify_block_signature c r ''prepare'' v sg = Inr ()"
      "ps \<noteq> []" "quorum r \<le> length ps"
    and cs: "distinct (map fst cs)" "\<forall>(v, sg) \<in> set cs. verify_block_signature c r ''commit'' v sg = Inr ()"
      "cs \<noteq> []" "quorum r \<le> length cs"
  shows "phase (deliver_commits c cs (deliver_prepares c now ps r)) = Finalised"
proof -
  obtain r' where r': "deliver_prepares c now ps r = r'" "phase r' = Commit" "same_subject r r'"
    "commit_sigs r' = []"
    using deliver_prepares_reaches [of r ps c now] r ps by auto
  have "verify_block_signature c r' = verify_block_signature c r"
    using r'(3) by (intro verify_block_signature_cong) (simp_all add: same_subject_def)
  then show ?thesis
    using r' cs quorum_cong [OF r'(3)] by (simp add: deliver_commits_reaches)
qed

lemma quorum_votes_finalise_witness:
  "phase (deliver_commits solo_env [(''v'', demo_vote)] (deliver_prepares solo_env 1 [(''v'', demo_vote)]
     ((round_with_config 0 demo_proposal demo_vset demo_config)\<lparr> phase := Prepare \<rparr>))) = Finalised"
  by (rule quorum_votes_finalise)
    (simp_all add: round_with_config_def quorum_def quorum_threshold_def)

text \<open>
  The validators that follow the protocol are enough: with fewer than a third of the
  active validators silent or faulty, the others reach the threshold, and the threshold never
  exceeds the number of validators.
\<close>

lemma honest_reach_quorum:
  assumes "vset_wf vs" and "F \<subseteq> members vs" and "3 * card F < vset_len vs"
  shows "quorum_threshold (vset_len vs) small \<le> card (members vs - F)"
proof -
  have "card (members vs - F) = vset_len vs - card F"
    using assms by (simp add: card_Diff_subset finite_subset vset_len_members)
  moreover have "quorum_threshold (vset_len vs) small \<le> quorum_threshold (vset_len vs) False"
    by (simp add: quorum_threshold_def)
  ultimately show ?thesis
    using pq.honest_suffice [OF assms(3)] by linarith
qed

lemma honest_reach_quorum_witness: "quorum_threshold (vset_len demo_vset) False \<le> card (members demo_vset - {})"
  by (rule honest_reach_quorum) simp_all

section \<open>View changes\<close>

lemma trigger_failed: "max_view_changes (round_config r) \<le> view_change_count r \<Longrightarrow>
    phase (snd (trigger_view_change now r)) = Failed \<and>
    round_config (snd (trigger_view_change now r)) = round_config r \<and>
    view_change_count (snd (trigger_view_change now r)) = view_change_count r"
  by (simp add: trigger_view_change_def)

lemma trigger_counts:
  assumes "view_change_count r < max_view_changes (round_config r)"
  shows "unat (view_change_count (snd (trigger_view_change now r))) = Suc (unat (view_change_count r))"
    and "round_config (snd (trigger_view_change now r)) = round_config r"
proof -
  have "1 + view_change_count r \<noteq> 0"
  proof
    assume "1 + view_change_count r = 0"
    then have "view_change_count r = - 1" by (simp add: add_eq_0_iff)
    with assms show False by simp
  qed
  then show "unat (view_change_count (snd (trigger_view_change now r))) = Suc (unat (view_change_count r))"
    using assms by (simp add: trigger_view_change_def Let_def unatSuc add.commute)
qed (use assms in \<open>simp add: trigger_view_change_def Let_def\<close>)

text \<open>
  C9. A round that keeps timing out is abandoned: after more view changes than the
  configured limit leaves, it is in the failed phase, whatever the times of the timeouts.
\<close>

theorem timeouts_end_the_round:
  assumes "view_change_count r \<le> max_view_changes (round_config r)"
    and "unat (max_view_changes (round_config r)) < unat (view_change_count r) + length nows"
  shows "phase (fold (\<lambda>now r. snd (trigger_view_change now r)) nows r) = Failed"
  using assms
proof (induction nows arbitrary: r)
  case Nil
  then show ?case by (simp add: word_le_nat_alt)
next
  case (Cons now nows)
  show ?case
  proof (cases "view_change_count r < max_view_changes (round_config r)")
    case True
    with Cons.prems show ?thesis
      by (auto intro!: Cons.IH simp: trigger_counts word_le_nat_alt word_less_nat_alt)
  next
    case False
    have "phase r' = Failed \<and> max_view_changes (round_config r') \<le> view_change_count r' \<Longrightarrow>
        phase (fold (\<lambda>now r. snd (trigger_view_change now r)) ts r') = Failed" for ts r'
      by (induction ts arbitrary: r') (auto simp: trigger_failed)
    then show ?thesis using False by (simp add: trigger_failed not_less)
  qed
qed

theorem timeouts_end_the_round_witness:
  "phase (fold (\<lambda>now r. snd (trigger_view_change now r)) [1, 2, 3, 4]
     (round_with_config 0 demo_proposal demo_vset demo_config)) = Failed"
  by (rule timeouts_end_the_round) (simp_all add: round_with_config_def demo_config_def)

section \<open>Timeouts and clean-up of the engine\<close>

lemma timeout_loop_rounds:
  assumes "hm_ok (rounds e)" and "distinct hs"
  shows "hm_ok (rounds (snd (timeout_loop now hs sig e))) \<and>
    hm_get (rounds (snd (timeout_loop now hs sig e))) h =
      map_option (\<lambda>r. if h \<in> set hs then snd (trigger_view_change now r) else r) (hm_get (rounds e) h)"
  using assms
proof (induction hs arbitrary: sig e)
  case Nil
  then show ?case by (simp add: map_option.id [unfolded id_def])
next
  case (Cons k hs)
  show ?case
  proof (cases "hm_get (rounds e) k")
    case None
    with Cons.IH [OF Cons.prems(1)] Cons.prems(2) show ?thesis
      by (cases "h = k") simp_all
  next
    case (Some r)
    obtain res r' where t: "trigger_view_change now r = (res, r')" by fastforce
    let ?e = "e\<lparr> rounds := hm_insert k r' (rounds e) \<rparr>"
    have "hm_ok (rounds ?e)" using Cons.prems(1) by (simp add: hm.valid_put)
    moreover have "hm_get (rounds ?e) h = (if h = k then Some r' else hm_get (rounds e) h)"
      using Cons.prems(1) by (simp add: hm.lookup_put)
    ultimately show ?thesis
      using Cons.IH [of ?e] Cons.prems(2) Some t by auto
  qed
qed

lemma timed_out_hashes:
  assumes "hm_ok (rounds e)"
  shows "distinct (timed_out_rounds now e)"
    and "h \<in> set (timed_out_rounds now e) \<longleftrightarrow>
      (\<exists>r. hm_get (rounds e) h = Some r \<and> is_phase_timed_out now r)"
proof -
  show "distinct (timed_out_rounds now e)"
    unfolding timed_out_rounds_def
    by (rule distinct_map_filter) (use assms in \<open>simp add: hm_ok_def\<close>)
  show "h \<in> set (timed_out_rounds now e) \<longleftrightarrow>
      (\<exists>r. hm_get (rounds e) h = Some r \<and> is_phase_timed_out now r)"
    by (force simp: timed_out_rounds_def hm.entries_lookup [OF assms, symmetric])
qed

text \<open>
  A sweep of the timeouts applies a view change to exactly the rounds whose phase has
  timed out and leaves every other round alone; it neither adds nor removes a round, and a
  finalised or failed round is never touched.
\<close>

lemma timeout_rounds_spec:
  assumes "hm_ok (rounds e)"
  shows "hm_get (rounds (snd (timeout_rounds now e))) h =
           map_option (\<lambda>r. if is_phase_timed_out now r then snd (trigger_view_change now r) else r)
             (hm_get (rounds e) h) \<and>
         (\<forall>r. hm_get (rounds e) h = Some r \<longrightarrow> is_terminal r \<longrightarrow>
            hm_get (rounds (snd (timeout_rounds now e))) h = Some r)"
proof -
  have "hm_get (rounds (snd (timeout_rounds now e))) h =
      map_option (\<lambda>r. if is_phase_timed_out now r then snd (trigger_view_change now r) else r)
        (hm_get (rounds e) h)"
    using timeout_loop_rounds [OF assms timed_out_hashes(1) [OF assms]] timed_out_hashes(2) [OF assms, of h now]
    by (cases "hm_get (rounds e) h") (simp_all add: timeout_rounds_def)
  then show ?thesis
    by (simp add: is_phase_timed_out_def is_terminal_def)
qed

lemma timeout_rounds_spec_witness:
  "hm_get (rounds (snd (timeout_rounds (from_secs 99) \<lparr> rounds = [(''v'', solo_round)], engine_config = demo_config \<rparr>))) ''v''
     = Some solo_round"
  using timeout_rounds_spec [of "\<lparr> rounds = [(''v'', solo_round)], engine_config = demo_config \<rparr>"
      "from_secs 99" "''v''"]
  by (simp add: hm_ok_def is_terminal_def is_phase_timed_out_def)

text \<open>
  The clean-up removes exactly the terminal rounds that were created longer ago than the
  configured time, keeps all others, and reports how many it removed.
\<close>

lemma cleanup_stale_rounds_spec:
  assumes "hm_ok (rounds e)"
  shows "hm_get (rounds (snd (cleanup_stale_rounds now e))) h =
      (case hm_get (rounds e) h of
         None \<Rightarrow> None
       | Some r \<Rightarrow> if is_terminal r \<and> stale_round_ttl (engine_config e) < elapsed now (created_at r)
                   then None else Some r) \<and>
    active_round_count (snd (cleanup_stale_rounds now e)) + fst (cleanup_stale_rounds now e)
      = active_round_count e"
proof -
  let ?P = "\<lambda>r. is_terminal r \<and> stale_round_ttl (engine_config e) < elapsed now (created_at r)"
  have stale: "h \<in> set (stale_rounds now e) \<longleftrightarrow> (\<exists>r. hm_get (rounds e) h = Some r \<and> ?P r)" for h
    by (force simp: stale_rounds_def hm.entries_lookup [OF assms, symmetric])
  have get: "hm_get (rounds (snd (cleanup_stale_rounds now e))) h =
      (if h \<in> set (stale_rounds now e) then None else hm_get (rounds e) h)" for h
    using hm_fold_remove [OF assms] by (simp add: cleanup_stale_rounds_def Let_def)
  have ok: "hm_ok (rounds (snd (cleanup_stale_rounds now e)))"
    using hm_fold_remove [OF assms] by (simp add: cleanup_stale_rounds_def Let_def)
  have "distinct (stale_rounds now e)"
    unfolding stale_rounds_def
    by (rule distinct_map_filter) (use assms in \<open>simp add: hm_ok_def\<close>)
  then have "length (stale_rounds now e) = card (set (stale_rounds now e))"
    by (simp add: distinct_card)
  moreover have "dom (hm_get (rounds (snd (cleanup_stale_rounds now e)))) =
      dom (hm_get (rounds e)) - set (stale_rounds now e)"
    by (auto simp: get split: if_splits)
  moreover have "set (stale_rounds now e) \<subseteq> dom (hm_get (rounds e))"
    using stale by blast
  moreover have "finite (dom (hm_get (rounds e)))" by (rule hm.finite_dom [OF assms])
  ultimately have "active_round_count (snd (cleanup_stale_rounds now e)) + length (stale_rounds now e)
      = active_round_count e"
    unfolding active_round_count_def hm.size_dom [OF ok] hm.size_dom [OF assms]
    by (simp add: card_Diff_subset card_mono)
  moreover have "fst (cleanup_stale_rounds now e) = length (stale_rounds now e)"
    by (simp add: cleanup_stale_rounds_def Let_def)
  ultimately show ?thesis
    using get [of h] stale [of h] by (auto split: option.splits)
qed

lemma cleanup_stale_rounds_spec_witness:
  "active_round_count (snd (cleanup_stale_rounds (from_secs 200) \<lparr> rounds = [(''v'', solo_round)], engine_config = demo_config \<rparr>)) = 0"
proof -
  have "fst (cleanup_stale_rounds (from_secs 200) \<lparr> rounds = [(''v'', solo_round)], engine_config = demo_config \<rparr>) = 1"
    by (simp add: cleanup_stale_rounds_def stale_rounds_def is_terminal_def demo_config_def from_secs_def
        elapsed_def solo_round_def round_with_config_def Let_def)
  then show ?thesis
    using cleanup_stale_rounds_spec [of "\<lparr> rounds = [(''v'', solo_round)], engine_config = demo_config \<rparr>"
        "from_secs 200" "''v''"]
    by (simp add: hm_ok_def active_round_count_def)
qed

section \<open>Finalised rounds can be undone\<close>

text \<open>
  A view-change certificate is counted whatever the phase of the round and whoever signs
  it: with at most two active validators one certificate from any identity takes a finalised
  round back to the first phase and discards its commit signatures.
\<close>

lemma view_change_unfinalises:
  assumes "phase r = Finalised" and "vset_len (round_validators r) \<le> 2"
    and "view_number r < w" and "view_change_count r < max_view_changes (round_config r)"
    and "hm_get (view_change_votes r) w = None"
  shows "\<exists>r'. record_view_change now anyone w r = (Inr True, r') \<and> phase r' = PrePrepare \<and>
           commit_sigs r' = [] \<and> prepare_sigs r' = []"
  using assms by (simp add: record_view_change_def trigger_view_change_def Let_def not_le)

lemma view_change_unfinalises_witness:
  "\<exists>r'. record_view_change 5 ''stranger'' 1 solo_round = (Inr True, r') \<and> phase r' = PrePrepare \<and>
     commit_sigs r' = [] \<and> prepare_sigs r' = []"
  by (rule view_change_unfinalises) (simp_all add: solo_round_def round_with_config_def demo_config_def)

text \<open>
  Starting a round for a block that already has one replaces it: the engine forgets the
  votes it had, and a block that was finalised is no longer reported as finalised.
\<close>

lemma restart_discards_round:
  assumes "start_round c now b vs e = (Inr h, e')"
  shows "h = block_hash_of c b \<and> get_finalised_block h e' = None \<and> finalised_sigs h e' = [] \<and>
    (\<forall>k. k \<noteq> h \<longrightarrow> hm_get (rounds e') k = hm_get (rounds e) k)"
  using assms
  by (auto simp: start_round_def Let_def get_finalised_block_def finalised_sigs_def
      finalised_signatures_def pre_prepare_ok_iff round_with_config_def update_conv'
      split: prod.splits sum.splits)

lemma restart_discards_round_witness:
  "get_finalised_block ''v'' (engine_run solo_env demo_config solo_events) \<noteq> None \<and>
   get_finalised_block ''v''
     (snd (start_round solo_env 9 demo_proposal demo_vset (engine_run solo_env demo_config solo_events))) = None"
proof
  show "get_finalised_block ''v'' (engine_run solo_env demo_config solo_events) \<noteq> None"
    by (simp add: solo_run get_finalised_block_def)
  obtain e' where e': "start_round solo_env 9 demo_proposal demo_vset
      (engine_run solo_env demo_config solo_events) = (Inr ''v'', e')"
    by (simp add: start_round_def Let_def pre_prepare_def round_with_config_def
      check_vrf_proof_def select_proposer_deterministic_def vrf_candidates_def demo_vset_def
      scored_def demo_info_def is_member_def)
  with restart_discards_round [OF e'] show "get_finalised_block ''v''
      (snd (start_round solo_env 9 demo_proposal demo_vset (engine_run solo_env demo_config solo_events))) = None"
    by simp
qed

end
