(* ===== verification/Risk.thy ===== *)
theory Risk
  imports Package "HOL-Library.Signed_Division" "HOL-Library.Product_Lexorder" "HOL-Library.Log_Nat"
begin

text \<open>
  How a validator turns what its scanners found into a decision: the analysis bundles of
  \<^verbatim>\<open>crates/validator/src/bundle.rs\<close>, the publisher reputation of \<^verbatim>\<open>reputation.rs\<close>, the version
  diff of \<^verbatim>\<open>diff.rs\<close> and the risk aggregation of \<^verbatim>\<open>risk.rs\<close>.

  Environment variables are arguments: a record for the switches and thresholds that are read.
  \<^verbatim>\<open>f64\<close> values are rationals; every operation that rounds is followed by \<^verbatim>\<open>fl\<close>. \<^verbatim>\<open>i32\<close>
  arithmetic is written out with its wrap-around, as a release build computes it.

  The lemmas show that every score stays in its range whatever the inputs, that a critical
  finding of a deterministic stage always blocks, that findings of the advisory stages change
  neither the decision nor the evidence digest, and that the reputation of a publisher alone
  never blocks.
\<close>

section \<open>Numbers\<close>

definition wrap32 :: "int \<Rightarrow> int" where
  "wrap32 x = (x + 2 ^ 31) mod 2 ^ 32 - 2 ^ 31"

definition show_int :: "int \<Rightarrow> string" where
  "show_int i = (if i < 0 then ''-'' @ show_nat (nat (- i)) else show_nat (nat i))"

text \<open>
  The double nearest to a rational, ties to even. The values here lie between 0 and a few
  hundred and are at least \<^verbatim>\<open>2^-60\<close> or zero, so neither subnormals nor infinities occur.
\<close>

definition round_half_even :: "rat \<Rightarrow> int" where
  "round_half_even x =
     (let n = \<lfloor>x\<rfloor>; d = x - of_int n in
      if d < 1 / 2 then n else if 1 / 2 < d then n + 1 else if even n then n else n + 1)"

definition binary_exponent :: "rat \<Rightarrow> int" where
  "binary_exponent x =
     (let (p, q) = quotient_of x; e = int (floorlog 2 (nat \<bar>p\<bar>)) - int (floorlog 2 (nat q)) in
      if \<bar>x\<bar> < power_int 2 e then e - 1 else e)"

definition fl :: "rat \<Rightarrow> rat" where
  "fl x =
     (if x = 0 then 0
      else let ulp = power_int 2 (binary_exponent x - 52) in ulp * of_int (round_half_even (x / ulp)))"

text \<open>\<^verbatim>\<open>f64::round\<close>: half-way cases away from zero.\<close>

definition round_f64 :: "rat \<Rightarrow> int" where
  "round_f64 x = (if 0 \<le> x then \<lfloor>x + 1 / 2\<rfloor> else - \<lfloor>1 / 2 - x\<rfloor>)"

definition percent_u8 :: "rat \<Rightarrow> u8" where
  "percent_u8 x = of_int (min 100 (max 0 (round_f64 x)))"

section \<open>Analysis bundles\<close>

record analysis_bundle_set =
  policy_bundle :: string
  feature_schema :: string
  expert_bundle :: string
  embedding_model :: string
  index_epoch_id :: string
  threshold_profile :: string
  llm_prompt_profile :: string
  osv_epoch :: string

text \<open>An environment variable that is set, trimmed and not blank, or the default.\<close>

definition env_or :: "string option \<Rightarrow> string \<Rightarrow> string" where
  "env_or v dflt = (case v of None \<Rightarrow> dflt | Some s \<Rightarrow> if trim s = [] then dflt else trim s)"

definition current_bundles :: "(string \<Rightarrow> string option) \<Rightarrow> string \<Rightarrow> analysis_bundle_set" where
  "current_bundles var osv_bundle_epoch =
     \<lparr> policy_bundle = env_or (var ''CREG_POLICY_BUNDLE_ID'') ''policy-v1'',
       feature_schema = env_or (var ''CREG_FEATURE_SCHEMA_ID'') ''features-v1'',
       expert_bundle = env_or (var ''CREG_EXPERT_BUNDLE_ID'') ''experts-v1'',
       embedding_model = env_or (var ''CREG_EMBEDDING_MODEL_ID'') ''embeddings-v1'',
       index_epoch_id = env_or (var ''CREG_INDEX_EPOCH'') ''index-epoch-0'',
       threshold_profile = env_or (var ''CREG_THRESHOLD_PROFILE_ID'') ''thresholds-v1'',
       llm_prompt_profile = env_or (var ''CREG_LLM_PROMPT_PROFILE_ID'') ''llm-prompt-v1'',
       osv_epoch = osv_bundle_epoch \<rparr>"

definition to_refs :: "analysis_bundle_set \<Rightarrow> analysis_bundle_refs" where
  "to_refs b =
     \<lparr> policy_bundle_id = policy_bundle b, feature_schema_id = feature_schema b,
       expert_bundle_id = expert_bundle b, embedding_model_id = embedding_model b,
       index_epoch = index_epoch_id b, threshold_profile_id = threshold_profile b,
       llm_prompt_profile_id = llm_prompt_profile b, osv_snapshot_epoch = osv_epoch b \<rparr>"

section \<open>Publisher reputation\<close>

record reputation_assessment =
  confidence_delta :: int
  assessed_pubkey :: string
  rep_notes :: "string list"
  revoked_pgp_fps :: "string list"

record publisher_record =
  pub_total :: u32
  pub_verified :: u32
  pub_revoked :: u32
  pub_stake_wei :: u64
  pub_first_seen_days :: u32
  pub_revoked_fps :: "string list"

text \<open>Two characters of the messages, in UTF-8.\<close>

definition right_arrow :: string where
  "right_arrow = map byte [0xE2, 0x86, 0x92]"

definition em_dash :: string where
  "em_dash = map byte [0xE2, 0x80, 0x94]"

definition revocation_step :: "publisher_record \<Rightarrow> int \<times> string list" where
  "revocation_step rec =
     (if 0 < pub_revoked rec
      then let penalty = wrap32 (wrap32 (uint (pub_revoked rec)) * - 25) in
           (penalty, [show_nat (unat (pub_revoked rec)) @ '' prior revocation(s) '' @ right_arrow @ '' -''
              @ show_int (wrap32 \<bar>penalty\<bar>) @ '' confidence''])
      else (0, []))"

definition track_record_step :: "publisher_record \<Rightarrow> int \<times> string list" where
  "track_record_step rec =
     (if 10 \<le> pub_verified rec
      then (20, [show_nat (unat (pub_verified rec)) @ '' verified packages on record '' @ right_arrow @ '' +20''])
      else if 3 \<le> pub_verified rec
      then (10, [show_nat (unat (pub_verified rec)) @ '' verified packages on record '' @ right_arrow @ '' +10''])
      else if pub_verified rec = 0 \<and> pub_total rec = 0
      then (- 10, [''First-time publisher '' @ em_dash @ '' no track record '' @ right_arrow @ '' -10''])
      else (0, []))"

definition stake_step :: "publisher_record \<Rightarrow> int \<times> string list" where
  "stake_step rec =
     (let stake_eth = pub_stake_wei rec div 1000000000000000000 in
      if 5 \<le> stake_eth
      then (15, [show_nat (unat stake_eth) @ '' ETH staked '' @ right_arrow @ '' +15 confidence''])
      else if 1 \<le> stake_eth
      then (5, [show_nat (unat stake_eth) @ '' ETH staked '' @ right_arrow @ '' +5 confidence''])
      else (0, []))"

definition age_step :: "publisher_record \<Rightarrow> int \<times> string list" where
  "age_step rec =
     (if 365 \<le> pub_first_seen_days rec
      then (10, [''Account '' @ show_nat (unat (pub_first_seen_days rec)) @ '' days old '' @ right_arrow @ '' +10''])
      else if pub_first_seen_days rec < 7
      then (- 15, [''Account only '' @ show_nat (unat (pub_first_seen_days rec)) @ '' days old '' @ right_arrow @ '' -15''])
      else (0, []))"

definition build_assessment :: "string \<Rightarrow> publisher_record \<Rightarrow> reputation_assessment" where
  "build_assessment pubkey rec =
     (let steps = [revocation_step rec, track_record_step rec, stake_step rec, age_step rec];
          delta = foldl (\<lambda>d s. wrap32 (d + fst s)) 0 steps
      in \<lparr> confidence_delta = min 100 (max (- 100) delta), assessed_pubkey = pubkey,
           rep_notes = concat (map snd steps), revoked_pgp_fps = pub_revoked_fps rec \<rparr>)"

text \<open>
  The answers of the node to the three attempts: the record, a body that does not decode,
  not found, another status, or no answer. The first record or not-found ends the loop.
\<close>

datatype publisher_answer =
    RecordFound publisher_record | DecodeFailed string | NotFound | HttpStatus string | TransportError string

fun assess_attempts :: "string \<Rightarrow> string option \<Rightarrow> publisher_answer list \<Rightarrow> reputation_assessment" where
  "assess_attempts pubkey last_error [] =
     \<lparr> confidence_delta = - 25, assessed_pubkey = pubkey,
       rep_notes = [''Reputation service unreachable ('' @ (case last_error of None \<Rightarrow> ''unknown'' | Some e \<Rightarrow> e) @ '') ''
         @ em_dash @ '' treating as untrusted (-25)''],
       revoked_pgp_fps = [] \<rparr>"
| "assess_attempts pubkey last_error (RecordFound rec # as) = build_assessment pubkey rec"
| "assess_attempts pubkey last_error (DecodeFailed e # as) = assess_attempts pubkey (Some (''decode failed: '' @ e)) as"
| "assess_attempts pubkey last_error (NotFound # as) =
     \<lparr> confidence_delta = - 10, assessed_pubkey = pubkey,
       rep_notes = [''Publisher not found on chain '' @ em_dash @ '' first-time publisher (-10)''], revoked_pgp_fps = [] \<rparr>"
| "assess_attempts pubkey last_error (HttpStatus s # as) = assess_attempts pubkey (Some (''HTTP '' @ s)) as"
| "assess_attempts pubkey last_error (TransportError e # as) =
     assess_attempts pubkey (Some (''transport error: '' @ e)) as"

definition assess_publisher :: "string \<Rightarrow> publisher_answer list \<Rightarrow> reputation_assessment" where
  "assess_publisher pubkey answers = assess_attempts pubkey None (take 3 answers)"

datatype final_decision =
    FinalApprove u8
  | ApproveWithWarning string u8
  | FinalReject string u8

fun is_reject :: "final_decision \<Rightarrow> bool" where
  "is_reject (FinalReject _ _) = True"
| "is_reject _ = False"

fun decision_reject_reason :: "final_decision \<Rightarrow> string option" where
  "decision_reject_reason (FinalReject reason _) = Some reason"
| "decision_reject_reason _ = None"

fun decision_confidence :: "final_decision \<Rightarrow> u8" where
  "decision_confidence (FinalApprove c) = c"
| "decision_confidence (ApproveWithWarning _ c) = c"
| "decision_confidence (FinalReject _ c) = c"

text \<open>The thresholds come from the environment; \<^verbatim>\<open>as u8\<close> keeps the low eight bits.\<close>

definition reputation_decision :: "int \<Rightarrow> int \<Rightarrow> bool \<Rightarrow> bool \<Rightarrow> int \<Rightarrow> final_decision" where
  "reputation_decision reject_threshold warn_threshold static_critical sandbox_critical delta =
     (if static_critical \<or> sandbox_critical
      then FinalReject (if static_critical then ''Critical static analysis finding''
                        else ''Critical sandbox behavior finding'') 95
      else if delta < reject_threshold
      then FinalReject (''Publisher reputation score '' @ show_int delta @ '' falls below trust threshold (''
             @ show_int reject_threshold @ '')'') 70
      else if delta < warn_threshold
      then ApproveWithWarning (''Publisher reputation is low (delta '' @ show_int delta @ ''). Monitor this package.'')
             (of_int (max (wrap32 (50 + delta)) 10))
      else FinalApprove (of_int (min (wrap32 (60 + delta sdiv 2)) 100)))"

section \<open>Version diff\<close>

record sandbox_result =
  sandbox_findings :: "finding list"
  observed_network_hosts :: "string list"
  observed_fs_writes :: "string list"
  observed_process_spawns :: "string list"

record diff_result =
  diff_findings :: "finding list"
  new_hosts :: "string list"
  new_paths :: "string list"

definition mk_finding :: "string \<Rightarrow> string \<Rightarrow> finding_severity \<Rightarrow> string \<Rightarrow> string \<Rightarrow> finding" where
  "mk_finding i t sev desc f =
     \<lparr> finding_id = i, title = t, severity = sev, finding_description = desc, finding_file = f, finding_line = None \<rparr>"

definition not_in :: "string list \<Rightarrow> string list \<Rightarrow> string list" where
  "not_in old xs = filter (\<lambda>x. x \<notin> set old) xs"

definition new_host_finding :: "string \<Rightarrow> finding" where
  "new_host_finding host =
     mk_finding ''DF001'' ''New network host'' Medium (''New undeclared network host access: '' @ host) ''manifest''"

definition new_path_finding :: "string \<Rightarrow> finding" where
  "new_path_finding path =
     mk_finding ''DF002'' ''New fs write path'' Medium (''New undeclared filesystem write path: '' @ path) ''manifest''"

definition spawn_finding :: finding where
  "spawn_finding =
     mk_finding ''DF003'' ''Permission escalation: process-spawn'' High
       ''Package now requests child process execution (previously disabled)'' ''manifest''"

definition undeclared_host_finding :: "string \<Rightarrow> finding" where
  "undeclared_host_finding host =
     mk_finding ''DF004'' ''Sandbox violation: Undeclared host egress'' High
       (''Suspicious behavior: Real-world access to '' @ [CHR 0x27] @ host @ [CHR 0x27]
         @ '' detected in sandbox but not in manifest'') ''sandbox''"

definition runtime_finding :: "string \<Rightarrow> string \<Rightarrow> finding_severity \<Rightarrow> string \<Rightarrow> string \<Rightarrow> finding" where
  "runtime_finding i t sev what x =
     mk_finding i (''Runtime behavior change: '' @ t) sev
       (''Sandbox observed '' @ what @ [CHR 0x27] @ x @ [CHR 0x27] @ '' '' @ em_dash
         @ '' not seen in previous version'' @ [CHR 0x27] @ ''s sandbox run'') ''sandbox''"

definition manifest_diff :: "package_manifest \<Rightarrow> package_manifest \<Rightarrow> finding list" where
  "manifest_diff prev cur =
     map new_host_finding (not_in (allowed_network_hosts prev) (allowed_network_hosts cur))
     @ map new_path_finding (not_in (allowed_fs_writes prev) (allowed_fs_writes cur))
     @ (if spawns_processes cur \<and> \<not> spawns_processes prev then [spawn_finding] else [])"

definition runtime_diff :: "sandbox_result \<Rightarrow> sandbox_result \<Rightarrow> finding list" where
  "runtime_diff prev cur =
     map (runtime_finding ''DF005'' ''new network host'' High ''contact with '')
       (not_in (observed_network_hosts prev) (observed_network_hosts cur))
     @ map (runtime_finding ''DF006'' ''new fs write path'' Medium ''write to '')
       (not_in (observed_fs_writes prev) (observed_fs_writes cur))
     @ map (runtime_finding ''DF007'' ''new process spawn'' High ''spawn of '')
       (not_in (observed_process_spawns prev) (observed_process_spawns cur))"

definition diff_analyze ::
    "package_manifest \<Rightarrow> sandbox_result \<Rightarrow> package_manifest option \<Rightarrow> sandbox_result option \<Rightarrow> diff_result" where
  "diff_analyze m s prev_manifest prev_sandbox =
     \<lparr> diff_findings =
         (case prev_manifest of None \<Rightarrow> [] | Some p \<Rightarrow> manifest_diff p m)
         @ (case prev_sandbox of None \<Rightarrow> [] | Some p \<Rightarrow> runtime_diff p s)
         @ map undeclared_host_finding (not_in (allowed_network_hosts m) (observed_network_hosts s)),
       new_hosts =
         (case prev_manifest of None \<Rightarrow> [] | Some p \<Rightarrow> not_in (allowed_network_hosts p) (allowed_network_hosts m))
         @ (case prev_sandbox of None \<Rightarrow> [] | Some p \<Rightarrow> not_in (observed_network_hosts p) (observed_network_hosts s)),
       new_paths =
         (case prev_manifest of None \<Rightarrow> [] | Some p \<Rightarrow> not_in (allowed_fs_writes p) (allowed_fs_writes m))
         @ (case prev_sandbox of None \<Rightarrow> [] | Some p \<Rightarrow> not_in (observed_fs_writes p) (observed_fs_writes s)) \<rparr>"

section \<open>Risk aggregation\<close>

datatype risk_band = BandLow | BandGuarded | BandElevated | BandHigh | BandCritical

fun band_label :: "risk_band \<Rightarrow> string" where
  "band_label BandLow = ''low''"
| "band_label BandGuarded = ''guarded''"
| "band_label BandElevated = ''elevated''"
| "band_label BandHigh = ''high''"
| "band_label BandCritical = ''critical''"

datatype risk_disposition = Accept | Review | Block

fun disposition_label :: "risk_disposition \<Rightarrow> string" where
  "disposition_label Accept = ''accept''"
| "disposition_label Review = ''review''"
| "disposition_label Block = ''block''"

record risk_summary =
  rs_bundle_set :: analysis_bundle_set
  rs_score :: u8
  rs_deterministic_score :: u8
  rs_advisory_score :: u8
  rs_ensemble_score :: u8
  rs_band :: risk_band
  rs_disposition :: risk_disposition
  rs_deterministic_block :: bool
  rs_llm_review_recommended :: bool
  rs_llm_review_used :: bool
  rs_deterministic_findings :: nat
  rs_advisory_findings :: nat
  rs_critical_findings :: nat
  rs_high_findings :: nat
  rs_medium_findings :: nat
  rs_low_findings :: nat
  rs_reputation_delta :: int
  rs_evidence_digest :: string
  rs_reasons :: "string list"

definition risk_primary_reason :: "risk_summary \<Rightarrow> string" where
  "risk_primary_reason s =
     (case rs_reasons s of
        r # _ \<Rightarrow> r
      | [] \<Rightarrow> ''Deterministic risk band '' @ [CHR 0x27] @ band_label (rs_band s) @ [CHR 0x27] @ '' (score ''
               @ show_nat (unat (rs_score s)) @ '')'')"

definition to_common_summary :: "risk_summary \<Rightarrow> deterministic_risk_summary" where
  "to_common_summary s =
     \<lparr> score = rs_score s, deterministic_score = rs_deterministic_score s, advisory_score = rs_advisory_score s,
       band = band_label (rs_band s), disposition = disposition_label (rs_disposition s),
       deterministic_findings = rs_deterministic_findings s, advisory_findings = rs_advisory_findings s,
       critical_findings = rs_critical_findings s, high_findings = rs_high_findings s,
       medium_findings = rs_medium_findings s, low_findings = rs_low_findings s, reasons = rs_reasons s \<rparr>"

text \<open>The thresholds of the aggregator and the switches it reads from the environment.\<close>

record risk_aggregator =
  block_threshold :: u8
  review_threshold :: u8
  llm_review_threshold :: u8

record risk_switches =
  testnet :: bool
  production :: bool
  osv_block_critical :: bool

definition env_u8 :: "u8 option \<Rightarrow> u8 \<Rightarrow> u8" where
  "env_u8 v dflt = (case v of None \<Rightarrow> dflt | Some n \<Rightarrow> n)"

definition default_aggregator :: "(string \<Rightarrow> u8 option) \<Rightarrow> risk_aggregator" where
  "default_aggregator var =
     \<lparr> block_threshold = env_u8 (var ''CREG_RISK_BLOCK_THRESHOLD'') 85,
       review_threshold = env_u8 (var ''CREG_RISK_REVIEW_THRESHOLD'') 55,
       llm_review_threshold = env_u8 (var ''CREG_RISK_LLM_THRESHOLD'') 40 \<rparr>"

definition env_truthy :: "string option \<Rightarrow> bool" where
  "env_truthy v = (case v of None \<Rightarrow> False | Some s \<Rightarrow> s = ''1'' \<or> to_ascii_lowercase s = ''true'')"

definition allow_sandbox_bypass :: "risk_switches \<Rightarrow> bool" where
  "allow_sandbox_bypass sw = (testnet sw \<and> \<not> production sw)"

definition is_non_blocking_bypass :: "finding \<Rightarrow> bool \<Rightarrow> bool" where
  "is_non_blocking_bypass f allowed = (allowed \<and> finding_id f = ''SB012'')"

definition is_deterministic_finding :: "risk_switches \<Rightarrow> string \<Rightarrow> bool" where
  "is_deterministic_finding sw i =
     (if starts_with i ''OSV'' then i = ''OSV002'' \<and> osv_block_critical sw
      else i \<notin> {''SA011'', ''SA012''} \<and> \<not> starts_with i ''LLM'')"

fun severity_rank :: "finding_severity \<Rightarrow> u8" where
  "severity_rank Critical = 4"
| "severity_rank High = 3"
| "severity_rank Medium = 2"
| "severity_rank Low = 1"

fun severity_debug :: "finding_severity \<Rightarrow> string" where
  "severity_debug Critical = ''Critical''"
| "severity_debug High = ''High''"
| "severity_debug Medium = ''Medium''"
| "severity_debug Low = ''Low''"

definition line_or_0 :: "finding \<Rightarrow> nat" where
  "line_or_0 f = (case finding_line f of None \<Rightarrow> 0 | Some n \<Rightarrow> n)"

definition reason_key :: "finding \<Rightarrow> int \<times> string \<times> string \<times> nat" where
  "reason_key f = (- uint (severity_rank (severity f)), finding_id f, finding_file f, line_or_0 f)"

definition build_reasons :: "finding list \<Rightarrow> int \<Rightarrow> string list" where
  "build_reasons fs delta =
     (let rs = map (\<lambda>f. ''['' @ finding_id f @ ''] '' @ title f) (take 5 (sort_key reason_key fs))
            @ (if delta < 0 then [''Publisher reputation delta '' @ show_int delta @ '' increases deterministic risk''] else [])
      in if rs = [] then [''No deterministic blockers detected''] else rs)"

definition evidence_item :: "finding \<Rightarrow> string" where
  "evidence_item f =
     join_with ''|'' [finding_id f, severity_debug (severity f), finding_file f, show_nat (line_or_0 f), title f]"

definition build_evidence_digest ::
    "'a crypto_scheme \<Rightarrow> package_id \<Rightarrow> finding list \<Rightarrow> analysis_bundle_set \<Rightarrow> int \<Rightarrow> u8 \<Rightarrow> string" where
  "build_evidence_digest c p fs b delta det_score =
     sha256_hex c (join_with ''::''
       [canonical p, policy_bundle b, feature_schema b, expert_bundle b, embedding_model b, index_epoch_id b,
        threshold_profile b, osv_epoch b, show_int delta, show_nat (unat det_score),
        join_with ''||'' (sort (map evidence_item fs))])"

definition count_severity :: "finding_severity \<Rightarrow> finding list \<Rightarrow> nat" where
  "count_severity sev fs = length (filter (\<lambda>f. severity f = sev) fs)"

definition counted_high :: "risk_switches \<Rightarrow> finding list \<Rightarrow> nat" where
  "counted_high sw fs =
     length (filter (\<lambda>f. severity f = High \<and> \<not> is_non_blocking_bypass f (allow_sandbox_bypass sw)) fs)"

definition risk_score :: "risk_switches \<Rightarrow> u8 \<Rightarrow> finding list \<Rightarrow> int \<Rightarrow> u8" where
  "risk_score sw det_score det delta =
     (let s0 = uint det_score;
          s1 = wrap32 (s0 + wrap32 (wrap32 (int (count_severity Critical det)) * 25));
          s2 = wrap32 (s1 + wrap32 (wrap32 (int (counted_high sw det)) * 15));
          s3 = wrap32 (s2 + wrap32 (wrap32 (int (count_severity Medium det)) * 5));
          s4 = wrap32 (s3 + wrap32 (int (count_severity Low det)));
          s5 = (if delta < 0 then wrap32 (s4 + wrap32 (wrap32 (- delta) + 4) sdiv 5)
                else wrap32 (s4 - delta sdiv 20))
      in of_int (min 100 (max 0 s5)))"

definition band_of :: "u8 \<Rightarrow> risk_band" where
  "band_of s =
     (if s \<le> 19 then BandLow else if s \<le> 44 then BandGuarded else if s \<le> 69 then BandElevated
      else if s \<le> 89 then BandHigh else BandCritical)"

text \<open>
  The summary. The review of the language model enters by one bit: whether it is there and
  not degraded.
\<close>

definition summarize ::
    "'a crypto_scheme \<Rightarrow> risk_switches \<Rightarrow> risk_aggregator \<Rightarrow> package_id \<Rightarrow> finding list \<Rightarrow> rat \<Rightarrow> rat \<Rightarrow> rat \<Rightarrow> bool
     \<Rightarrow> analysis_bundle_set \<Rightarrow> reputation_assessment \<Rightarrow> risk_summary" where
  "summarize c sw ag p fs det_f64 adv_f64 ens_f64 llm_review_used bundles rep =
     (let det = filter (\<lambda>f. is_deterministic_finding sw (finding_id f)) fs;
          det_score = percent_u8 det_f64; adv_score = percent_u8 adv_f64; ens_score = percent_u8 ens_f64;
          sc = risk_score sw det_score det (confidence_delta rep);
          crit = count_severity Critical det; high = count_severity High det;
          blocked = (0 < crit \<or> block_threshold ag \<le> sc)
      in \<lparr> rs_bundle_set = bundles, rs_score = sc, rs_deterministic_score = det_score,
           rs_advisory_score = adv_score, rs_ensemble_score = ens_score, rs_band = band_of sc,
           rs_disposition =
             (if blocked then Block
              else if review_threshold ag \<le> sc \<or> 0 < high \<or> review_threshold ag \<le> adv_score then Review
              else Accept),
           rs_deterministic_block = blocked,
           rs_llm_review_recommended = (\<not> llm_review_used \<and> llm_review_threshold ag \<le> max det_score adv_score),
           rs_llm_review_used = llm_review_used,
           rs_deterministic_findings = length det, rs_advisory_findings = length fs - length det,
           rs_critical_findings = crit, rs_high_findings = high,
           rs_medium_findings = count_severity Medium det, rs_low_findings = count_severity Low det,
           rs_reputation_delta = confidence_delta rep,
           rs_evidence_digest = build_evidence_digest c p det bundles (confidence_delta rep) det_score,
           rs_reasons = build_reasons det (confidence_delta rep) \<rparr>)"

definition decide :: "risk_summary \<Rightarrow> final_decision" where
  "decide s =
     (case rs_disposition s of
        Block \<Rightarrow> FinalReject (risk_primary_reason s) (max (rs_score s) 70)
      | Review \<Rightarrow>
          ApproveWithWarning
            (''Deterministic risk band '' @ [CHR 0x27] @ band_label (rs_band s) @ [CHR 0x27] @ '' (score ''
              @ show_nat (unat (rs_score s)) @ '') requires review: '' @ risk_primary_reason s)
            (max (saturating_sub 90 (rs_score s div 2)) 20)
      | Accept \<Rightarrow> FinalApprove (max (saturating_sub 95 (rs_score s div 2)) 35))"

section \<open>Scores stay in range\<close>

lemma clamped_word:
  "of_int (min 100 (max 0 x)) \<le> (100 :: u8)" and
  clamped_unat: "unat (of_int (min 100 (max 0 x)) :: u8) = nat (min 100 (max 0 x))"
proof -
  have *: "uint (of_int (min 100 (max 0 x)) :: u8) = min 100 (max 0 x)"
    by (simp add: unsigned_of_int take_bit_int_eq_self)
  then show "of_int (min 100 (max 0 x)) \<le> (100 :: u8)" by (simp add: word_le_def)
  from * show "unat (of_int (min 100 (max 0 x)) :: u8) = nat (min 100 (max 0 x))"
    by (simp only: unat_eq_nat_uint)
qed

lemma percent_u8_le: "percent_u8 x \<le> 100"
  unfolding percent_u8_def by (rule clamped_word)

lemma risk_score_le: "risk_score sw d fs delta \<le> 100"
  unfolding risk_score_def Let_def by (rule clamped_word)

lemma half_score_le: "s \<le> (100 :: u8) \<Longrightarrow> s div 2 \<le> 50"
  by (simp add: word_le_nat_alt unat_div)

lemma confidence_range:
  assumes "s \<le> (100 :: u8)" and "50 \<le> hi" and "lo \<le> hi" and "hi \<le> 100"
  shows "lo \<le> max (saturating_sub hi (s div 2)) lo \<and> max (saturating_sub hi (s div 2)) lo \<le> (hi :: u8)"
proof -
  have "s div 2 \<le> hi" using half_score_le [OF assms(1)] assms(2) by simp
  then have "saturating_sub hi (s div 2) \<le> hi"
    by (simp add: saturating_sub_def word_le_nat_alt unat_sub not_less)
  then show ?thesis using assms(3) by simp
qed

lemma decide_reject_iff: "is_reject (decide s) \<longleftrightarrow> rs_disposition s = Block"
  by (simp add: decide_def split: risk_disposition.split)

lemma summarize_disposition:
  "rs_disposition (summarize c sw ag p fs d a e u b rep) = Block \<longleftrightarrow>
     rs_deterministic_block (summarize c sw ag p fs d a e u b rep)"
  by (simp add: summarize_def Let_def)


section \<open>What decides\<close>

lemma critical_counted:
  "f \<in> set fs \<Longrightarrow> severity f = Critical \<Longrightarrow> P f \<Longrightarrow> 0 < count_severity Critical (filter P fs)"
  unfolding count_severity_def by (rule length_pos_if_in_set [of f]) simp

text \<open>A critical finding of a deterministic stage blocks, whatever the scores and the publisher.\<close>

lemma critical_finding_rejects:
  assumes "f \<in> set fs" and "severity f = Critical" and "is_deterministic_finding sw (finding_id f)"
  shows "is_reject (decide (summarize c sw ag p fs d a e u b rep))"
  using critical_counted [OF assms(1,2), of "\<lambda>f. is_deterministic_finding sw (finding_id f)"] assms(3)
  by (simp add: decide_reject_iff summarize_def Let_def)

text \<open>
  The rejection and the evidence digest are functions of the deterministic findings and the
  deterministic score: the advisory findings, the advisory score and the review of the
  language model do not enter.
\<close>

lemma advisory_does_not_decide:
  assumes "filter (\<lambda>f. is_deterministic_finding sw (finding_id f)) fs =
      filter (\<lambda>f. is_deterministic_finding sw (finding_id f)) fs'"
  shows "is_reject (decide (summarize c sw ag p fs d a e u b rep)) \<longleftrightarrow>
      is_reject (decide (summarize c sw ag p fs' d a' e' u' b rep))"
    and "rs_evidence_digest (summarize c sw ag p fs d a e u b rep) =
      rs_evidence_digest (summarize c sw ag p fs' d a' e' u' b rep)"
    and "rs_score (summarize c sw ag p fs d a e u b rep) = rs_score (summarize c sw ag p fs' d a' e' u' b rep)"
  using assms by (simp_all add: decide_reject_iff summarize_def Let_def)

lemma wrap32_small: "- (2 ^ 31) \<le> x \<Longrightarrow> x < 2 ^ 31 \<Longrightarrow> wrap32 x = x"
  by (simp add: wrap32_def)

lemma assessment_range: "- 100 \<le> confidence_delta (build_assessment k rec) \<and> confidence_delta (build_assessment k rec) \<le> 100"
  by (simp add: build_assessment_def Let_def)

lemma assess_publisher_range:
  "- 100 \<le> confidence_delta (assess_publisher k as) \<and> confidence_delta (assess_publisher k as) \<le> 100"
proof -
  have "- 100 \<le> confidence_delta (assess_attempts k e xs) \<and> confidence_delta (assess_attempts k e xs) \<le> 100" for e xs
    by (induction k e xs rule: assess_attempts.induct) (simp_all add: assessment_range)
  then show ?thesis by (simp add: assess_publisher_def)
qed

lemma reputation_score_le:
  assumes "- 100 \<le> delta" and "delta \<le> 100"
  shows "unat (risk_score sw 0 [] delta) \<le> 20"
proof -
  have small: "wrap32 x = x" if "\<bar>x\<bar> \<le> 1000" for x using that by (intro wrap32_small) auto
  have zero: "wrap32 0 = 0" by (rule small) simp
  have le: "nat (min 100 (max 0 x)) \<le> 20" if "x \<le> 20" for x :: int using that by simp
  show ?thesis
  proof (cases "delta < 0")
    case True
    have "wrap32 (wrap32 (- delta) + 4) = 4 - delta" using assms by (simp add: small)
    moreover have "(4 - delta) sdiv 5 = (4 - delta) div 5" using True by (simp add: signed_divide_int_def)
    moreover have "wrap32 ((4 - delta) div 5) = (4 - delta) div 5" using assms by (intro small) simp
    moreover have "(4 - delta) div 5 \<le> 20" using assms(1) by simp
    ultimately show ?thesis using True
      unfolding risk_score_def Let_def clamped_unat by (intro le) (simp add: count_severity_def counted_high_def zero)
  next
    case False
    have "delta sdiv 20 = delta div 20" using False by (cases "delta = 0") (simp_all add: signed_divide_int_def)
    moreover have "wrap32 (- (delta div 20)) = - (delta div 20)" using assms False by (intro small) simp
    moreover have "- (delta div 20) \<le> 20" using False by simp
    ultimately show ?thesis using False
      unfolding risk_score_def Let_def clamped_unat by (intro le) (simp add: count_severity_def counted_high_def zero)
  qed
qed

text \<open>
  The reputation of a publisher alone never blocks a package: with a score of zero and no
  deterministic finding it adds at most 20 points, below the default threshold of 85.
\<close>

lemma reputation_alone_never_blocks:
  assumes "\<forall>f \<in> set fs. \<not> is_deterministic_finding sw (finding_id f)" and "percent_u8 d = 0"
    and "20 < unat (block_threshold ag)"
  shows "\<not> is_reject (decide (summarize c sw ag p fs d a e u b (assess_publisher k as)))"
proof -
  have none: "filter (\<lambda>f. is_deterministic_finding sw (finding_id f)) fs = []" using assms(1) by (simp add: filter_empty_conv)
  have "unat (risk_score sw 0 [] (confidence_delta (assess_publisher k as))) \<le> 20"
    using assess_publisher_range [of k as] by (intro reputation_score_le) auto
  then have "\<not> block_threshold ag \<le> risk_score sw 0 [] (confidence_delta (assess_publisher k as))"
    using assms(3) by (simp add: word_le_nat_alt)
  then show ?thesis
    by (simp add: decide_reject_iff summarize_def Let_def none assms(2) count_severity_def)
qed

section \<open>The diff misses nothing\<close>

lemma set_not_in [simp]: "x \<in> set (not_in old xs) \<longleftrightarrow> x \<in> set xs \<and> x \<notin> set old"
  by (auto simp: not_in_def)

text \<open>
  The diff reports exactly the escalations between two versions, and every host the sandbox
  saw that the manifest does not declare.
\<close>

lemma diff_reports_escalations:
  fixes m pm :: package_manifest and s ps :: sandbox_result
  defines "D \<equiv> set (diff_findings (diff_analyze m s (Some pm) (Some ps)))"
  shows "new_host_finding h \<in> D \<longleftrightarrow> h \<in> set (allowed_network_hosts m) \<and> h \<notin> set (allowed_network_hosts pm)"
    and "new_path_finding w \<in> D \<longleftrightarrow> w \<in> set (allowed_fs_writes m) \<and> w \<notin> set (allowed_fs_writes pm)"
    and "spawn_finding \<in> D \<longleftrightarrow> spawns_processes m \<and> \<not> spawns_processes pm"
    and "undeclared_host_finding h \<in> D \<longleftrightarrow> h \<in> set (observed_network_hosts s) \<and> h \<notin> set (allowed_network_hosts m)"
  by (auto simp: D_def diff_analyze_def manifest_diff_def runtime_diff_def new_host_finding_def new_path_finding_def
      spawn_finding_def undeclared_host_finding_def runtime_finding_def mk_finding_def)

end
