(* ===== verification/Validation.thy ===== *)
theory Validation
  imports Risk Concrete
begin

text \<open>
  The validation of a submitted package: the scores of \<^verbatim>\<open>crates/validator/src/static_analysis.rs\<close>,
  the report of \<^verbatim>\<open>report.rs\<close> and the pipeline \<^verbatim>\<open>validate_package\<close> of \<^verbatim>\<open>lib.rs\<close>. The scanners
  themselves (pattern and entropy scan, sandbox, language model, OpenPGP, external auditor)
  are arguments: what each of them returns.

  The lemmas show that the result a validator signs depends on the deterministic stages only:
  two validators that agree on them cast the same vote on the same evidence digest, whatever
  their language models answer. A package with a critical deterministic finding is approved
  only on a clearance signed by the auditor's pinned key.
\<close>

section \<open>Static scores\<close>

datatype evidence_determinism = DeterministicEvidence | AdvisoryEvidence

record evidence_group =
  eg_id :: string
  eg_label :: string
  eg_determinism :: evidence_determinism
  eg_score :: rat
  eg_findings :: "finding list"

record static_analysis_result =
  sa_evidence_groups :: "evidence_group list"
  sa_findings :: "finding list"
  sa_deterministic_score :: rat
  sa_advisory_score :: rat
  sa_ensemble_score :: rat

fun severity_score :: "finding_severity \<Rightarrow> rat" where
  "severity_score Critical = 100"
| "severity_score High = 75"
| "severity_score Medium = 50"
| "severity_score Low = 25"

definition max_score :: "rat list \<Rightarrow> rat" where
  "max_score xs = foldl max 0 xs"

definition has_id :: "string \<Rightarrow> finding list \<Rightarrow> bool" where
  "has_id i fs = list_ex (\<lambda>f. finding_id f = i) fs"

text \<open>The score of the first identifier of a table that some finding has.\<close>

fun first_score :: "(string \<times> rat) list \<Rightarrow> finding list \<Rightarrow> rat" where
  "first_score [] fs = 0"
| "first_score ((i, s) # table) fs = (if has_id i fs then s else first_score table fs)"

definition snippet_score :: "finding \<Rightarrow> rat" where
  "snippet_score f =
     (if finding_id f = ''SA011'' then (if severity f = Critical then 90 else 60)
      else if finding_id f = ''SA012'' then 55 else 0)"

definition group_score :: "string \<Rightarrow> finding list \<Rightarrow> rat" where
  "group_score i fs =
     (if i = ''static-patterns''
      then max_score (map (\<lambda>f. severity_score (severity f))
             (filter (\<lambda>f. finding_id f \<noteq> ''SA011'' \<and> finding_id f \<noteq> ''SA012'') fs))
      else if i = ''rule-ml'' then first_score [(''ML002'', 85), (''ML003'', 60)] fs
      else if i = ''deep-scan'' then first_score [(''DS003'', 100), (''DS002'', 75), (''DS001'', 50), (''ML001'', 40)] fs
      else if i = ''snippet-llm'' then max_score (map snippet_score fs)
      else if i = ''osv-pinned'' then first_score [(''OSV002'', 90), (''OSV003'', 65), (''OSV004'', 40), (''OSV001'', 30)] fs
      else 0)"

definition build_evidence_group ::
    "string \<Rightarrow> string \<Rightarrow> evidence_determinism \<Rightarrow> finding list \<Rightarrow> evidence_group option" where
  "build_evidence_group i lbl det fs =
     (if fs = [] then None
      else Some \<lparr> eg_id = i, eg_label = lbl, eg_determinism = det, eg_score = group_score i fs, eg_findings = fs \<rparr>)"

definition score_for_group :: "evidence_group list \<Rightarrow> string \<Rightarrow> rat" where
  "score_for_group gs i = (case find (\<lambda>g. eg_id g = i) gs of None \<Rightarrow> 0 | Some g \<Rightarrow> eg_score g)"

text \<open>The literals 0.30, 0.25, 0.15 and 0.85 are the doubles nearest to them.\<close>

definition compute_deterministic_score :: "bool \<Rightarrow> evidence_group list \<Rightarrow> rat" where
  "compute_deterministic_score osv_block_critical_enabled gs =
     (let weighted = fl (fl (fl (score_for_group gs ''static-patterns'' * fl (30 / 100))
                             + fl (score_for_group gs ''rule-ml'' * fl (25 / 100)))
                         + fl (score_for_group gs ''deep-scan'' * fl (30 / 100)));
          weight_sum = fl (85 / 100);
          (weighted, weight_sum) =
            (if osv_block_critical_enabled \<and>
                list_ex (\<lambda>g. eg_id g = ''osv-pinned'' \<and> has_id ''OSV002'' (eg_findings g)) gs
             then (fl (weighted + fl (score_for_group gs ''osv-pinned'' * fl (15 / 100))), fl (weight_sum + fl (15 / 100)))
             else (weighted, weight_sum))
      in if weighted = 0 then 0 else min (fl (weighted / weight_sum)) 100)"

definition compute_advisory_score :: "evidence_group list \<Rightarrow> rat" where
  "compute_advisory_score gs = max (score_for_group gs ''snippet-llm'') (score_for_group gs ''osv-pinned'')"

definition compute_ensemble_score :: "rat \<Rightarrow> rat \<Rightarrow> rat" where
  "compute_ensemble_score det adv = min (fl (fl (det * fl (85 / 100)) + fl (adv * fl (15 / 100)))) 100"

text \<open>
  Whether the publisher's manifest excuses a pattern; identifiers that are not listed are
  never excused.
\<close>

definition is_excused_by_manifest :: "string \<Rightarrow> package_manifest \<Rightarrow> bool" where
  "is_excused_by_manifest pat_id m =
     (if pat_id \<in> {''SA001'', ''SA003'', ''SA022'', ''SA023''} then False
      else if pat_id \<in> {''SA004'', ''SA030''} then spawns_processes m
      else if pat_id \<in> {''SA006'', ''SA025'', ''SA026''} then allowed_network_hosts m \<noteq> []
      else if pat_id \<in> {''SA007'', ''SA031''} then allowed_fs_writes m \<noteq> []
      else False)"

text \<open>The findings of the five scanners, grouped and scored.\<close>

record scanner_findings =
  deterministic_pattern_findings :: "finding list"
  snippet_llm_findings :: "finding list"
  osv_pinned_findings :: "finding list"
  rule_ml_findings :: "finding list"
  deep_scan_findings :: "finding list"

definition evidence_groups :: "scanner_findings \<Rightarrow> evidence_group list" where
  "evidence_groups s =
     List.map_filter id
       [build_evidence_group ''static-patterns'' ''Static pattern and manifest evidence'' DeterministicEvidence
          (deterministic_pattern_findings s),
        build_evidence_group ''snippet-llm'' ''Snippet-level semantic review'' AdvisoryEvidence (snippet_llm_findings s),
        build_evidence_group ''osv-pinned'' ''Pinned OSV vulnerability advisories'' AdvisoryEvidence (osv_pinned_findings s),
        build_evidence_group ''rule-ml'' ''Rule-based ML scoring'' DeterministicEvidence (rule_ml_findings s),
        build_evidence_group ''deep-scan'' ''Deep scan threat classification'' DeterministicEvidence (deep_scan_findings s)]"

definition static_result :: "risk_switches \<Rightarrow> scanner_findings \<Rightarrow> static_analysis_result" where
  "static_result sw s =
     (let gs = evidence_groups s;
          det = compute_deterministic_score (osv_block_critical sw) gs; adv = compute_advisory_score gs
      in \<lparr> sa_evidence_groups = gs, sa_findings = concat (map eg_findings gs),
           sa_deterministic_score = det, sa_advisory_score = adv, sa_ensemble_score = compute_ensemble_score det adv \<rparr>)"

section \<open>Reviews and signatures\<close>

datatype risk_tier = CleanTier | SuspiciousTier | LikelyMalicious | ConfirmedMalicious

fun tier_label :: "risk_tier \<Rightarrow> string" where
  "tier_label CleanTier = ''clean''"
| "tier_label SuspiciousTier = ''suspicious''"
| "tier_label LikelyMalicious = ''likely_malicious''"
| "tier_label ConfirmedMalicious = ''confirmed_malicious''"

definition tier_from_score :: "u8 \<Rightarrow> risk_tier" where
  "tier_from_score s =
     (if s \<le> 30 then CleanTier else if s \<le> 59 then SuspiciousTier else if s \<le> 79 then LikelyMalicious
      else ConfirmedMalicious)"

text \<open>The entropy of an alert is only printed, so the alert holds its text.\<close>

record entropy_alert =
  alert_path :: string
  alert_entropy :: string
  llm_analysed :: bool

record llm_review =
  maliciousness_score :: u8
  risk_tier_of :: risk_tier
  package_summary :: string
  review_findings :: "finding list"
  high_entropy_files :: "entropy_alert list"
  injection_patterns :: "string list"
  model_used :: string
  degraded :: bool
  degraded_reason :: "string option"

definition degraded_review :: "string \<Rightarrow> entropy_alert list \<Rightarrow> llm_review" where
  "degraded_review reason alerts =
     \<lparr> maliciousness_score = 0, risk_tier_of = CleanTier, package_summary = [], review_findings = [],
       high_entropy_files = alerts, injection_patterns = [], model_used = [], degraded = True,
       degraded_reason = Some reason \<rparr>"

record pgp_result =
  pgp_findings :: "finding list"
  fingerprint :: "string option"

text \<open>
  The OpenPGP crate: the error of parsing a key or a signature, the fingerprint of a key, and
  the error of checking a signature.
\<close>

record pgp_crate =
  key_error :: "string \<Rightarrow> string option"
  key_fingerprint :: "string \<Rightarrow> string"
  detached_error :: "string \<Rightarrow> string option"
  check_error :: "string \<Rightarrow> string \<Rightarrow> string \<Rightarrow> string option"

definition pgp_verify :: "'a crypto_scheme \<Rightarrow> pgp_crate \<Rightarrow> string \<Rightarrow> string \<Rightarrow> string \<Rightarrow> pgp_result" where
  "pgp_verify c g tarball sig key =
     (case key_error g key of
        Some e \<Rightarrow>
          \<lparr> pgp_findings = [mk_finding ''PGP001'' ''Invalid PGP public key'' High
              (''Could not parse publisher PGP public key: '' @ e) ''pgp''], fingerprint = None \<rparr>
      | None \<Rightarrow>
          case detached_error g sig of
            Some e \<Rightarrow>
              \<lparr> pgp_findings = [mk_finding ''PGP002'' ''Invalid PGP signature format'' High
                  (''Could not parse PGP detached signature: '' @ e) ''pgp''], fingerprint = None \<rparr>
          | None \<Rightarrow>
              let fp = hex_encode c (key_fingerprint g key) in
              case check_error g sig key tarball of
                None \<Rightarrow> \<lparr> pgp_findings = [], fingerprint = Some fp \<rparr>
              | Some e \<Rightarrow>
                  \<lparr> pgp_findings = [mk_finding ''PGP003'' ''PGP signature verification failed'' Critical
                      (''Tarball signature does not match public key (fp '' @ fp @ ''): '' @ e) ''pgp''],
                    fingerprint = Some fp \<rparr>)"

record audit_proof =
  ap_signature :: string
  ap_auditor_pubkey :: string
  ap_verdict :: string

definition aaa_message :: "string \<Rightarrow> string \<Rightarrow> string \<Rightarrow> string" where
  "aaa_message can chash verdict = join_with ''|'' [''creg-aaa-v1'', can, chash, verdict]"

datatype aaa_error =
    AuditorKeyNotSet | EmptyProofSignature | EmptyAuditorKey | AuditorKeyMismatch | AuditorKeyNotHex
  | AuditorKeyInvalid | ProofSignatureNotHex | ProofSignatureInvalid | ProofVerificationFailed

definition verify_aaa_proof ::
    "'a crypto_scheme \<Rightarrow> string option \<Rightarrow> audit_proof \<Rightarrow> string \<Rightarrow> string \<Rightarrow> aaa_error + unit" where
  "verify_aaa_proof c pinned pr can chash =
     (case pinned of
        None \<Rightarrow> Inl AuditorKeyNotSet
      | Some pinned_pubkey \<Rightarrow>
          if ap_signature pr = [] then Inl EmptyProofSignature
          else if ap_auditor_pubkey pr = [] then Inl EmptyAuditorKey
          else if to_ascii_lowercase (ap_auditor_pubkey pr) \<noteq> to_ascii_lowercase (trim pinned_pubkey)
          then Inl AuditorKeyMismatch
          else case hex_decode c (trim (ap_auditor_pubkey pr)) of
                 None \<Rightarrow> Inl AuditorKeyNotHex
               | Some pk \<Rightarrow>
                   if \<not> vk_try_from c pk then Inl AuditorKeyInvalid
                   else case hex_decode c (ap_signature pr) of
                          None \<Rightarrow> Inl ProofSignatureNotHex
                        | Some sg \<Rightarrow>
                            if \<not> sig_try_from c sg then Inl ProofSignatureInvalid
                            else if ed_verify c pk (aaa_message can chash (ap_verdict pr)) sg then Inr ()
                            else Inl ProofVerificationFailed)"

section \<open>The report\<close>

record validation_report =
  rp_package :: package_id
  rp_findings :: "finding list"
  rp_aaa_verdict :: "audit_proof option"
  rp_bundles :: analysis_bundle_set
  rp_groups :: "evidence_group list"
  rp_deterministic_score :: rat
  rp_advisory_score :: rat
  rp_ensemble_score :: rat
  rp_llm_review :: "llm_review option"
  rp_deterministic_risk :: "risk_summary option"

definition report_new :: "analysis_bundle_set \<Rightarrow> package_id \<Rightarrow> validation_report" where
  "report_new bundles p =
     \<lparr> rp_package = p, rp_findings = [], rp_aaa_verdict = None, rp_bundles = bundles, rp_groups = [],
       rp_deterministic_score = 0, rp_advisory_score = 0, rp_ensemble_score = 0, rp_llm_review = None,
       rp_deterministic_risk = None \<rparr>"

definition apply_static :: "static_analysis_result \<Rightarrow> validation_report \<Rightarrow> validation_report" where
  "apply_static r rp =
     rp\<lparr> rp_groups := sa_evidence_groups r, rp_deterministic_score := sa_deterministic_score r,
         rp_advisory_score := sa_advisory_score r, rp_ensemble_score := sa_ensemble_score r,
         rp_findings := rp_findings rp @ sa_findings r \<rparr>"

definition max_deterministic_finding_score :: "finding list \<Rightarrow> rat" where
  "max_deterministic_finding_score fs =
     max_score (map (\<lambda>f. severity_score (severity f))
       (filter (\<lambda>f. \<not> starts_with (finding_id f) ''LLM'' \<and> finding_id f \<notin> {''SA011'', ''SA012''}) fs))"

text \<open>The sandbox, the diff and the OpenPGP stage enter the report the same way.\<close>

definition apply_findings :: "finding list \<Rightarrow> validation_report \<Rightarrow> validation_report" where
  "apply_findings fs rp =
     (let det = max (rp_deterministic_score rp) (max_deterministic_finding_score fs) in
      rp\<lparr> rp_deterministic_score := det, rp_ensemble_score := max (rp_ensemble_score rp) det,
          rp_findings := rp_findings rp @ fs \<rparr>)"

definition apply_sandbox :: "sandbox_result \<Rightarrow> validation_report \<Rightarrow> validation_report" where
  "apply_sandbox r rp = apply_findings (sandbox_findings r) rp"

definition apply_diff :: "diff_result \<Rightarrow> validation_report \<Rightarrow> validation_report" where
  "apply_diff r rp = apply_findings (diff_findings r) rp"

definition apply_pgp :: "pgp_result \<Rightarrow> validation_report \<Rightarrow> validation_report" where
  "apply_pgp r rp = apply_findings (pgp_findings r) rp"

definition llm_summary_finding :: "llm_review \<Rightarrow> finding list" where
  "llm_summary_finding rv =
     (if 60 \<le> maliciousness_score rv \<or> risk_tier_of rv = LikelyMalicious \<or> risk_tier_of rv = ConfirmedMalicious
      then [mk_finding ''LLM000''
              (''LLM Assessment: '' @ tier_label (risk_tier_of rv) @ '' (score ''
                @ show_nat (unat (maliciousness_score rv)) @ '')'')
              (if 80 \<le> maliciousness_score rv then Critical else High)
              (''Model '' @ [CHR 0x27] @ model_used rv @ [CHR 0x27] @ '' assessed this package as '' @ [CHR 0x27]
                @ tier_label (risk_tier_of rv) @ [CHR 0x27] @ '' with a maliciousness score of ''
                @ show_nat (unat (maliciousness_score rv)) @ ''.'' @ [CHR 0x0A, CHR 0x0A] @ ''Summary: '' @ package_summary rv
                @ [CHR 0x0A, CHR 0x0A] @ ''Injection patterns detected: ''
                @ (if injection_patterns rv = [] then ''none'' else join_with '', '' (injection_patterns rv)))
              ''llm-review'']
      else [])"

definition unverified_entropy_finding :: "entropy_alert \<Rightarrow> finding" where
  "unverified_entropy_finding al =
     mk_finding ''LLM-ENT'' ''High-entropy file not LLM-verified'' Medium
       (''File '' @ [CHR 0x27] @ alert_path al @ [CHR 0x27] @ '' has Shannon entropy '' @ alert_entropy al
         @ '' bits/byte (threshold: 7.0) and was not submitted for LLM analysis (file limit reached or binary). ''
         @ ''Manual inspection recommended.'') (alert_path al)"

definition skipped_entropy_finding :: "entropy_alert \<Rightarrow> finding" where
  "skipped_entropy_finding al =
     mk_finding ''LLM-ENT'' ''High-entropy file (LLM stage skipped)'' Medium
       (''File '' @ [CHR 0x27] @ alert_path al @ [CHR 0x27] @ '' has Shannon entropy '' @ alert_entropy al
         @ '' bits/byte '' @ em_dash @ '' possible obfuscated or encrypted payload. ''
         @ ''LLM stage was not available to verify intent.'') (alert_path al)"

definition llm_skip_finding :: "llm_review \<Rightarrow> finding" where
  "llm_skip_finding rv =
     mk_finding ''LLM-SKIP'' ''LLM Stage 4 skipped'' Low
       (''The LLM-assisted review stage (Stage 4) was not executed: ''
         @ (case degraded_reason rv of None \<Rightarrow> ''unknown'' | Some r \<Rightarrow> r)
         @ ''. Static analysis, sandbox, and ML stages still ran. Enable CREG_LLM_ENABLED=true and configure a provider key ''
         @ ''to activate deep semantic analysis.'') ''llm-review''"

definition llm_findings :: "llm_review \<Rightarrow> finding list" where
  "llm_findings rv =
     (if \<not> degraded rv
      then llm_summary_finding rv @ review_findings rv
           @ map unverified_entropy_finding (filter (\<lambda>al. \<not> llm_analysed al) (high_entropy_files rv))
      else llm_skip_finding rv # map skipped_entropy_finding (high_entropy_files rv))"

definition apply_llm :: "llm_review \<Rightarrow> validation_report \<Rightarrow> validation_report" where
  "apply_llm rv rp =
     (let rp1 = (if \<not> degraded rv
                 then let adv = max (rp_advisory_score rp) (of_nat (unat (maliciousness_score rv))) in
                      rp\<lparr> rp_advisory_score := adv,
                          rp_ensemble_score := fl (fl (rp_deterministic_score rp * fl (6 / 10)) + fl (adv * fl (4 / 10))) \<rparr>
                 else rp)
      in rp1\<lparr> rp_findings := rp_findings rp @ llm_findings rv, rp_llm_review := Some rv \<rparr>)"

definition is_severe :: "finding \<Rightarrow> bool" where
  "is_severe f = (severity f = Critical \<or> severity f = High)"

definition has_critical_findings :: "validation_report \<Rightarrow> bool" where
  "has_critical_findings rp = list_ex is_severe (rp_findings rp)"

definition critical_finding_summary :: "validation_report \<Rightarrow> string" where
  "critical_finding_summary rp =
     join_with ''; '' (map (\<lambda>f. ''['' @ finding_id f @ ''] '' @ finding_description f) (filter is_severe (rp_findings rp)))"

section \<open>The pipeline\<close>

record validation_result =
  vr_vote :: validator_vote
  vr_pgp_fingerprint :: "string option"
  vr_findings :: "finding list"
  vr_analysis_bundles :: analysis_bundle_set
  vr_deterministic_risk :: risk_summary

record validator_config =
  switches :: risk_switches
  aggregator :: risk_aggregator
  bundles_now :: analysis_bundle_set
  aaa_enabled :: bool
  aaa_pubkey :: "string option"

text \<open>
  What the stages answer: the two that may fail before the report, the sandbox, the language
  model on the findings so far, the OpenPGP crate, and the external auditor on the report.
\<close>

record stages =
  stage_static :: "string + static_analysis_result"
  stage_reputation :: "string + reputation_assessment"
  stage_sandbox :: "string + sandbox_result"
  stage_llm :: "finding list \<Rightarrow> llm_review"
  stage_pgp :: pgp_crate
  stage_aaa :: "validation_report \<Rightarrow> string + audit_proof"

definition scan_report ::
    "validator_config \<Rightarrow> stages \<Rightarrow> publish_request \<Rightarrow> package_manifest option \<Rightarrow> sandbox_result option
     \<Rightarrow> static_analysis_result \<Rightarrow> sandbox_result \<Rightarrow> validation_report" where
  "scan_report cfg st req prev_manifest prev_sandbox sa sb =
     (let rp = apply_static sa (report_new (bundles_now cfg) (req_id req));
          rp = apply_sandbox sb rp;
          rp = apply_diff (diff_analyze (req_manifest req) sb prev_manifest prev_sandbox) rp
      in apply_llm (stage_llm st (rp_findings rp)) rp)"

definition pgp_stage ::
    "'a crypto_scheme \<Rightarrow> stages \<Rightarrow> publish_request \<Rightarrow> string \<Rightarrow> validation_report \<Rightarrow> string option \<times> validation_report" where
  "pgp_stage c st req tarball rp =
     (case (pgp_signature req, pgp_public_key req) of
        (Some sig_hex, Some key_hex) \<Rightarrow>
          (case (hex_decode c sig_hex, hex_decode c key_hex) of
             (Some sg, Some key) \<Rightarrow>
               let r = pgp_verify c (stage_pgp st) tarball sg key in (fingerprint r, apply_pgp r rp)
           | _ \<Rightarrow> (None, rp))
      | _ \<Rightarrow> (None, rp))"

definition reputation_of :: "stages \<Rightarrow> publish_request \<Rightarrow> reputation_assessment" where
  "reputation_of st req =
     (case stage_reputation st of
        Inr r \<Rightarrow> r
      | Inl _ \<Rightarrow> \<lparr> confidence_delta = 0, assessed_pubkey = req_publisher_pubkey req,
                  rep_notes = [''Reputation check unreachable '' @ em_dash @ '' neutral''], revoked_pgp_fps = [] \<rparr>)"

definition revoked_key_finding :: "string \<Rightarrow> finding" where
  "revoked_key_finding fp =
     mk_finding ''PGP004'' ''Revoked PGP key used for signing'' Critical
       (''Package was signed with PGP key '' @ fp @ '' which the publisher has declared revoked. ''
         @ ''This key may have been compromised. Reject until re-signed with a valid key.'') ''pgp''"

definition revocation_check :: "reputation_assessment \<Rightarrow> string option \<Rightarrow> finding list" where
  "revocation_check rep fp =
     (case fp of
        None \<Rightarrow> []
      | Some f \<Rightarrow>
          if list_ex (\<lambda>r. to_ascii_lowercase r = to_ascii_lowercase f) (revoked_pgp_fps rep)
          then [revoked_key_finding f] else [])"

text \<open>The auditor may overturn a rejection, with a proof that verifies and says so.\<close>

definition audit ::
    "'a crypto_scheme \<Rightarrow> validator_config \<Rightarrow> stages \<Rightarrow> publish_request \<Rightarrow> validation_report \<Rightarrow> final_decision
     \<Rightarrow> validation_report \<times> final_decision" where
  "audit c cfg st req rp d =
     (if is_reject d \<and> aaa_enabled cfg
      then case stage_aaa st rp of
             Inl _ \<Rightarrow> (rp, d)
           | Inr pr \<Rightarrow>
               if verify_aaa_proof c (aaa_pubkey cfg) pr (canonical (req_id req)) (req_content_hash req) = Inr ()
                  \<and> ap_verdict pr = ''cleared''
               then (rp\<lparr> rp_aaa_verdict := Some pr \<rparr>, FinalApprove 85)
               else (rp, d)
      else (rp, d))"

definition final_vote :: "validation_report \<Rightarrow> final_decision \<Rightarrow> validator_vote" where
  "final_vote rp d =
     (if is_reject d
      then let base = (case decision_reject_reason d of None \<Rightarrow> ''Validation failed'' | Some r \<Rightarrow> r) in
           Reject (if has_critical_findings rp then base @ ''; '' @ critical_finding_summary rp else base)
      else Approve)"

definition pipeline_report ::
    "'a crypto_scheme \<Rightarrow> validator_config \<Rightarrow> stages \<Rightarrow> publish_request \<Rightarrow> string \<Rightarrow> package_manifest option
     \<Rightarrow> sandbox_result option \<Rightarrow> static_analysis_result \<Rightarrow> sandbox_result \<Rightarrow> string option \<times> validation_report" where
  "pipeline_report c cfg st req tarball prev_manifest prev_sandbox sa sb =
     (case pgp_stage c st req tarball (scan_report cfg st req prev_manifest prev_sandbox sa sb) of
        (fp, rp) \<Rightarrow> (fp, rp\<lparr> rp_findings := rp_findings rp @ revocation_check (reputation_of st req) fp \<rparr>))"

definition pipeline_risk ::
    "'a crypto_scheme \<Rightarrow> validator_config \<Rightarrow> publish_request \<Rightarrow> validation_report \<Rightarrow> reputation_assessment \<Rightarrow> risk_summary" where
  "pipeline_risk c cfg req rp rep =
     summarize c (switches cfg) (aggregator cfg) (req_id req) (rp_findings rp) (rp_deterministic_score rp)
       (rp_advisory_score rp) (rp_ensemble_score rp)
       (case rp_llm_review rp of None \<Rightarrow> False | Some rv \<Rightarrow> \<not> degraded rv) (rp_bundles rp) rep"

definition run_validation ::
    "'a crypto_scheme \<Rightarrow> validator_config \<Rightarrow> stages \<Rightarrow> publish_request \<Rightarrow> string \<Rightarrow> package_manifest option
     \<Rightarrow> sandbox_result option \<Rightarrow> string + validation_result" where
  "run_validation c cfg st req tarball prev_manifest prev_sandbox =
     and_then (stage_static st) (\<lambda>sa.
     and_then (stage_sandbox st) (\<lambda>sb.
       case pipeline_report c cfg st req tarball prev_manifest prev_sandbox sa sb of
         (fp, rp) \<Rightarrow>
           let risk = pipeline_risk c cfg req rp (reputation_of st req);
               rp = rp\<lparr> rp_deterministic_risk := Some risk \<rparr>
           in case audit c cfg st req rp (decide risk) of
                (rp, d) \<Rightarrow>
                  Inr \<lparr> vr_vote = final_vote rp d, vr_pgp_fingerprint = fp, vr_findings = rp_findings rp,
                        vr_analysis_bundles = rp_bundles rp, vr_deterministic_risk = risk \<rparr>))"

section \<open>The advisory stages do not decide\<close>

abbreviation det_part :: "validator_config \<Rightarrow> finding list \<Rightarrow> finding list" where
  "det_part cfg fs \<equiv> filter (\<lambda>f. is_deterministic_finding (switches cfg) (finding_id f)) fs"

text \<open>The findings of the language model carry identifiers that start with LLM.\<close>

definition llm_ids :: "llm_review \<Rightarrow> bool" where
  "llm_ids rv = list_all (\<lambda>f. starts_with (finding_id f) ''LLM'') (review_findings rv)"

lemma starts_with_Cons: "starts_with (x # xs) (p # ps) \<longleftrightarrow> p = x \<and> starts_with xs ps"
  by (simp add: starts_with_def)

lemma starts_with_Nil [simp]: "starts_with xs []"
  by (simp add: starts_with_def)

lemma llm_not_deterministic: "starts_with i ''LLM'' \<Longrightarrow> \<not> is_deterministic_finding sw i"
  by (cases i) (auto simp: is_deterministic_finding_def starts_with_Cons)

lemma llm_findings_advisory:
  assumes "llm_ids rv"
  shows "det_part cfg (llm_findings rv) = []"
proof -
  have "starts_with (finding_id f) ''LLM''" if "f \<in> set (llm_findings rv)" for f
    using that assms
    by (auto simp: llm_findings_def llm_summary_finding_def llm_skip_finding_def unverified_entropy_finding_def
        skipped_entropy_finding_def mk_finding_def llm_ids_def list_all_iff starts_with_Cons split: if_splits)
  then show ?thesis using llm_not_deterministic by (simp add: filter_empty_conv)
qed

text \<open>Reports that agree on what the risk summary reads of the deterministic stages.\<close>

definition same_evidence :: "validator_config \<Rightarrow> validation_report \<Rightarrow> validation_report \<Rightarrow> bool" where
  "same_evidence cfg rp rp' \<longleftrightarrow>
     det_part cfg (rp_findings rp) = det_part cfg (rp_findings rp') \<and>
     rp_deterministic_score rp = rp_deterministic_score rp' \<and> rp_bundles rp = rp_bundles rp'"

lemma same_evidence_findings: "same_evidence cfg rp rp' \<Longrightarrow> same_evidence cfg (apply_findings fs rp) (apply_findings fs rp')"
  by (simp add: same_evidence_def apply_findings_def Let_def)

lemma same_evidence_llm:
  assumes "same_evidence cfg rp rp'" and "llm_ids rv" and "llm_ids rv'"
  shows "same_evidence cfg (apply_llm rv rp) (apply_llm rv' rp')"
  using assms llm_findings_advisory [OF assms(2), of cfg] llm_findings_advisory [OF assms(3), of cfg]
  by (simp add: same_evidence_def apply_llm_def Let_def)

text \<open>Two sets of stages that agree on the deterministic ones.\<close>

definition same_static :: "validator_config \<Rightarrow> static_analysis_result \<Rightarrow> static_analysis_result \<Rightarrow> bool" where
  "same_static cfg sa sa' \<longleftrightarrow>
     det_part cfg (sa_findings sa) = det_part cfg (sa_findings sa') \<and>
     sa_deterministic_score sa = sa_deterministic_score sa'"

definition same_deterministic_stages :: "validator_config \<Rightarrow> stages \<Rightarrow> stages \<Rightarrow> bool" where
  "same_deterministic_stages cfg st st' \<longleftrightarrow>
     rel_sum (=) (same_static cfg) (stage_static st) (stage_static st') \<and>
     stage_reputation st = stage_reputation st' \<and> stage_sandbox st = stage_sandbox st' \<and>
     stage_pgp st = stage_pgp st' \<and>
     (\<forall>fs. llm_ids (stage_llm st fs) \<and> llm_ids (stage_llm st' fs))"

lemma same_evidence_scan:
  assumes "same_deterministic_stages cfg st st'" and "same_static cfg sa sa'"
  shows "same_evidence cfg (scan_report cfg st req pm ps sa sb) (scan_report cfg st' req pm ps sa' sb)"
proof -
  have "same_evidence cfg (apply_static sa (report_new (bundles_now cfg) (req_id req)))
      (apply_static sa' (report_new (bundles_now cfg) (req_id req)))"
    using assms(2) by (simp add: same_evidence_def same_static_def apply_static_def report_new_def)
  then show ?thesis
    using assms(1) unfolding scan_report_def Let_def apply_sandbox_def apply_diff_def same_deterministic_stages_def
    by (intro same_evidence_llm same_evidence_findings) auto
qed

lemma same_evidence_pipeline:
  assumes "same_deterministic_stages cfg st st'" and "same_static cfg sa sa'"
  shows "fst (pipeline_report c cfg st req t pm ps sa sb) = fst (pipeline_report c cfg st' req t pm ps sa' sb)"
    and "same_evidence cfg (snd (pipeline_report c cfg st req t pm ps sa sb)) (snd (pipeline_report c cfg st' req t pm ps sa' sb))"
proof -
  define rp where "rp = scan_report cfg st req pm ps sa sb"
  define rp' where "rp' = scan_report cfg st' req pm ps sa' sb"
  have scan: "same_evidence cfg rp rp'" unfolding rp_def rp'_def by (rule same_evidence_scan [OF assms])
  have pgp: "stage_pgp st = stage_pgp st'" and rep: "reputation_of st req = reputation_of st' req"
    using assms(1) by (auto simp: same_deterministic_stages_def reputation_of_def)
  have "fst (pgp_stage c st req t rp) = fst (pgp_stage c st' req t rp') \<and>
      same_evidence cfg (snd (pgp_stage c st req t rp)) (snd (pgp_stage c st' req t rp'))"
    using scan by (auto simp: pgp_stage_def pgp apply_pgp_def Let_def same_evidence_findings split: option.split)
  then show "fst (pipeline_report c cfg st req t pm ps sa sb) = fst (pipeline_report c cfg st' req t pm ps sa' sb)"
    and "same_evidence cfg (snd (pipeline_report c cfg st req t pm ps sa sb)) (snd (pipeline_report c cfg st' req t pm ps sa' sb))"
    by (auto simp: pipeline_report_def rp_def rp'_def rep same_evidence_def split: prod.split)
qed

lemma same_evidence_risk:
  assumes "same_evidence cfg rp rp'"
  shows "is_reject (decide (pipeline_risk c cfg req rp rep)) = is_reject (decide (pipeline_risk c cfg req rp' rep))"
    and "rs_evidence_digest (pipeline_risk c cfg req rp rep) = rs_evidence_digest (pipeline_risk c cfg req rp' rep)"
    and "rs_score (pipeline_risk c cfg req rp rep) = rs_score (pipeline_risk c cfg req rp' rep)"
proof -
  have same: "det_part cfg (rp_findings rp) = det_part cfg (rp_findings rp')"
    and score: "rp_deterministic_score rp = rp_deterministic_score rp'" and bundles: "rp_bundles rp = rp_bundles rp'"
    using assms by (simp_all add: same_evidence_def)
  show "is_reject (decide (pipeline_risk c cfg req rp rep)) = is_reject (decide (pipeline_risk c cfg req rp' rep))"
    unfolding pipeline_risk_def score bundles by (rule advisory_does_not_decide [OF same])
  show "rs_evidence_digest (pipeline_risk c cfg req rp rep) = rs_evidence_digest (pipeline_risk c cfg req rp' rep)"
    unfolding pipeline_risk_def score bundles by (rule advisory_does_not_decide [OF same])
  show "rs_score (pipeline_risk c cfg req rp rep) = rs_score (pipeline_risk c cfg req rp' rep)"
    unfolding pipeline_risk_def score bundles by (rule advisory_does_not_decide [OF same])
qed


text \<open>
  The static stage meets that condition: the snippet review of the language model and, while
  critical advisories do not block, the vulnerability database change neither the
  deterministic findings nor the deterministic score.
\<close>

lemma score_for_absent [simp]:
  "score_for_group (List.map_filter id []) i = 0"
  by (simp add: score_for_group_def map_filter_simps)

lemma score_for_step:
  "score_for_group (List.map_filter id (build_evidence_group j l d fs # gs)) i =
     (if i = j \<and> fs \<noteq> [] then group_score j fs else score_for_group (List.map_filter id gs) i)"
  by (simp add: score_for_group_def build_evidence_group_def map_filter_simps)

lemma group_findings_step:
  "concat (map eg_findings (List.map_filter id (build_evidence_group j l d fs # gs))) =
     fs @ concat (map eg_findings (List.map_filter id gs))"
  by (simp add: build_evidence_group_def map_filter_simps)

lemma static_result_same:
  assumes "\<forall>f \<in> set fs. finding_id f = ''SA011'' \<or> finding_id f = ''SA012''"
    and "\<forall>f \<in> set gs. starts_with (finding_id f) ''OSV''" and "\<not> osv_block_critical (switches cfg)"
  shows "same_static cfg (static_result (switches cfg) (s\<lparr> snippet_llm_findings := fs, osv_pinned_findings := gs \<rparr>))
    (static_result (switches cfg) (s\<lparr> snippet_llm_findings := [], osv_pinned_findings := [] \<rparr>))"
proof -
  have fs: "det_part cfg fs = []" and gs: "det_part cfg gs = []"
    using assms by (auto simp: filter_empty_conv is_deterministic_finding_def)
  define t t' where "t = s\<lparr> snippet_llm_findings := fs, osv_pinned_findings := gs \<rparr>"
    and "t' = s\<lparr> snippet_llm_findings := [], osv_pinned_findings := [] \<rparr>"
  have "score_for_group (evidence_groups t) i = score_for_group (evidence_groups t') i"
    if "i = ''static-patterns'' \<or> i = ''rule-ml'' \<or> i = ''deep-scan''" for i
    using that by (auto simp: t_def t'_def evidence_groups_def score_for_step simp del: List.map_filter_simps)
  then have "sa_deterministic_score (static_result (switches cfg) t) = sa_deterministic_score (static_result (switches cfg) t')"
    using assms(3) by (simp add: static_result_def Let_def compute_deterministic_score_def)
  moreover have "det_part cfg (sa_findings (static_result (switches cfg) t)) = det_part cfg (sa_findings (static_result (switches cfg) t'))"
    using fs gs
    by (simp add: t_def t'_def static_result_def Let_def evidence_groups_def group_findings_step del: List.map_filter_simps)
  ultimately show ?thesis by (simp add: same_static_def t_def t'_def)
qed

text \<open>A clean package, and two language models of which one calls it malicious.\<close>

definition demo_validation :: validator_config where
  "demo_validation =
     \<lparr> switches = \<lparr> testnet = False, production = True, osv_block_critical = False \<rparr>,
       aggregator = default_aggregator (\<lambda>_. None), bundles_now = current_bundles (\<lambda>_. None) ''osv-off'',
       aaa_enabled = False, aaa_pubkey = None \<rparr>"

definition demo_request :: publish_request where
  "demo_request =
     \<lparr> req_id = \<lparr> ecosystem = ''npm'', pkg_name = ''a'', version = ''1'' \<rparr>, req_content_hash = ''h'', req_ipfs_cid = ''q'',
       publisher_address = ''0x1'', req_publisher_pubkey = ''k'', req_signature = ''s'',
       req_manifest = \<lparr> allowed_network_hosts = [], allowed_fs_writes = [], spawns_processes = False,
         allowed_process_spawns = [], manifest_description = None \<rparr>,
       submitted_at = 0, req_shielded = False, req_key_bundle = None, pgp_signature = None, pgp_public_key = None,
       req_threshold = 0, req_publisher_pubkeys = [], req_signatures = [] \<rparr>"

definition demo_stages :: "finding list \<Rightarrow> llm_review \<Rightarrow> stages" where
  "demo_stages fs rv =
     \<lparr> stage_static = Inr (static_result (switches demo_validation)
         \<lparr> deterministic_pattern_findings = fs, snippet_llm_findings = [], osv_pinned_findings = [],
           rule_ml_findings = [], deep_scan_findings = [] \<rparr>),
       stage_reputation = Inl ''timeout'',
       stage_sandbox = Inr \<lparr> sandbox_findings = [], observed_network_hosts = [], observed_fs_writes = [],
         observed_process_spawns = [] \<rparr>,
       stage_llm = (\<lambda>_. rv),
       stage_pgp = \<lparr> key_error = (\<lambda>_. None), key_fingerprint = id, detached_error = (\<lambda>_. None), check_error = (\<lambda>_ _ _. None) \<rparr>,
       stage_aaa = (\<lambda>_. Inl ''off'') \<rparr>"

definition alarmed_review :: llm_review where
  "alarmed_review =
     (degraded_review [] [])\<lparr> maliciousness_score := 95, risk_tier_of := ConfirmedMalicious, degraded := False,
        review_findings := [mk_finding ''LLM001'' ''t'' Critical ''d'' ''f''] \<rparr>"

lemma demo_stages_same: "same_deterministic_stages demo_validation (demo_stages fs (degraded_review [] [])) (demo_stages fs alarmed_review)"
  by (simp add: same_deterministic_stages_def demo_stages_def same_static_def llm_ids_def degraded_review_def
      alarmed_review_def mk_finding_def starts_with_def)

lemma demo_stages_return: "\<exists>r. run_validation demo_env demo_validation (demo_stages fs rv) demo_request t None None = Inr r"
  by (simp add: run_validation_def and_then_def demo_stages_def split_beta Let_def)


section \<open>A rejection is overturned only by the auditor\<close>

lemma verified_proof:
  assumes "verify_aaa_proof c pinned pr can h = Inr ()"
  shows "\<exists>key pk sg. pinned = Some key \<and> to_ascii_lowercase (ap_auditor_pubkey pr) = to_ascii_lowercase (trim key) \<and>
    hex_decode c (trim (ap_auditor_pubkey pr)) = Some pk \<and> hex_decode c (ap_signature pr) = Some sg \<and>
    ed_verify c pk (aaa_message can h (ap_verdict pr)) sg"
  using assms by (auto simp: verify_aaa_proof_def split: option.splits if_splits)

lemma audit_overturns:
  assumes "audit c cfg st req rp d = (rp', d')" and "is_reject d" and "\<not> is_reject d'"
  shows "aaa_enabled cfg \<and> (\<exists>pr. stage_aaa st rp = Inr pr \<and> ap_verdict pr = ''cleared'' \<and>
    verify_aaa_proof c (aaa_pubkey cfg) pr (canonical (req_id req)) (req_content_hash req) = Inr ())"
  using assms by (auto simp: audit_def split: if_splits sum.splits)

lemma audit_findings: "audit c cfg st req rp d = (rp', d') \<Longrightarrow> rp_findings rp' = rp_findings rp"
  by (auto simp: audit_def split: if_splits sum.splits)

text \<open>
  C21. A package with a critical finding of a deterministic stage is approved only if the operator
  turned the external auditor on, pinned a key, and the auditor's signature under that key
  over this package, this content hash and the verdict ''cleared'' verifies.
\<close>

theorem critical_approved_only_by_auditor:
  assumes "run_validation c cfg st req t pm ps = Inr r" and "vr_vote r = Approve"
    and "f \<in> set (vr_findings r)" and "severity f = Critical" and "is_deterministic_finding (switches cfg) (finding_id f)"
  shows "aaa_enabled cfg \<and> (\<exists>key k pk sg. aaa_pubkey cfg = Some key \<and>
    to_ascii_lowercase k = to_ascii_lowercase (trim key) \<and> hex_decode c (trim k) = Some pk \<and>
    ed_verify c pk (aaa_message (canonical (req_id req)) (req_content_hash req) ''cleared'') sg)"
proof -
  from assms(1) obtain sa sb where "stage_static st = Inr sa" and "stage_sandbox st = Inr sb"
    by (auto simp: run_validation_def and_then_def split: sum.splits)
  define rp0 where "rp0 = snd (pipeline_report c cfg st req t pm ps sa sb)"
  define risk where "risk = pipeline_risk c cfg req rp0 (reputation_of st req)"
  define rp where "rp = rp0\<lparr> rp_deterministic_risk := Some risk \<rparr>"
  obtain rp' d' where a: "audit c cfg st req rp (decide risk) = (rp', d')" by fastforce
  have r: "vr_vote r = final_vote rp' d'" "vr_findings r = rp_findings rp'"
    using assms(1) a \<open>stage_static st = Inr sa\<close> \<open>stage_sandbox st = Inr sb\<close>
    by (auto simp: run_validation_def and_then_def split_beta Let_def rp_def risk_def rp0_def)
  have "f \<in> set (rp_findings rp0)" using assms(3) r(2) audit_findings [OF a] by (simp add: rp_def)
  then have "is_reject (decide risk)"
    unfolding risk_def pipeline_risk_def by (rule critical_finding_rejects [OF _ assms(4,5)])
  moreover have "\<not> is_reject d'" using assms(2) r(1) by (auto simp: final_vote_def Let_def split: if_splits)
  ultimately obtain pr where on: "aaa_enabled cfg" and "ap_verdict pr = ''cleared''"
    and "verify_aaa_proof c (aaa_pubkey cfg) pr (canonical (req_id req)) (req_content_hash req) = Inr ()"
    using audit_overturns [OF a] by blast
  with verified_proof [OF this(3)] show ?thesis by fastforce
qed

text \<open>A critical finding, and an auditor that clears it.\<close>

definition auditing_config :: validator_config where
  "auditing_config = demo_validation\<lparr> aaa_enabled := True, aaa_pubkey := Some ''k'' \<rparr>"

definition auditing_stages :: stages where
  "auditing_stages =
     (demo_stages [mk_finding ''SA001'' ''t'' Critical ''d'' ''f''] (degraded_review [] []))\<lparr>
       stage_aaa := (\<lambda>_. Inr \<lparr> ap_signature = ''k'' @ aaa_message ''npm:a@1'' ''h'' ''cleared'', ap_auditor_pubkey = ''k'',
         ap_verdict = ''cleared'' \<rparr>) \<rparr>"

lemma demo_canonical: "canonical (req_id demo_request) = ''npm:a@1''" "req_content_hash demo_request = ''h''"
  by (simp_all add: demo_request_def canonical_def)

lemma trim_k: "trim ''k'' = ''k''"
  by (simp add: trim_plain plain_char_def)

lemma auditing_verifies:
  "verify_aaa_proof demo_env (Some ''k'') \<lparr> ap_signature = ''k'' @ aaa_message ''npm:a@1'' ''h'' ''cleared'', ap_auditor_pubkey = ''k'',
     ap_verdict = ''cleared'' \<rparr> ''npm:a@1'' ''h'' = Inr ()"
  by (simp add: verify_aaa_proof_def trim_k)

lemma auditing_audit: "\<not> is_reject (snd (audit demo_env auditing_config auditing_stages demo_request rp d))"
  using auditing_verifies by (cases d) (simp_all add: audit_def auditing_config_def auditing_stages_def demo_canonical)

lemma auditing_run:
  "\<exists>r. run_validation demo_env auditing_config auditing_stages demo_request [] None None = Inr r \<and> vr_vote r = Approve \<and>
     mk_finding ''SA001'' ''t'' Critical ''d'' ''f'' \<in> set (vr_findings r)"
proof -
  define sa where "sa = static_result (switches demo_validation)
         \<lparr> deterministic_pattern_findings = [mk_finding ''SA001'' ''t'' Critical ''d'' ''f''], snippet_llm_findings = [],
           osv_pinned_findings = [], rule_ml_findings = [], deep_scan_findings = [] \<rparr>"
  define sb where "sb = \<lparr> sandbox_findings = [], observed_network_hosts = [], observed_fs_writes = [],
         observed_process_spawns = [] \<rparr>"
  have st: "stage_static auditing_stages = Inr sa" "stage_sandbox auditing_stages = Inr sb"
    by (simp_all add: auditing_stages_def demo_stages_def sa_def sb_def)
  define rp where "rp = snd (pipeline_report demo_env auditing_config auditing_stages demo_request [] None None sa sb)"
  define risk where "risk = pipeline_risk demo_env auditing_config demo_request rp (reputation_of auditing_stages demo_request)"
  obtain rp' d' where a: "audit demo_env auditing_config auditing_stages demo_request
      (rp\<lparr> rp_deterministic_risk := Some risk \<rparr>) (decide risk) = (rp', d')" by fastforce
  have "\<not> is_reject d'" using auditing_audit a by (metis snd_conv)
  then have "final_vote rp' d' = Approve" by (simp add: final_vote_def)
  moreover have "mk_finding ''SA001'' ''t'' Critical ''d'' ''f'' \<in> set (sa_findings sa)"
    by (simp add: sa_def static_result_def Let_def evidence_groups_def group_findings_step del: List.map_filter_simps)
  then have "mk_finding ''SA001'' ''t'' Critical ''d'' ''f'' \<in> set (rp_findings rp)"
    by (simp add: rp_def pipeline_report_def pgp_stage_def demo_request_def scan_report_def apply_static_def apply_llm_def
        apply_diff_def apply_sandbox_def apply_findings_def report_new_def Let_def)
  then have "mk_finding ''SA001'' ''t'' Critical ''d'' ''f'' \<in> set (rp_findings rp')"
    using audit_findings [OF a] by simp
  ultimately show ?thesis
    using a st by (simp add: run_validation_def and_then_def split_beta Let_def rp_def risk_def)
qed

theorem critical_approved_only_by_auditor_witness:
  "\<exists>r k pk sg. run_validation demo_env auditing_config auditing_stages demo_request [] None None = Inr r \<and>
     to_ascii_lowercase k = to_ascii_lowercase (trim ''k'') \<and>
     ed_verify demo_env pk (aaa_message ''npm:a@1'' ''h'' ''cleared'') sg"
proof -
  obtain r where r: "run_validation demo_env auditing_config auditing_stages demo_request [] None None = Inr r"
    and v: "vr_vote r = Approve" and f: "mk_finding ''SA001'' ''t'' Critical ''d'' ''f'' \<in> set (vr_findings r)"
    using auditing_run by blast
  have "is_deterministic_finding (switches auditing_config) ''SA001''"
    by (simp add: is_deterministic_finding_def starts_with_def)
  then show ?thesis
    using critical_approved_only_by_auditor [OF r v f] r
    by (auto simp: mk_finding_def demo_canonical auditing_config_def)
qed

end
