(* ===== verification/Admission.thy ===== *)
theory Admission
  imports Consensus_Run Validation
begin

text \<open>
  How a package enters the node: the pending pool of \<^verbatim>\<open>crates/node/src/pending_pool.rs\<close>, the scan in
  front of it (\<^verbatim>\<open>admission_scan.rs\<close>), the admission of publish requests
  (\<^verbatim>\<open>package_admission.rs\<close>), the queue of finalised transactions (\<^verbatim>\<open>finalized_tx.rs\<close>) and the
  forced-inclusion tracker of \<^verbatim>\<open>crates/consensus/src/forced_inclusion.rs\<close>.

  The pool keeps the file it persists to as a second map; whether a write succeeds is an
  argument. IPFS, the malware scanner, the staking contract and address parsing are arguments.

  The lemmas show that every entry of the pool stands under its own canonical name and stays
  so, that a restart restores what was persisted, exactly which requests are admitted, and
  that the tracker accuses a proposer if and only if it omits an overdue transaction.
\<close>

section \<open>Pending pool\<close>

record pending_entry =
  request :: publish_request
  received_at :: datetime
  attempt_count :: u32
  in_progress :: bool

record pending_pool =
  pool_entries :: "(string, pending_entry) hash_map"
  pool_path :: bool
  pool_file :: "(string, pending_entry) hash_map option"

definition pool_new :: pending_pool where
  "pool_new = \<lparr> pool_entries = [], pool_path = False, pool_file = None \<rparr>"

text \<open>Opening reads the file if it is there and parses; entries in progress become eligible again.\<close>

definition pool_open :: "(string, pending_entry) hash_map option \<Rightarrow> pending_pool" where
  "pool_open saved =
     \<lparr> pool_entries =
         (case saved of
            None \<Rightarrow> []
          | Some m \<Rightarrow> foldl (\<lambda>es (k, e). hm_insert k (e\<lparr> in_progress := False \<rparr>) es) [] m),
       pool_path = True, pool_file = saved \<rparr>"

definition persist :: "bool \<Rightarrow> pending_pool \<Rightarrow> pending_pool" where
  "persist written p = (if pool_path p \<and> written then p\<lparr> pool_file := Some (pool_entries p) \<rparr> else p)"

definition pool_insert :: "datetime \<Rightarrow> bool \<Rightarrow> publish_request \<Rightarrow> pending_pool \<Rightarrow> bool \<times> pending_pool" where
  "pool_insert now written req p =
     (let key = canonical (req_id req);
          p' = persist written (p\<lparr> pool_entries := hm_insert key
                 \<lparr> request = req, received_at = now, attempt_count = 0, in_progress = False \<rparr> (pool_entries p) \<rparr>)
      in case hm_get (pool_entries p) key of
           Some existing \<Rightarrow>
             if req_content_hash (request existing) = req_content_hash req then (False, p) else (True, p')
         | None \<Rightarrow> (True, p'))"

definition pool_contains :: "pending_pool \<Rightarrow> string \<Rightarrow> bool" where
  "pool_contains p can = (hm_get (pool_entries p) can \<noteq> None)"

definition pool_get :: "pending_pool \<Rightarrow> string \<Rightarrow> pending_entry option" where
  "pool_get p can = hm_get (pool_entries p) can"

definition pool_remove :: "bool \<Rightarrow> string \<Rightarrow> pending_pool \<Rightarrow> pending_entry option \<times> pending_pool" where
  "pool_remove written can p =
     (case hm_get (pool_entries p) can of
        None \<Rightarrow> (None, p)
      | Some e \<Rightarrow> (Some e, persist written (p\<lparr> pool_entries := hm_remove can (pool_entries p) \<rparr>)))"

definition pool_eligible :: "datetime \<Rightarrow> pending_entry \<Rightarrow> bool" where
  "pool_eligible now e = (\<not> in_progress e \<or> received_at e < now - 5 * 60 * 1000000000)"

definition pick_up :: "datetime \<Rightarrow> pending_entry \<Rightarrow> pending_entry" where
  "pick_up now e =
     (if pool_eligible now e then e\<lparr> in_progress := True, attempt_count := attempt_count e + 1 \<rparr> else e)"

definition ready_for_validation :: "datetime \<Rightarrow> bool \<Rightarrow> pending_pool \<Rightarrow> publish_request list \<times> pending_pool" where
  "ready_for_validation now written p =
     (let requests = map request (filter (pool_eligible now) (hm_values (pool_entries p)));
          p' = p\<lparr> pool_entries := map (\<lambda>(k, e). (k, pick_up now e)) (pool_entries p) \<rparr>
      in (requests, if requests = [] then p' else persist written p'))"

definition pool_len :: "pending_pool \<Rightarrow> nat" where
  "pool_len p = length (pool_entries p)"

definition all_canonicals :: "pending_pool \<Rightarrow> string list" where
  "all_canonicals p = hm_keys (pool_entries p)"

section \<open>The scan before the pool\<close>

datatype ipfs_response = FetchFailed string | HttpError string | IpfsPayload "nat option" string

datatype admission_scan_error =
    RulesUnavailable
  | IpfsFetch string string
  | PayloadTooLarge string nat nat
  | ContentHashMismatch string string string
  | ExtractionFailed string string
  | ScanRejected string string

definition default_max_scan_bytes :: nat where
  "default_max_scan_bytes = 64 * 1024 * 1024"

definition max_scan_bytes :: "nat option \<Rightarrow> nat" where
  "max_scan_bytes var = (case var of None \<Rightarrow> default_max_scan_bytes | Some n \<Rightarrow> n)"

definition fetch_ipfs_payload :: "nat \<Rightarrow> (string \<Rightarrow> ipfs_response) \<Rightarrow> string \<Rightarrow> admission_scan_error + string" where
  "fetch_ipfs_payload limit ipfs cid =
     (case ipfs cid of
        FetchFailed e \<Rightarrow> Inl (IpfsFetch cid e)
      | HttpError e \<Rightarrow> Inl (IpfsFetch cid e)
      | IpfsPayload declared payload \<Rightarrow>
          (case declared of
             Some n \<Rightarrow>
               if limit < n then Inl (PayloadTooLarge cid n limit)
               else if limit < length payload then Inl (PayloadTooLarge cid (length payload) limit)
               else Inr payload
           | None \<Rightarrow>
               if limit < length payload then Inl (PayloadTooLarge cid (length payload) limit) else Inr payload))"

record yara_match =
  rule_name :: string
  threat_level :: u8
  category :: string
  matched_file :: string

text \<open>What the scan depends on: the rules, the limit, IPFS and the scanner.\<close>

record scan_env =
  rules_available :: bool
  scan_limit :: nat
  ipfs_cat :: "string \<Rightarrow> ipfs_response"
  scan_tarball :: "string \<Rightarrow> string \<Rightarrow> string + yara_match list"

definition match_summary :: "yara_match \<Rightarrow> string" where
  "match_summary m = join_with '':'' [rule_name m, show_nat (unat (threat_level m)), category m, matched_file m]"

definition run_pre_mempool_yara_gate ::
    "'a crypto_scheme \<Rightarrow> scan_env \<Rightarrow> publish_request \<Rightarrow> admission_scan_error + unit" where
  "run_pre_mempool_yara_gate c sc req =
     (if req_shielded req then Inr ()
      else if \<not> rules_available sc then Inl RulesUnavailable
      else
        let can = canonical (req_id req) in
        and_then (fetch_ipfs_payload (scan_limit sc) (ipfs_cat sc) (req_ipfs_cid req)) (\<lambda>payload.
          if sha256_hex c payload \<noteq> req_content_hash req
          then Inl (ContentHashMismatch can (req_content_hash req) (sha256_hex c payload))
          else case scan_tarball sc payload (ecosystem (req_id req)) of
                 Inl e \<Rightarrow> Inl (ExtractionFailed can e)
               | Inr ms \<Rightarrow>
                   let blocking = filter (\<lambda>m. 4 \<le> threat_level m) ms in
                   if blocking \<noteq> [] then Inl (ScanRejected can (join_with '', '' (map match_summary (take 5 blocking))))
                   else Inr ()))"

section \<open>Admission of publish requests\<close>

datatype publisher_admission_error = InvalidAddress | Unstaked string | Unavailable string

datatype publish_sig_error =
    AddressRequired | PubkeyNotHex | SignatureNotHex | InvalidPublicKey | InvalidSignature | SignatureMismatch
  | CountMismatch nat nat | MultiSigFailed nat nat nat

datatype admission_error =
    InvalidPackageId
  | InvalidPublisherSignature publish_sig_error
  | PublisherRefused publisher_admission_error
  | ScannerRefused admission_scan_error
  | AlreadyVerified string
  | AlreadyRevoked string
  | AlreadyPending string
  | ShieldedPublishDisabled

record admission_options =
  verify_publisher_auth :: bool

record admission_receipt =
  receipt_canonical :: string
  pending_count :: nat

definition validate_package_id :: "publish_request \<Rightarrow> admission_error + unit" where
  "validate_package_id req =
     (if trim (ecosystem (req_id req)) = [] \<or> trim (pkg_name (req_id req)) = [] \<or> trim (version (req_id req)) = []
      then Inl InvalidPackageId else Inr ())"

definition key_signed :: "'a crypto_scheme \<Rightarrow> string \<Rightarrow> string \<times> string \<Rightarrow> bool" where
  "key_signed c msg ks =
     (case (hex_decode c (fst ks), hex_decode c (snd ks)) of
        (Some pk, Some sg) \<Rightarrow> vk_try_from c pk \<and> sig_try_from c sg \<and> ed_verify c pk msg sg
      | _ \<Rightarrow> False)"

definition verify_single_sig :: "'a crypto_scheme \<Rightarrow> string \<Rightarrow> publish_request \<Rightarrow> publish_sig_error + unit" where
  "verify_single_sig c msg req =
     (case hex_decode c (req_publisher_pubkey req) of
        None \<Rightarrow> Inl PubkeyNotHex
      | Some pk \<Rightarrow>
          case hex_decode c (req_signature req) of
            None \<Rightarrow> Inl SignatureNotHex
          | Some sg \<Rightarrow>
              if \<not> vk_try_from c pk then Inl InvalidPublicKey
              else if \<not> sig_try_from c sg then Inl InvalidSignature
              else if ed_verify c pk msg sg then Inr () else Inl SignatureMismatch)"

definition verify_publish_sig :: "'a crypto_scheme \<Rightarrow> publish_request \<Rightarrow> publish_sig_error + unit" where
  "verify_publish_sig c req =
     (if trim (publisher_address req) = [] then Inl AddressRequired
      else
        let msg = publish_signature_message (req_id req) (req_content_hash req) (publisher_address req) in
        if req_publisher_pubkeys req = [] then verify_single_sig c msg req
        else
          let needed = (if req_threshold req = 0 then 2 else req_threshold req) in
          if length (req_signatures req) \<noteq> length (req_publisher_pubkeys req)
          then Inl (CountMismatch (length (req_signatures req)) (length (req_publisher_pubkeys req)))
          else
            let valid = length (filter (key_signed c msg) (zip (req_publisher_pubkeys req) (req_signatures req))) in
            if needed \<le> valid then Inr () else Inl (MultiSigFailed valid (length (req_publisher_pubkeys req)) needed))"

text \<open>
  The configuration and the services the stake check needs: the parser of addresses, whether a
  URL parses, and the staking contract's balance.
\<close>

record staking_env =
  eth_rpc_url :: string
  staking_addr :: string
  parse_address :: "string \<Rightarrow> string option"
  rpc_url_ok :: "string \<Rightarrow> bool"
  staked_balance :: "string \<Rightarrow> string \<Rightarrow> string + nat"

definition parse_publisher_address :: "staking_env \<Rightarrow> string \<Rightarrow> publisher_admission_error + string" where
  "parse_publisher_address se a =
     (let normalized = canonical_publisher_address a in
      if normalized = [] then Inl InvalidAddress
      else case parse_address se normalized of None \<Rightarrow> Inl InvalidAddress | Some x \<Rightarrow> Inr x)"

definition zero_address :: string where
  "zero_address = ''0x'' @ replicate 40 (CHR ''0'')"

definition ensure_publisher_staked :: "staking_env \<Rightarrow> string \<Rightarrow> publisher_admission_error + unit" where
  "ensure_publisher_staked se a =
     and_then (parse_publisher_address se a) (\<lambda>publisher.
       if trim (eth_rpc_url se) = [] then Inl (Unavailable ''CREG_ETH_RPC is not configured'')
       else if trim (staking_addr se) = [] \<or> to_ascii_lowercase (staking_addr se) = zero_address
       then Inl (Unavailable ''CREG_STAKING_ADDR is not configured'')
       else case parse_address se (staking_addr se) of
              None \<Rightarrow> Inl (Unavailable ''CREG_STAKING_ADDR is invalid'')
            | Some contract \<Rightarrow>
                if \<not> rpc_url_ok se (eth_rpc_url se) then Inl (Unavailable ''CREG_ETH_RPC is invalid'')
                else case staked_balance se contract publisher of
                       Inl e \<Rightarrow> Inl (Unavailable e)
                     | Inr staked \<Rightarrow>
                         if staked = 0 then Inl (Unstaked (canonical_publisher_address a)) else Inr ())"

definition verify_publish_auth :: "'a crypto_scheme \<Rightarrow> staking_env \<Rightarrow> publish_request \<Rightarrow> admission_error + unit" where
  "verify_publish_auth c se req =
     and_then (validate_package_id req) (\<lambda>_.
       case verify_publish_sig c req of
         Inl e \<Rightarrow> Inl (InvalidPublisherSignature e)
       | Inr _ \<Rightarrow>
           case ensure_publisher_staked se (publisher_address req) of
             Inl e \<Rightarrow> Inl (PublisherRefused e)
           | Inr _ \<Rightarrow> Inr ())"

definition check_not_known :: "chain_store \<Rightarrow> pending_pool \<Rightarrow> publish_request \<Rightarrow> admission_error + unit" where
  "check_not_known chain p req =
     (let can = canonical (req_id req);
          pending = (case pool_get p can of
                       Some existing \<Rightarrow>
                         if req_content_hash (request existing) = req_content_hash req then Inl (AlreadyPending can) else Inr ()
                     | None \<Rightarrow> Inr ())
      in case get_package chain can of
           None \<Rightarrow> pending
         | Some r \<Rightarrow>
             (case status r of
                Verified \<Rightarrow> Inl (AlreadyVerified can)
              | Revoked _ \<Rightarrow> Inl (AlreadyRevoked can)
              | Pending \<Rightarrow> pending))"

text \<open>
  The checks read the chain and the pool; the scan that follows takes time, so the pool the
  request is inserted into is a second argument.
\<close>

definition admit_publish_request ::
    "'a crypto_scheme \<Rightarrow> scan_env \<Rightarrow> staking_env \<Rightarrow> bool \<Rightarrow> admission_options \<Rightarrow> datetime \<Rightarrow> bool
     \<Rightarrow> publish_request \<Rightarrow> chain_store \<Rightarrow> pending_pool \<Rightarrow> pending_pool
     \<Rightarrow> (admission_error + admission_receipt) \<times> pending_pool" where
  "admit_publish_request c sc se shielded_enabled opts now written req chain seen p =
     (case and_then (validate_package_id req) (\<lambda>_.
             if req_shielded req \<and> \<not> shielded_enabled then Inl ShieldedPublishDisabled
             else and_then (if verify_publisher_auth opts then verify_publish_auth c se req else Inr ()) (\<lambda>_.
               and_then (check_not_known chain seen req) (\<lambda>_.
                 case run_pre_mempool_yara_gate c sc req of
                   Inl e \<Rightarrow> Inl (ScannerRefused e)
                 | Inr _ \<Rightarrow> Inr ()))) of
        Inl e \<Rightarrow> (Inl e, p)
      | Inr _ \<Rightarrow>
          case pool_insert now written req p of
            (False, p') \<Rightarrow> (Inl (AlreadyPending (canonical (req_id req))), p')
          | (True, p') \<Rightarrow> (Inr \<lparr> receipt_canonical = canonical (req_id req), pending_count = pool_len p' \<rparr>, p'))"

section \<open>Finalised transactions\<close>

text \<open>
  The bounded channel between the pipeline and the producer: a sender waits while it is full,
  and the producer drains what is there.
\<close>

definition channel_capacity :: nat where
  "channel_capacity = 512"

definition channel_send :: "transaction \<Rightarrow> transaction list \<Rightarrow> transaction list option" where
  "channel_send tx q = (if length q < channel_capacity then Some (q @ [tx]) else None)"

definition drain :: "transaction list \<Rightarrow> transaction list \<times> transaction list" where
  "drain q = (q, [])"

section \<open>Forced inclusion\<close>

record pending_transaction =
  pt_hash :: string
  submitted_at_height :: u64

type_synonym inclusion_tracker = "(string, pending_transaction) hash_map"

record censorship_evidence =
  censor_id :: string
  censor_height :: u64
  omitted_tx_hashes :: "string list"

definition forced_inclusion_block_delay :: "u64 option \<Rightarrow> u64" where
  "forced_inclusion_block_delay var = (case var of None \<Rightarrow> 5 | Some n \<Rightarrow> n)"

definition submit_tx :: "string \<Rightarrow> u64 \<Rightarrow> inclusion_tracker \<Rightarrow> inclusion_tracker" where
  "submit_tx h cur t =
     (case hm_get t h of
        Some _ \<Rightarrow> t
      | None \<Rightarrow> hm_insert h \<lparr> pt_hash = h, submitted_at_height = cur \<rparr> t)"

definition mark_included :: "string list \<Rightarrow> inclusion_tracker \<Rightarrow> inclusion_tracker" where
  "mark_included hs t = foldl (\<lambda>t h. hm_remove h t) t hs"

definition forced_transactions :: "u64 \<Rightarrow> u64 \<Rightarrow> inclusion_tracker \<Rightarrow> pending_transaction list" where
  "forced_transactions delay cur t =
     filter (\<lambda>tx. delay \<le> saturating_sub cur (submitted_at_height tx)) (hm_values t)"

definition check_block :: "u64 \<Rightarrow> string \<Rightarrow> u64 \<Rightarrow> string list \<Rightarrow> inclusion_tracker \<Rightarrow> censorship_evidence option" where
  "check_block delay i h included t =
     (let forced = forced_transactions delay h t;
          omitted = map pt_hash (filter (\<lambda>tx. pt_hash tx \<notin> set included) forced)
      in if forced = [] then None
         else if omitted = [] then None
         else Some \<lparr> censor_id = i, censor_height = h, omitted_tx_hashes = omitted \<rparr>)"

definition tracker_count :: "inclusion_tracker \<Rightarrow> nat" where
  "tracker_count t = length t"

section \<open>The pool is well-formed\<close>

datatype pool_event =
    Pool_Insert datetime bool publish_request
  | Pool_Remove bool string
  | Pool_Ready datetime bool
  | Pool_Restart

fun pool_step :: "pending_pool \<Rightarrow> pool_event \<Rightarrow> pending_pool" where
  "pool_step p (Pool_Insert now ok req) = snd (pool_insert now ok req p)"
| "pool_step p (Pool_Remove ok can) = snd (pool_remove ok can p)"
| "pool_step p (Pool_Ready now ok) = snd (ready_for_validation now ok p)"
| "pool_step p Pool_Restart = pool_open (pool_file p)"

definition entries_wf :: "(string, pending_entry) hash_map \<Rightarrow> bool" where
  "entries_wf m = (hm_ok m \<and> list_all (\<lambda>(k, e). k = canonical (req_id (request e))) m)"

definition pool_wf :: "pending_pool \<Rightarrow> bool" where
  "pool_wf p = (entries_wf (pool_entries p) \<and> (case pool_file p of None \<Rightarrow> True | Some m \<Rightarrow> entries_wf m))"

lemma list_all_update:
  "list_all P m \<Longrightarrow> P (k, v) \<Longrightarrow> list_all P (hm_insert k v m)"
  by (induction m) auto

lemma list_all_delete: "list_all P m \<Longrightarrow> list_all P (hm_remove k m)"
  by (auto simp: AList.delete_eq list_all_iff)

lemma entries_wf_insert: "entries_wf m \<Longrightarrow> entries_wf (hm_insert (canonical (req_id (request e))) e m)"
  by (simp add: entries_wf_def hm.valid_put list_all_update)

lemma entries_wf_remove: "entries_wf m \<Longrightarrow> entries_wf (hm_remove k m)"
  by (simp add: entries_wf_def hm.valid_drop list_all_delete)

lemma entries_wf_map:
  assumes "\<And>e. request (f e) = request e" and "entries_wf m"
  shows "entries_wf (map (\<lambda>(k, e). (k, f e)) m)"
  using assms by (auto simp: entries_wf_def hm_ok_def list_all_iff comp_def split_beta)

lemma entries_wf_reload:
  assumes "entries_wf m" and "fst ` set es \<inter> fst ` set m = {}"
  shows "foldl (\<lambda>es (k, e). hm_insert k (g e) es) es m = es @ map (\<lambda>(k, e). (k, g e)) m"
  using assms
proof (induction m arbitrary: es)
  case (Cons x m)
  obtain k e where x: "x = (k, e)" by force
  from Cons.prems have "k \<notin> fst ` set es" by (auto simp: x)
  then have "hm_insert k (g e) es = es @ [(k, g e)]" by (induction es) auto
  with Cons show ?case by (auto simp: x entries_wf_def hm_ok_def)
qed simp

lemma pool_open_entries:
  assumes "entries_wf m"
  shows "pool_entries (pool_open (Some m)) = map (\<lambda>(k, e). (k, e\<lparr> in_progress := False \<rparr>)) m"
  using entries_wf_reload [OF assms, of "[]"] by (simp add: pool_open_def)

lemma pool_wf_persist:
  "entries_wf (pool_entries p) \<Longrightarrow> case pool_file p of None \<Rightarrow> True | Some m \<Rightarrow> entries_wf m \<Longrightarrow> pool_wf (persist ok p)"
  by (simp add: persist_def pool_wf_def)

lemma pool_wf_step: "pool_wf p \<Longrightarrow> pool_wf (pool_step p ev)"
proof (cases ev)
  case (Pool_Insert now ok req)
  assume wf: "pool_wf p"
  define e where "e = \<lparr> request = req, received_at = now, attempt_count = 0, in_progress = False \<rparr>"
  have "entries_wf (hm_insert (canonical (req_id req)) e (pool_entries p))"
    using wf entries_wf_insert [of "pool_entries p" e] by (simp add: pool_wf_def e_def)
  then show ?thesis
    using wf Pool_Insert
    by (auto simp: pool_insert_def Let_def pool_wf_def [of p] e_def intro!: pool_wf_persist split: option.split)
next
  case (Pool_Remove ok can)
  assume "pool_wf p"
  then show ?thesis using Pool_Remove
    by (auto simp: pool_remove_def pool_wf_def [of p] intro!: pool_wf_persist entries_wf_remove split: option.split)
next
  case (Pool_Ready now ok)
  assume wf: "pool_wf p"
  have "entries_wf (map (\<lambda>(k, e). (k, pick_up now e)) (pool_entries p))"
    using wf by (intro entries_wf_map) (simp_all add: pick_up_def pool_wf_def)
  then show ?thesis using Pool_Ready wf
    by (auto simp: ready_for_validation_def Let_def pool_wf_def persist_def)
next
  case Pool_Restart
  assume wf: "pool_wf p"
  show ?thesis
  proof (cases "pool_file p")
    case None
    then show ?thesis using Pool_Restart by (simp add: pool_open_def pool_wf_def entries_wf_def hm.valid_empty)
  next
    case (Some m)
    then have m: "entries_wf m" using wf by (simp add: pool_wf_def)
    have "entries_wf (map (\<lambda>(k, e). (k, e\<lparr> in_progress := False \<rparr>)) m)"
      using m by (intro entries_wf_map) simp_all
    then show ?thesis using Pool_Restart Some m by (simp add: pool_wf_def pool_open_entries) (simp add: pool_open_def)
  qed
qed

interpretation pool: invariant_system pool_step pool_wf
  by unfold_locales (rule pool_wf_step)

text \<open>
  C23. The pool is well-formed at every moment: after any sequence of submissions, removals,
  pick-ups and restarts, with any of the writes failing, every entry in memory and in the file
  stands under the canonical name of its own request, and no name stands twice.
\<close>

theorem pool_well_formed: "pool_wf (foldl pool_step (pool_open None) evs)"
  by (rule pool.run_inv) (simp add: pool_open_def pool_wf_def entries_wf_def hm.valid_empty)

text \<open>
  A restart loses nothing that was written: if the last write succeeded, the reopened pool has
  the same requests under the same names, with their attempts, all of them eligible.
\<close>

lemma restart_restores:
  assumes "pool_wf p" and "pool_file p = Some (pool_entries p)"
  shows "pool_get (pool_step p Pool_Restart) k = map_option (\<lambda>e. e\<lparr> in_progress := False \<rparr>) (pool_get p k)"
    and "fst (ready_for_validation now ok (pool_step p Pool_Restart)) = map request (hm_values (pool_entries p))"
proof -
  have wf: "entries_wf (pool_entries p)" using assms(1) by (simp add: pool_wf_def)
  have entries: "pool_entries (pool_step p Pool_Restart) = map (\<lambda>(k, e). (k, e\<lparr> in_progress := False \<rparr>)) (pool_entries p)"
    using assms(2) by (simp add: pool_open_entries [OF wf])
  then show "pool_get (pool_step p Pool_Restart) k = map_option (\<lambda>e. e\<lparr> in_progress := False \<rparr>) (pool_get p k)"
    by (simp add: pool_get_def map_of_map)
  have vals: "hm_values (pool_entries (pool_step p Pool_Restart)) = map (\<lambda>e. e\<lparr> in_progress := False \<rparr>) (hm_values (pool_entries p))"
    unfolding entries by (simp add: comp_def split_beta)
  have all: "filter (pool_eligible now) (map (\<lambda>e. e\<lparr> in_progress := False \<rparr>) es) = map (\<lambda>e. e\<lparr> in_progress := False \<rparr>) es" for es
    by (simp add: filter_id_conv pool_eligible_def)
  show "fst (ready_for_validation now ok (pool_step p Pool_Restart)) = map request (hm_values (pool_entries p))"
    unfolding ready_for_validation_def Let_def fst_conv vals all by (simp add: comp_def)
qed

section \<open>What is admitted\<close>

lemma pool_insert_accepts:
  assumes "pool_insert now ok req p = (True, p')"
  shows "pool_get p' (canonical (req_id req)) = Some \<lparr> request = req, received_at = now, attempt_count = 0, in_progress = False \<rparr>"
    and "k \<noteq> canonical (req_id req) \<Longrightarrow> pool_get p' k = pool_get p k"
  using assms
  by (auto simp: pool_insert_def Let_def pool_get_def persist_def update_conv' split: option.splits if_splits)

lemma gate_passed:
  assumes "run_pre_mempool_yara_gate c sc req = Inr ()" and "\<not> req_shielded req"
  shows "\<exists>n payload ms. ipfs_cat sc (req_ipfs_cid req) = IpfsPayload n payload \<and> length payload \<le> scan_limit sc \<and>
    sha256_hex c payload = req_content_hash req \<and> scan_tarball sc payload (ecosystem (req_id req)) = Inr ms \<and>
    list_all (\<lambda>m. threat_level m < 4) ms"
proof -
  from assms obtain payload ms where f: "fetch_ipfs_payload (scan_limit sc) (ipfs_cat sc) (req_ipfs_cid req) = Inr payload"
    and h: "sha256_hex c payload = req_content_hash req" and ms: "scan_tarball sc payload (ecosystem (req_id req)) = Inr ms"
    and none: "filter (\<lambda>m. 4 \<le> threat_level m) ms = []"
    by (auto simp: run_pre_mempool_yara_gate_def Let_def and_then_eq_Inr split: if_splits sum.splits)
  from f obtain n where "ipfs_cat sc (req_ipfs_cid req) = IpfsPayload n payload" and "length payload \<le> scan_limit sc"
    by (auto simp: fetch_ipfs_payload_def split: ipfs_response.splits option.splits if_splits)
  moreover have "list_all (\<lambda>m. threat_level m < 4) ms"
    using none by (auto simp: filter_empty_conv list_all_iff not_le)
  ultimately show ?thesis using h ms by blast
qed

lemma publish_auth_passed:
  assumes "verify_publish_auth c se req = Inr ()"
  shows "verify_publish_sig c req = Inr ()"
    and "\<exists>contract publisher n. parse_address se (staking_addr se) = Some contract \<and>
      parse_address se (canonical_publisher_address (publisher_address req)) = Some publisher \<and>
      staked_balance se contract publisher = Inr n \<and> 0 < n"
proof -
  from assms have sig: "verify_publish_sig c req = Inr ()" and st: "ensure_publisher_staked se (publisher_address req) = Inr ()"
    by (auto simp: verify_publish_auth_def and_then_eq_Inr split: sum.splits)
  show "verify_publish_sig c req = Inr ()" by (rule sig)
  from st obtain publisher where p: "parse_publisher_address se (publisher_address req) = Inr publisher"
    and rest: "\<exists>contract n. parse_address se (staking_addr se) = Some contract \<and> staked_balance se contract publisher = Inr n \<and> 0 < n"
    unfolding ensure_publisher_staked_def and_then_eq_Inr by (auto split: if_splits option.splits sum.splits)
  from p have "parse_address se (canonical_publisher_address (publisher_address req)) = Some publisher"
    by (auto simp: parse_publisher_address_def Let_def split: if_splits option.splits)
  with rest show "\<exists>contract publisher n. parse_address se (staking_addr se) = Some contract \<and>
      parse_address se (canonical_publisher_address (publisher_address req)) = Some publisher \<and>
      staked_balance se contract publisher = Inr n \<and> 0 < n" by blast
qed

lemma single_sig_verified:
  assumes "verify_publish_sig c req = Inr ()" and "req_publisher_pubkeys req = []"
  shows "key_signed c (publish_signature_message (req_id req) (req_content_hash req) (publisher_address req))
    (req_publisher_pubkey req, req_signature req)"
  using assms
  by (auto simp: verify_publish_sig_def verify_single_sig_def key_signed_def Let_def split: if_splits option.splits)


definition demo_scan :: scan_env where
  "demo_scan =
     \<lparr> rules_available = True, scan_limit = default_max_scan_bytes, ipfs_cat = (\<lambda>_. IpfsPayload None ''p''),
       scan_tarball = (\<lambda>_ _. Inr []) \<rparr>"

definition demo_staking :: staking_env where
  "demo_staking =
     \<lparr> eth_rpc_url = ''u'', staking_addr = ''c'', parse_address = Some, rpc_url_ok = (\<lambda>_. True),
       staked_balance = (\<lambda>_ _. Inr 1) \<rparr>"

definition signed_request :: publish_request where
  "signed_request =
     demo_request\<lparr> req_content_hash := ''p'',
       req_signature := ''k'' @ publish_signature_message (req_id demo_request) ''p'' ''0x1'' \<rparr>"

lemma trim_demo:
  "trim ''npm'' = ''npm''" "trim ''a'' = ''a''" "trim ''1'' = ''1''" "trim ''0x1'' = ''0x1''" "trim ''u'' = ''u''" "trim ''c'' = ''c''"
  by (simp_all add: trim_plain plain_char_def)

lemma signed_request_simps [simp]:
  "req_id signed_request = \<lparr> ecosystem = ''npm'', pkg_name = ''a'', version = ''1'' \<rparr>" "req_content_hash signed_request = ''p''"
  "req_shielded signed_request = False" "req_publisher_pubkeys signed_request = []" "publisher_address signed_request = ''0x1''"
  "req_publisher_pubkey signed_request = ''k''" "req_ipfs_cid signed_request = ''q''"
  "req_signature signed_request = ''k'' @ publish_signature_message \<lparr> ecosystem = ''npm'', pkg_name = ''a'', version = ''1'' \<rparr> ''p'' ''0x1''"
  by (simp_all add: signed_request_def demo_request_def)

lemma demo_address: "canonical_publisher_address ''0x1'' \<noteq> []"
  by code_simp

lemma signed_request_auth: "verify_publish_auth demo_env demo_staking signed_request = Inr ()"
  by (simp add: verify_publish_auth_def validate_package_id_def trim_demo verify_publish_sig_def verify_single_sig_def Let_def
      ensure_publisher_staked_def parse_publisher_address_def demo_address demo_staking_def zero_address_def
      to_ascii_lowercase_def)

lemma signed_request_gate: "run_pre_mempool_yara_gate demo_env demo_scan signed_request = Inr ()"
  by (simp add: run_pre_mempool_yara_gate_def demo_scan_def fetch_ipfs_payload_def default_max_scan_bytes_def Let_def
      sha256_hex_def sha256_def)

lemma signed_request_admitted:
  "admit_publish_request demo_env demo_scan demo_staking False \<lparr> verify_publisher_auth = True \<rparr> 0 True signed_request
     demo_index pool_new pool_new =
   (Inr \<lparr> receipt_canonical = ''npm:a@1'', pending_count = 1 \<rparr>,
    pool_new\<lparr> pool_entries := [(''npm:a@1'', \<lparr> request = signed_request, received_at = 0, attempt_count = 0, in_progress = False \<rparr>)] \<rparr>)"
  by (simp add: admit_publish_request_def validate_package_id_def trim_demo signed_request_auth signed_request_gate
      check_not_known_def Let_def pool_get_def pool_new_def pool_insert_def persist_def pool_len_def canonical_def
      get_package_def demo_index_def demo_record_def)


text \<open>
  A multi-signature request counts signatures, not signers: one key that signed once meets any
  threshold when it is listed that many times.
\<close>

lemma one_key_meets_threshold:
  assumes "key_signed c (publish_signature_message (req_id req) (req_content_hash req) (publisher_address req)) (k, sg)"
    and "trim (publisher_address req) \<noteq> []" and "0 < n"
  shows "verify_publish_sig c (req\<lparr> req_publisher_pubkeys := replicate n k, req_signatures := replicate n sg, req_threshold := n \<rparr>) = Inr ()"
  using assms by (simp add: verify_publish_sig_def Let_def zip_replicate)

section \<open>Forced inclusion is exact\<close>

datatype tracker_event = Tx_Submitted string u64 | Txs_Included "string list"

fun tracker_step :: "inclusion_tracker \<Rightarrow> tracker_event \<Rightarrow> inclusion_tracker" where
  "tracker_step t (Tx_Submitted h cur) = submit_tx h cur t"
| "tracker_step t (Txs_Included hs) = mark_included hs t"

definition tracker_wf :: "inclusion_tracker \<Rightarrow> bool" where
  "tracker_wf t = (hm_ok t \<and> list_all (\<lambda>(k, tx). k = pt_hash tx) t)"

lemma mark_included_get: "hm_get (mark_included hs t) h = (if h \<in> set hs then None else hm_get t h)"
  unfolding mark_included_def by (induction hs arbitrary: t) (auto simp: delete_conv')

interpretation tracker: invariant_system tracker_step tracker_wf
proof unfold_locales
  fix t ev assume wf: "tracker_wf t"
  have drop: "tracker_wf (hm_remove h t)" if "tracker_wf t" for h t
    using that by (simp add: tracker_wf_def hm.valid_drop list_all_delete)
  show "tracker_wf (tracker_step t ev)"
  proof (cases ev)
    case (Tx_Submitted h cur)
    then show ?thesis using wf
      by (simp add: submit_tx_def tracker_wf_def hm.valid_put list_all_update split: option.split)
  next
    case (Txs_Included hs)
    have "tracker_wf (mark_included hs t)"
      unfolding mark_included_def using wf by (induction hs arbitrary: t) (simp_all add: drop)
    then show ?thesis using Txs_Included by simp
  qed
qed

text \<open>
  After any submissions and inclusions, a block gives evidence against its proposer exactly if
  some transaction has waited the forced-inclusion delay and is not in the block, and the
  evidence lists exactly those.
\<close>

lemma censorship_evidence_exact:
  fixes evs :: "tracker_event list" and included :: "string list" and delay height_now :: u64
  defines "t \<equiv> foldl tracker_step [] evs"
  defines "overdue \<equiv> {h. h \<notin> set included \<and> (\<exists>tx. hm_get t h = Some tx \<and> delay \<le> saturating_sub height_now (submitted_at_height tx))}"
  shows "(case check_block delay i height_now included t of
      None \<Rightarrow> overdue = {}
    | Some ev \<Rightarrow> overdue \<noteq> {} \<and> set (omitted_tx_hashes ev) = overdue \<and> censor_id ev = i \<and> censor_height ev = height_now)"
proof -
  have wf: "tracker_wf t" unfolding t_def
    by (rule tracker.run_inv) (simp add: tracker_wf_def hm.valid_empty)
  have get: "hm_get t h = Some tx \<longleftrightarrow> tx \<in> set (hm_values t) \<and> h = pt_hash tx" for h tx
    using wf by (force simp: tracker_wf_def list_all_iff hm.entries_lookup [symmetric])
  have "overdue = set (map pt_hash (filter (\<lambda>tx. pt_hash tx \<notin> set included) (forced_transactions delay height_now t)))"
    by (auto simp: overdue_def get forced_transactions_def)
  then show ?thesis by (auto simp: check_block_def Let_def filter_empty_conv)
qed

end
