(* ===== verification/Pipeline.thy ===== *)
theory Pipeline
  imports Admission
begin

text \<open>
  The validator pipeline of \<^verbatim>\<open>crates/node/src/validator_pipeline.rs\<close> and the handler of gossiped
  submissions of \<^verbatim>\<open>p2p.rs\<close>: from the pending pool through validation and the vote to the
  finalised transaction. A package is processed by a task of its own that waits for votes, so
  the pipeline is a state machine: the tasks are part of the state, and submissions, votes of
  peers, ticks and the steps of the tasks interleave in any order.

  The lemmas show, for every reachable state, what a transaction that the pipeline hands to the
  block producer rests on, and where that falls short: votes on another content of the same
  package count, and a gossiped submission nobody signed can revoke a verified package.
\<close>

section \<open>State\<close>

text \<open>What the task of a package keeps while it waits for the votes.\<close>

record vote_task =
  task_request :: publish_request
  task_result :: validation_result
  task_polls :: nat

record validator_node =
  vn_node :: consensus_node
  vn_pool :: pending_pool
  vn_queue :: "transaction list"
  vn_is_validator :: bool
  vn_vote_timeout :: u64
  vn_started :: "publish_request list"
  vn_waiting :: "vote_task list"
  vn_sent :: "vote_gossip list"

text \<open>
  What the pipeline depends on: IPFS, the decryption of shielded packages, the validator's
  stages on a request and its tarball, the previous version in the chain (with the version
  order of the semver crate) and its sandbox result, and the version of the model.
\<close>

record pipeline_env =
  pe_scan :: scan_env
  pe_ipfs :: "string \<Rightarrow> ipfs_response"
  pe_decrypt :: "string \<Rightarrow> string \<Rightarrow> string + string"
  pe_config :: validator_config
  pe_stages :: "publish_request \<Rightarrow> string \<Rightarrow> stages"
  pe_latest :: "string \<Rightarrow> string \<Rightarrow> chain_store \<Rightarrow> chain_record option"
  pe_sandbox_cache :: "string \<Rightarrow> sandbox_result option"
  pe_model_version :: string

section \<open>Operations\<close>

text \<open>A submission from gossip is scanned and enters the pool unless the name is pending.\<close>

definition on_submission ::
    "'a crypto_scheme \<Rightarrow> scan_env \<Rightarrow> datetime \<Rightarrow> bool \<Rightarrow> publish_request \<Rightarrow> validator_node \<Rightarrow> validator_node" where
  "on_submission c sc now written req vn =
     (case run_pre_mempool_yara_gate c sc req of
        Inl _ \<Rightarrow> vn
      | Inr _ \<Rightarrow>
          if pool_contains (vn_pool vn) (canonical (req_id req)) then vn
          else vn\<lparr> vn_pool := snd (pool_insert now written req (vn_pool vn)) \<rparr>)"

definition pipeline_tick :: "datetime \<Rightarrow> bool \<Rightarrow> validator_node \<Rightarrow> validator_node" where
  "pipeline_tick now written vn =
     (if \<not> vn_is_validator vn then vn
      else case ready_for_validation now written (vn_pool vn) of
             (requests, p) \<Rightarrow> vn\<lparr> vn_pool := p, vn_started := vn_started vn @ requests \<rparr>)"

definition cleanup :: "bool \<Rightarrow> string \<Rightarrow> validator_node \<Rightarrow> validator_node" where
  "cleanup written can vn =
     vn\<lparr> vn_pool := snd (pool_remove written can (vn_pool vn)),
         vn_node := (vn_node vn)\<lparr> package_rounds := clear_package_round can (package_rounds (vn_node vn)) \<rparr> \<rparr>"

definition max_ipfs_payload_bytes :: nat where
  "max_ipfs_payload_bytes = 512 * 1024 * 1024"

definition fetch_from_ipfs :: "(string \<Rightarrow> ipfs_response) \<Rightarrow> string \<Rightarrow> string + string" where
  "fetch_from_ipfs ipfs cid =
     (case ipfs cid of
        FetchFailed e \<Rightarrow> Inl e
      | HttpError e \<Rightarrow> Inl e
      | IpfsPayload declared payload \<Rightarrow>
          (case declared of
             Some n \<Rightarrow>
               if max_ipfs_payload_bytes < n then Inl ''too large''
               else if max_ipfs_payload_bytes < length payload then Inl ''exceeded max size'' else Inr payload
           | None \<Rightarrow> if max_ipfs_payload_bytes < length payload then Inl ''exceeded max size'' else Inr payload))"

datatype intake_outcome = IntakeDropped | IntakeMismatch | IntakeOk string

definition intake :: "'a crypto_scheme \<Rightarrow> pipeline_env \<Rightarrow> publish_request \<Rightarrow> intake_outcome" where
  "intake c pe req =
     (case fetch_from_ipfs (pe_ipfs pe) (req_ipfs_cid req) of
        Inl _ \<Rightarrow> IntakeDropped
      | Inr fetched \<Rightarrow>
          if fetched = [] then IntakeDropped
          else case (if req_shielded req
                     then (case req_key_bundle req of None \<Rightarrow> Inr fetched | Some bundle \<Rightarrow> pe_decrypt pe fetched bundle)
                     else Inr fetched) of
                 Inl _ \<Rightarrow> IntakeDropped
               | Inr tarball \<Rightarrow>
                   if sha256_hex c tarball \<noteq> req_content_hash req then IntakeMismatch else IntakeOk tarball)"

definition mismatch_revocation :: "publish_request \<Rightarrow> string \<Rightarrow> transaction" where
  "mismatch_revocation req i =
     Revoke (canonical (req_id req)) (''Content hash mismatch '' @ em_dash @ '' possible tampering'') i []"

definition validate_request_package ::
    "'a crypto_scheme \<Rightarrow> pipeline_env \<Rightarrow> publish_request \<Rightarrow> string \<Rightarrow> chain_store \<Rightarrow> string + validation_result" where
  "validate_request_package c pe req tarball chain =
     (let prev = pe_latest pe (ecosystem (req_id req)) (pkg_name (req_id req)) chain in
      run_validation c (pe_config pe) (pe_stages pe req tarball) req tarball
        (case prev of None \<Rightarrow> None | Some r \<Rightarrow> manifest r)
        (case prev of None \<Rightarrow> None | Some r \<Rightarrow> pe_sandbox_cache pe (canonical (rec_id r))))"

definition approves :: "validator_vote \<Rightarrow> bool" where
  "approves v = (v = Approve)"

definition vote_message ::
    "'a crypto_scheme \<Rightarrow> pipeline_env \<Rightarrow> publish_request \<Rightarrow> validation_result \<Rightarrow> string \<Rightarrow> string" where
  "vote_message c pe req res pubkey =
     gossip_vote_message (canonical (req_id req)) (req_content_hash req) (approves (vr_vote res)) pubkey
       (scanner_profile_digest c (pe_model_version pe) (to_refs (vr_analysis_bundles res)))
       (rs_evidence_digest (vr_deterministic_risk res))"

definition own_vote ::
    "'a crypto_scheme \<Rightarrow> pipeline_env \<Rightarrow> datetime \<Rightarrow> string \<Rightarrow> string \<Rightarrow> publish_request \<Rightarrow> validation_result
     \<Rightarrow> validator_signature" where
  "own_vote c pe now sk i req res =
     (let pubkey = hex_encode c (ed_public c sk) in
      \<lparr> vs_validator_id = i, vs_validator_pubkey = pubkey,
        vs_signature = hex_encode c (ed_sign c sk (vote_message c pe req res pubkey)),
        vote = vr_vote res, signed_at = now, vs_model_version = pe_model_version pe,
        vs_analysis_bundles = to_refs (vr_analysis_bundles res),
        vs_evidence_digest = rs_evidence_digest (vr_deterministic_risk res),
        vs_deterministic_risk = to_common_summary (vr_deterministic_risk res) \<rparr>)"

definition gossip_of_vote :: "publish_request \<Rightarrow> validator_signature \<Rightarrow> vote_gossip" where
  "gossip_of_vote req sg =
     \<lparr> consensus_subject = canonical (req_id req), vg_content_hash = req_content_hash req,
       vg_validator_id = vs_validator_id sg, vg_validator_pubkey = vs_validator_pubkey sg,
       vg_model_version = vs_model_version sg, vg_analysis_bundles = vs_analysis_bundles sg,
       vg_evidence_digest = vs_evidence_digest sg, vg_deterministic_risk = vs_deterministic_risk sg,
       vg_phase = ''commit'', vg_approved = approves (vote sg),
       vg_reject_reason = (case vote sg of Approve \<Rightarrow> None | Reject r \<Rightarrow> Some r), vg_signature = vs_signature sg \<rparr>"

text \<open>
  The number of polls: the timeout, at least one second, in steps of half a second; the
  multiplication saturates at 64 bits.
\<close>

definition max_iterations :: "u64 \<Rightarrow> nat" where
  "max_iterations timeout = (min (unat (max timeout 1) * 1000) (2 ^ 64 - 1) + 499) div 500"

text \<open>
  The part of a task before it waits: fetch, decrypt, compare the hash, validate, sign, record
  the vote and send it. An error on the way ends the task after the cleanup.
\<close>

definition begin_package ::
    "'a crypto_scheme \<Rightarrow> pipeline_env \<Rightarrow> datetime \<Rightarrow> bool \<Rightarrow> publish_request \<Rightarrow> validator_node \<Rightarrow> validator_node" where
  "begin_package c pe now written req vn =
     (let can = canonical (req_id req); node = vn_node vn in
      case intake c pe req of
        IntakeDropped \<Rightarrow> cleanup written can vn
      | IntakeMismatch \<Rightarrow> cleanup written can (vn\<lparr> vn_queue := vn_queue vn @ [mismatch_revocation req (node_id node)] \<rparr>)
      | IntakeOk tarball \<Rightarrow>
          if \<not> vn_is_validator vn \<or> validator_privkey node = None then cleanup written can vn
          else case validate_request_package c pe req tarball (node_chain node) of
                 Inl _ \<Rightarrow> cleanup written can vn
               | Inr res \<Rightarrow>
                   case signing_key c node of
                     None \<Rightarrow> cleanup written can vn
                   | Some sk \<Rightarrow>
                       let sg = own_vote c pe now sk (node_id node) req res in
                       vn\<lparr> vn_node := node\<lparr> package_rounds := record_package_vote now can sg (package_rounds node) \<rparr>,
                           vn_sent := vn_sent vn @ [gossip_of_vote req sg],
                           vn_waiting := vn_waiting vn @
                             [\<lparr> task_request = req, task_result = res, task_polls = max_iterations (vn_vote_timeout vn) \<rparr>] \<rparr>)"

text \<open>The record of an accepted package. The fields not named take their defaults.\<close>

definition accepted_record :: "datetime \<Rightarrow> publish_request \<Rightarrow> validation_result \<Rightarrow> validator_signature list \<Rightarrow> chain_record" where
  "accepted_record now req res sigs =
     \<lparr> rec_id = req_id req, content_hash = req_content_hash req, ipfs_cid = req_ipfs_cid req,
       publisher_pubkey = req_publisher_pubkey req, block_hash = ''pending'', published_at = now,
       validator_signatures = sigs, status = Verified, shielded = req_shielded req, key_bundle = req_key_bundle req,
       pgp_fingerprint = vr_pgp_fingerprint res, findings = vr_findings res,
       analysis_bundles = to_refs (vr_analysis_bundles res),
       evidence_digest = rs_evidence_digest (vr_deterministic_risk res),
       deterministic_risk = to_common_summary (vr_deterministic_risk res), access_count = 0, last_accessed = None,
       threshold = 0, publisher_pubkeys = req_publisher_pubkeys req, manifest = Some (req_manifest req) \<rparr>"

definition outcome_transaction :: "datetime \<Rightarrow> string \<Rightarrow> vote_task \<Rightarrow> evidence_vote_outcome \<Rightarrow> transaction" where
  "outcome_transaction now i t out =
     (case out of
        EvidenceVerified sigs \<Rightarrow> Publish (accepted_record now (task_request t) (task_result t) sigs)
      | EvidenceRejected reason \<Rightarrow>
          Revoke (canonical (req_id (task_request t))) reason i (rs_evidence_digest (vr_deterministic_risk (task_result t))))"

text \<open>
  One poll of a waiting task: the votes of its package decide, or the task waits on, or its
  polls are used up and it gives up. The size of the validator set is read when the task
  starts to wait and is here the one of the node, which the steps below do not change.
\<close>

definition poll_outcome :: "'a crypto_scheme \<Rightarrow> validator_node \<Rightarrow> vote_task \<Rightarrow> evidence_vote_outcome option" where
  "poll_outcome c vn t =
     (case hm_get (package_rounds (vn_node vn)) (canonical (req_id (task_request t))) of
        None \<Rightarrow> None
      | Some r \<Rightarrow> aggregate_evidence_votes c (pr_signatures r) (length (node_validators (vn_node vn))))"

definition poll_task ::
    "'a crypto_scheme \<Rightarrow> datetime \<Rightarrow> bool \<Rightarrow> vote_task \<Rightarrow> validator_node \<Rightarrow> vote_task list \<times> validator_node" where
  "poll_task c now written t vn =
     (let can = canonical (req_id (task_request t)) in
      if task_polls t = 0 then ([], cleanup written can vn)
      else case poll_outcome c vn t of
             None \<Rightarrow> ([t\<lparr> task_polls := task_polls t - 1 \<rparr>], vn)
           | Some out \<Rightarrow>
               ([], cleanup written can
                  (vn\<lparr> vn_queue := vn_queue vn @ [outcome_transaction now (node_id (vn_node vn)) t out] \<rparr>)))"

definition receive_vote :: "env \<Rightarrow> readings \<Rightarrow> vote_gossip \<Rightarrow> validator_node \<Rightarrow> validator_node" where
  "receive_vote c rd v vn = vn\<lparr> vn_node := snd (on_vote c rd v (vn_node vn)) \<rparr>"

text \<open>The producer takes the queue.\<close>

definition drain_queue :: "validator_node \<Rightarrow> transaction list \<times> validator_node" where
  "drain_queue vn = (case drain (vn_queue vn) of (txs, q) \<Rightarrow> (txs, vn\<lparr> vn_queue := q \<rparr>))"

section \<open>Steps\<close>

inductive pipeline_step :: "env \<Rightarrow> pipeline_env \<Rightarrow> validator_node \<Rightarrow> validator_node \<Rightarrow> bool" for c pe where
  Submission: "pipeline_step c pe vn (on_submission c (pe_scan pe) now written req vn)"
| Admission:
    "admit_publish_request c (pe_scan pe) se sh opts now written req (node_chain (vn_node vn)) seen (vn_pool vn) = (r, p) \<Longrightarrow>
     pipeline_step c pe vn (vn\<lparr> vn_pool := p \<rparr>)"
| Vote: "pipeline_step c pe vn (receive_vote c rd v vn)"
| Tick: "pipeline_step c pe vn (pipeline_tick now written vn)"
| Begin:
    "vn_started vn = rs @ req # rs' \<Longrightarrow>
     pipeline_step c pe vn (begin_package c pe now written req (vn\<lparr> vn_started := rs @ rs' \<rparr>))"
| Poll:
    "vn_waiting vn = ts @ t # ts' \<Longrightarrow> poll_task c now written t (vn\<lparr> vn_waiting := ts @ ts' \<rparr>) = (left, vn') \<Longrightarrow>
     pipeline_step c pe vn (vn'\<lparr> vn_waiting := ts @ left @ ts' \<rparr>)"
| Drain: "pipeline_step c pe vn (snd (drain_queue vn))"

definition pipeline_reachable :: "env \<Rightarrow> pipeline_env \<Rightarrow> validator_node \<Rightarrow> validator_node \<Rightarrow> bool" where
  "pipeline_reachable c pe = (pipeline_step c pe)\<^sup>*\<^sup>*"

text \<open>A node that has just started: no votes, no queue, no task that waits.\<close>

definition fresh_node :: "validator_node \<Rightarrow> bool" where
  "fresh_node vn = (package_rounds (vn_node vn) = [] \<and> vn_queue vn = [] \<and> vn_waiting vn = [])"

section \<open>What a published record rests on\<close>

text \<open>
  A vote is backed if its signature verifies under its key over this package, some content
  hash, its verdict, profile and evidence, and it is the node's own or comes from a validator
  of the set under that validator's key.
\<close>

definition vote_backed :: "'a crypto_scheme \<Rightarrow> validator list \<Rightarrow> string \<Rightarrow> string \<Rightarrow> validator_signature \<Rightarrow> bool" where
  "vote_backed c vs me subject sg \<longleftrightarrow>
     (\<exists>h pk s. hex_decode c (vs_validator_pubkey sg) = Some pk \<and> hex_decode c (vs_signature sg) = Some s \<and>
        ed_verify c pk (gossip_vote_message subject h (approves (vote sg)) (vs_validator_pubkey sg)
          (scanner_profile_digest c (vs_model_version sg) (vs_analysis_bundles sg)) (vs_evidence_digest sg)) s) \<and>
     (vs_validator_id sg = me \<or> (\<exists>v \<in> set vs. v_id v = vs_validator_id sg \<and> v_pubkey v = vs_validator_pubkey sg))"

definition rounds_backed :: "'a crypto_scheme \<Rightarrow> validator list \<Rightarrow> string \<Rightarrow> (string, package_round) hash_map \<Rightarrow> bool" where
  "rounds_backed c vs me rs \<longleftrightarrow>
     (\<forall>can r. hm_get rs can = Some r \<longrightarrow> (\<forall>sg \<in> set (pr_signatures r). vote_backed c vs me can sg))"

definition content_on_ipfs :: "'a crypto_scheme \<Rightarrow> pipeline_env \<Rightarrow> string \<Rightarrow> string \<Rightarrow> bool \<Rightarrow> bool" where
  "content_on_ipfs c pe cid h sh \<longleftrightarrow>
     (\<exists>n t. pe_ipfs pe cid = IpfsPayload n t \<and> length t \<le> max_ipfs_payload_bytes \<and> (sh \<or> sha256_hex c t = h))"

definition record_backed :: "'a crypto_scheme \<Rightarrow> pipeline_env \<Rightarrow> validator list \<Rightarrow> string \<Rightarrow> chain_record \<Rightarrow> bool" where
  "record_backed c pe vs me r \<longleftrightarrow>
     2 * length vs < 3 * length (validator_signatures r) \<and> distinct (map unique_key (validator_signatures r)) \<and>
     (\<exists>k. \<forall>sg \<in> set (validator_signatures r). vote sg = Approve \<and> consensus_profile_key c sg = Some k \<and>
        vote_backed c vs me (canonical (rec_id r)) sg) \<and>
     content_on_ipfs c pe (ipfs_cid r) (content_hash r) (shielded r)"

definition pipeline_inv :: "env \<Rightarrow> pipeline_env \<Rightarrow> validator list \<Rightarrow> string \<Rightarrow> validator_node \<Rightarrow> bool" where
  "pipeline_inv c pe vs me vn \<longleftrightarrow>
     node_validators (vn_node vn) = vs \<and> node_id (vn_node vn) = me \<and> hm_ok (package_rounds (vn_node vn)) \<and>
     rounds_backed c vs me (package_rounds (vn_node vn)) \<and>
     (\<forall>t \<in> set (vn_waiting vn). content_on_ipfs c pe (req_ipfs_cid (task_request t))
        (req_content_hash (task_request t)) (req_shielded (task_request t))) \<and>
     (\<forall>r. Publish r \<in> set (vn_queue vn) \<longrightarrow> record_backed c pe vs me r)"

lemma replace_or_push_subset: "set (replace_or_push v xs) \<subseteq> insert v (set xs)"
  by (induction xs) auto

lemma hm_ok_vote [simp]: "hm_ok rs \<Longrightarrow> hm_ok (record_package_vote now can sg rs)"
  by (simp add: record_package_vote_def hm.valid_put split: option.split)

lemma hm_ok_clear [simp]: "hm_ok rs \<Longrightarrow> hm_ok (clear_package_round can rs)"
  by (simp add: clear_package_round_def hm.valid_drop)

lemma rounds_backed_vote:
  assumes "rounds_backed c vs me rs" and "vote_backed c vs me can sg"
  shows "rounds_backed c vs me (record_package_vote now can sg rs)"
  using assms replace_or_push_subset [of sg]
  by (fastforce simp: rounds_backed_def record_package_vote_def update_conv' round_record_vote_def from_vote_def
      refresh_timestamps_def split: option.split if_splits)

lemma rounds_backed_clear: "rounds_backed c vs me rs \<Longrightarrow> rounds_backed c vs me (clear_package_round can rs)"
  by (auto simp: rounds_backed_def clear_package_round_def delete_conv' split: if_splits)

lemma pipeline_inv_cleanup:
  "pipeline_inv c pe vs me vn \<Longrightarrow> pipeline_inv c pe vs me (cleanup written can vn)"
  by (simp add: pipeline_inv_def cleanup_def rounds_backed_clear)

lemma vote_gossip_backed:
  assumes "validate_vote_gossip c v vs = Inr v'"
  shows "vote_backed c vs me (consensus_subject v') (vote_gossip_to_signature now v')"
proof -
  from assms obtain x pk s where v: "v' = v" and x: "find (\<lambda>x. v_id x = vg_validator_id v) vs = Some x"
    and key: "vg_validator_pubkey v = v_pubkey x" and "hex_decode c (vg_validator_pubkey v) = Some pk"
    and "hex_decode c (vg_signature v) = Some s"
    and "ed_verify c pk (gossip_vote_message (consensus_subject v) (vg_content_hash v) (vg_approved v)
        (vg_validator_pubkey v) (scanner_profile_digest c (vg_model_version v) (vg_analysis_bundles v)) (vg_evidence_digest v)) s"
    by (auto simp: validate_vote_gossip_def split: option.splits if_splits)
  moreover have "x \<in> set vs \<and> v_id x = vg_validator_id v" using x by (auto simp: find_Some_iff)
  moreover have "approves (vote (vote_gossip_to_signature now v)) = vg_approved v"
    by (simp add: approves_def vote_gossip_to_signature_def)
  ultimately show ?thesis
    unfolding vote_backed_def v by (fastforce simp: vote_gossip_to_signature_def)
qed

lemma pipeline_inv_vote:
  assumes "pipeline_inv c pe vs me vn"
  shows "pipeline_inv c pe vs me (receive_vote c rd v vn)"
proof (cases "validate_vote_gossip c v (node_validators (vn_node vn))")
  case (Inl e)
  then show ?thesis using assms by (simp add: receive_vote_def on_vote_def)
next
  case (Inr v')
  have vs: "node_validators (vn_node vn) = vs" using assms by (simp add: pipeline_inv_def)
  from vote_gossip_backed [OF Inr [unfolded vs], of me "utc rd"]
  show ?thesis using assms Inr by (simp add: receive_vote_def on_vote_def pipeline_inv_def rounds_backed_vote)
qed

lemma intake_content:
  assumes "intake c pe req = IntakeOk t"
  shows "content_on_ipfs c pe (req_ipfs_cid req) (req_content_hash req) (req_shielded req)"
  using assms
  by (auto simp: intake_def content_on_ipfs_def fetch_from_ipfs_def not_less
      split: sum.splits if_splits ipfs_response.splits option.splits)

lemma own_vote_backed:
  assumes "crypto_roundtrip c" and "length sk = 32"
  shows "vote_backed c vs me (canonical (req_id req)) (own_vote c pe now sk me req res)"
  using assms
  by (auto simp: vote_backed_def own_vote_def Let_def crypto_roundtrip_def vote_message_def intro!: exI [of _ "req_content_hash req"])

lemma signing_key_length: "signing_key c st = Some sk \<Longrightarrow> length sk = 32"
  by (auto simp: signing_key_def split: option.splits if_splits)

lemma pipeline_inv_queue:
  "pipeline_inv c pe vs me (vn\<lparr> vn_queue := q \<rparr>) \<longleftrightarrow>
     pipeline_inv c pe vs me (vn\<lparr> vn_queue := [] \<rparr>) \<and> (\<forall>r. Publish r \<in> set q \<longrightarrow> record_backed c pe vs me r)"
  by (auto simp: pipeline_inv_def)

lemma pipeline_inv_begin:
  assumes "pipeline_inv c pe vs me vn" and "crypto_roundtrip c"
  shows "pipeline_inv c pe vs me (begin_package c pe now written req vn)"
proof (cases "intake c pe req")
  case IntakeDropped
  then show ?thesis using assms(1) by (simp add: begin_package_def pipeline_inv_cleanup)
next
  case IntakeMismatch
  have "pipeline_inv c pe vs me (vn\<lparr> vn_queue := vn_queue vn @ [mismatch_revocation req (node_id (vn_node vn))] \<rparr>)"
    using assms(1) by (auto simp: pipeline_inv_def mismatch_revocation_def)
  then show ?thesis using IntakeMismatch by (simp add: begin_package_def pipeline_inv_cleanup)
next
  case (IntakeOk t)
  have me: "node_id (vn_node vn) = me" using assms(1) by (simp add: pipeline_inv_def)
  show ?thesis
  proof (cases "\<not> vn_is_validator vn \<or> validator_privkey (vn_node vn) = None \<or> signing_key c (vn_node vn) = None \<or>
      \<not> is_ok (validate_request_package c pe req t (node_chain (vn_node vn)))")
    case True
    then have "begin_package c pe now written req vn = cleanup written (canonical (req_id req)) vn"
      using IntakeOk by (auto simp: begin_package_def is_ok_def Let_def split: sum.splits option.splits)
    then show ?thesis using assms(1) by (simp add: pipeline_inv_cleanup)
  next
    case False
    then obtain sk res where sk: "signing_key c (vn_node vn) = Some sk"
      and res: "validate_request_package c pe req t (node_chain (vn_node vn)) = Inr res"
      by (auto simp: is_ok_iff)
    note backed = own_vote_backed [OF assms(2) signing_key_length [OF sk], of vs me req pe now res]
    show ?thesis
      using assms(1) False sk res IntakeOk intake_content [OF IntakeOk] rounds_backed_vote [OF _ backed]
      by (auto simp: begin_package_def pipeline_inv_def Let_def me)
  qed
qed

lemma poll_published:
  assumes "pipeline_inv c pe vs me vn" and "t \<in> set (vn_waiting vn)" and "poll_outcome c vn t = Some (EvidenceVerified sigs)"
  shows "record_backed c pe vs me (accepted_record now (task_request t) (task_result t) sigs)"
proof -
  define can where "can = canonical (req_id (task_request t))"
  from assms(3) obtain r where r: "hm_get (package_rounds (vn_node vn)) can = Some r"
    and agg: "aggregate_evidence_votes c (pr_signatures r) (length vs) = Some (EvidenceVerified sigs)"
    using assms(1) by (auto simp: poll_outcome_def can_def pipeline_inv_def split: option.splits)
  have backed: "vote_backed c vs me can sg" if "sg \<in> set (pr_signatures r)" for sg
    using assms(1) r that by (auto simp: pipeline_inv_def rounds_backed_def)
  have "content_on_ipfs c pe (req_ipfs_cid (task_request t)) (req_content_hash (task_request t)) (req_shielded (task_request t))"
    using assms(1,2) by (simp add: pipeline_inv_def)
  moreover from evidence_verified_votes [OF agg] obtain k where
    "2 * length vs < 3 * length sigs" "distinct (map unique_key sigs)"
    "\<forall>s \<in> set sigs. last_vote (pr_signatures r) s \<and> vote s = Approve \<and> consensus_profile_key c s = Some k" by blast
  moreover have "set sigs \<subseteq> set (pr_signatures r)" using calculation by (auto simp: last_vote_def)
  ultimately show ?thesis
    using backed by (auto simp: record_backed_def accepted_record_def can_def)
qed

lemma pipeline_inv_poll:
  assumes inv: "pipeline_inv c pe vs me vn" and w: "vn_waiting vn = ts @ t # ts'"
    and p: "poll_task c now written t (vn\<lparr> vn_waiting := ts @ ts' \<rparr>) = (left, vn')"
  shows "pipeline_inv c pe vs me (vn'\<lparr> vn_waiting := ts @ left @ ts' \<rparr>)"
proof -
  define can where "can = canonical (req_id (task_request t))"
  define base where "base = vn\<lparr> vn_waiting := ts @ ts' \<rparr>"
  have t: "t \<in> set (vn_waiting vn)" using w by simp
  have base: "pipeline_inv c pe vs me base" using inv w by (auto simp: pipeline_inv_def base_def)
  have same: "poll_outcome c base t = poll_outcome c vn t" by (simp add: poll_outcome_def base_def cong: option.case_cong)
  consider "left = []" "vn' = cleanup written can base"
    | "left = [t\<lparr> task_polls := task_polls t - 1 \<rparr>]" "vn' = base"
    | out where "left = []" "poll_outcome c vn t = Some out"
        "vn' = cleanup written can (base\<lparr> vn_queue := vn_queue base @ [outcome_transaction now me t out] \<rparr>)"
    using p base unfolding base_def [symmetric] poll_task_def can_def Let_def same
    by (auto simp: pipeline_inv_def split: if_splits option.splits)
  then show ?thesis
  proof cases
    case 1
    then show ?thesis using pipeline_inv_cleanup [OF base, of written can] by (simp add: pipeline_inv_def cleanup_def base_def)
  next
    case 2
    then show ?thesis using inv w by (auto simp: pipeline_inv_def base_def)
  next
    case (3 out)
    have "record_backed c pe vs me r" if "outcome_transaction now me t out = Publish r" for r
      using that poll_published [OF inv t] 3(2)
      by (auto simp: outcome_transaction_def split: evidence_vote_outcome.splits)
    then have "pipeline_inv c pe vs me (base\<lparr> vn_queue := vn_queue base @ [outcome_transaction now me t out] \<rparr>)"
      using base by (auto simp: pipeline_inv_def)
    from pipeline_inv_cleanup [OF this, of written can] show ?thesis using 3 by (simp add: pipeline_inv_def cleanup_def base_def)
  qed
qed

lemma pipeline_inv_step:
  assumes "pipeline_step c pe vn vn'" and "crypto_roundtrip c" and "pipeline_inv c pe vs me vn"
  shows "pipeline_inv c pe vs me vn'"
  using assms(1)
proof cases
  case (Begin rs req rs' now written)
  have "pipeline_inv c pe vs me (vn\<lparr> vn_started := rs @ rs' \<rparr>)" using assms(3) by (simp add: pipeline_inv_def)
  from pipeline_inv_begin [OF this assms(2)] show ?thesis unfolding Begin by blast
next
  case (Poll ts t ts' now written left vn'')
  then show ?thesis using pipeline_inv_poll [OF assms(3)] by blast
next
  case (Vote rd v)
  then show ?thesis using pipeline_inv_vote [OF assms(3)] by simp
qed (use assms(3) in \<open>auto simp: pipeline_inv_def on_submission_def pipeline_tick_def drain_queue_def drain_def
    split: sum.splits prod.splits\<close>)


section \<open>Votes on another content\<close>

text \<open>
  Two validators, two contents of one package. The node votes on one, the peer on the other;
  nothing in the round says which.
\<close>

definition demo_key :: "char \<Rightarrow> string" where
  "demo_key ch = replicate 32 ch"

definition demo_voter :: "char \<Rightarrow> validator" where
  "demo_voter ch =
     \<lparr> v_id = [ch], v_alias = [], v_pubkey = demo_key ch, v_eth_address = [], v_stake = 0, v_reputation = 0,
       v_status = ''online'' \<rparr>"

definition demo_pipeline :: pipeline_env where
  "demo_pipeline =
     \<lparr> pe_scan = demo_scan, pe_ipfs = (\<lambda>_. IpfsPayload None ''p''), pe_decrypt = (\<lambda>_ _. Inr ''evil''), pe_config = demo_validation,
       pe_stages = (\<lambda>_ _. demo_stages [] (degraded_review [] [])), pe_latest = (\<lambda>_ _ _. None),
       pe_sandbox_cache = (\<lambda>_. None), pe_model_version = ''m1'' \<rparr>"

definition demo_result :: validation_result where
  "demo_result = projr (run_validation demo_env demo_validation (demo_stages [] (degraded_review [] [])) signed_request ''p'' None None)"

lemma demo_run_validation:
  "run_validation demo_env demo_validation (demo_stages [] (degraded_review [] [])) signed_request ''p'' None None = Inr demo_result"
proof -
  have "\<exists>r. run_validation demo_env demo_validation (demo_stages [] (degraded_review [] [])) signed_request ''p'' None None = Inr r"
    by (simp add: run_validation_def and_then_def demo_stages_def split_beta Let_def)
  then show ?thesis by (auto simp: demo_result_def)
qed

lemma demo_report:
  defines "sa \<equiv> static_result (switches demo_validation) \<lparr> deterministic_pattern_findings = [], snippet_llm_findings = [],
      osv_pinned_findings = [], rule_ml_findings = [], deep_scan_findings = [] \<rparr>"
    and "sb \<equiv> \<lparr> sandbox_findings = [], observed_network_hosts = [], observed_fs_writes = [], observed_process_spawns = [] \<rparr>"
  shows "snd (pipeline_report demo_env demo_validation (demo_stages [] (degraded_review [] [])) signed_request ''p'' None None sa sb) =
    (report_new (bundles_now demo_validation) (req_id signed_request))\<lparr>
      rp_findings := llm_findings (degraded_review [] []), rp_llm_review := Some (degraded_review [] []) \<rparr>"
proof -
  have fl0: "fl 0 = 0" by (simp add: fl_def)
  have sa: "sa = \<lparr> sa_evidence_groups = [], sa_findings = [], sa_deterministic_score = 0, sa_advisory_score = 0, sa_ensemble_score = 0 \<rparr>"
    by (simp add: sa_def static_result_def evidence_groups_def build_evidence_group_def map_filter_simps Let_def
        compute_deterministic_score_def compute_advisory_score_def compute_ensemble_score_def score_for_group_def fl0)
  have m: "max_deterministic_finding_score [] = 0" by (simp add: max_deterministic_finding_score_def max_score_def)
  show ?thesis
    by (simp add: sa sb_def pipeline_report_def pgp_stage_def signed_request_def demo_request_def scan_report_def apply_static_def
        apply_sandbox_def apply_diff_def apply_findings_def diff_analyze_def not_in_def m apply_llm_def report_new_def
        demo_stages_def reputation_of_def revocation_check_def Let_def degraded_review_def)
qed

lemma demo_risk_zero: "risk_score sw 0 [] 0 = 0"
  by (simp add: risk_score_def count_severity_def counted_high_def wrap32_def Let_def)

lemma demo_stages_static:
  "stage_static (demo_stages fs rv) = Inr (static_result (switches demo_validation)
     \<lparr> deterministic_pattern_findings = fs, snippet_llm_findings = [], osv_pinned_findings = [],
       rule_ml_findings = [], deep_scan_findings = [] \<rparr>)"
  "stage_sandbox (demo_stages fs rv) = Inr \<lparr> sandbox_findings = [], observed_network_hosts = [], observed_fs_writes = [],
     observed_process_spawns = [] \<rparr>"
  by (simp_all add: demo_stages_def)

lemma demo_result_fields:
  "vr_vote demo_result = Approve" "vr_analysis_bundles demo_result = current_bundles (\<lambda>_. None) ''osv-off''"
  "\<exists>w. rs_evidence_digest (vr_deterministic_risk demo_result) = ''n'' @ w @ '':''"
proof -
  define rp where "rp = (report_new (bundles_now demo_validation) (req_id signed_request))\<lparr>
      rp_findings := llm_findings (degraded_review [] []), rp_llm_review := Some (degraded_review [] []) \<rparr>"
  define rep where "rep = reputation_of (demo_stages [] (degraded_review [] [])) signed_request"
  define risk where "risk = pipeline_risk demo_env demo_validation signed_request rp rep"
  have rep0: "confidence_delta rep = 0" by (simp add: rep_def reputation_of_def demo_stages_def)
  have det: "det_part demo_validation (rp_findings rp) = []"
    unfolding rp_def using llm_findings_advisory [of "degraded_review [] []" demo_validation] by (simp add: llm_ids_def degraded_review_def)
  have zero: "percent_u8 0 = 0" by (simp add: percent_u8_def round_f64_def)
  have "\<not> is_reject (decide risk)"
    using det by (simp add: risk_def pipeline_risk_def decide_reject_iff summarize_def Let_def rep0 rp_def report_new_def zero
        demo_risk_zero count_severity_def demo_validation_def default_aggregator_def env_u8_def)
  moreover have off: "audit demo_env demo_validation st signed_request r d = (r, d)" for st r d by (simp add: audit_def demo_validation_def)
  moreover have "run_validation demo_env demo_validation (demo_stages [] (degraded_review [] [])) signed_request ''p'' None None =
      Inr \<lparr> vr_vote = final_vote (rp\<lparr> rp_deterministic_risk := Some risk \<rparr>) (decide risk), vr_pgp_fingerprint = fp,
        vr_findings = rp_findings rp, vr_analysis_bundles = rp_bundles rp, vr_deterministic_risk = risk \<rparr>"
    if "fp = fst (pipeline_report demo_env demo_validation (demo_stages [] (degraded_review [] [])) signed_request ''p'' None None
        (static_result (switches demo_validation) \<lparr> deterministic_pattern_findings = [], snippet_llm_findings = [],
          osv_pinned_findings = [], rule_ml_findings = [], deep_scan_findings = [] \<rparr>)
        \<lparr> sandbox_findings = [], observed_network_hosts = [], observed_fs_writes = [], observed_process_spawns = [] \<rparr>)" for fp
    unfolding run_validation_def and_then_def that
    by (simp add: demo_stages_static split_beta Let_def off demo_report risk_def rep_def rp_def)
  ultimately obtain fp where res: "demo_result = \<lparr> vr_vote = Approve, vr_pgp_fingerprint = fp, vr_findings = rp_findings rp,
      vr_analysis_bundles = rp_bundles rp, vr_deterministic_risk = risk \<rparr>"
    using demo_run_validation by (simp add: final_vote_def)
  show "vr_vote demo_result = Approve" by (subst res) simp
  show "vr_analysis_bundles demo_result = current_bundles (\<lambda>_. None) ''osv-off''"
    by (subst res) (simp add: rp_def report_new_def demo_validation_def)
  show "\<exists>w. rs_evidence_digest (vr_deterministic_risk demo_result) = ''n'' @ w @ '':''"
    using det by (subst res) (auto simp: risk_def pipeline_risk_def summarize_def Let_def build_evidence_digest_def canonical_def
        sha256_hex_def sha256_def rp_def)
qed

lemma demo_grade:
  "is_consensus_grade_vote ''m1'' (to_refs (current_bundles (\<lambda>_. None) ''osv-off'')) (rs_evidence_digest (vr_deterministic_risk demo_result))"
proof -
  obtain w where "rs_evidence_digest (vr_deterministic_risk demo_result) = ''n'' @ w @ '':''" using demo_result_fields(3) by blast
  then show ?thesis
    by (simp add: is_consensus_grade_vote_def is_consensus_complete_def effective_osv_snapshot_epoch_def to_refs_def current_bundles_def
        env_or_def trim_plain plain_char_def starts_with_def Let_def)
qed

definition other_request :: publish_request where
  "other_request = signed_request\<lparr> req_content_hash := ''other'' \<rparr>"

definition vote_a :: validator_signature where
  "vote_a = own_vote demo_env demo_pipeline 0 (demo_key CHR ''a'') ''a'' signed_request demo_result"

definition vote_b :: validator_signature where
  "vote_b = own_vote demo_env demo_pipeline 0 (demo_key CHR ''b'') ''b'' other_request demo_result"

definition demo_vnode :: "publish_request list \<Rightarrow> validator_node" where
  "demo_vnode reqs =
     \<lparr> vn_node = (demo_consensus (Some (demo_key CHR ''a'')) [demo_voter CHR ''a'', demo_voter CHR ''b'']
         (engine_with_config demo_config))\<lparr> node_id := ''a'' \<rparr>,
       vn_pool = pool_new, vn_queue = [], vn_is_validator = True, vn_vote_timeout = 30, vn_started = reqs, vn_waiting = [], vn_sent = [] \<rparr>"

definition demo_task :: vote_task where
  "demo_task = \<lparr> task_request = signed_request, task_result = demo_result, task_polls = max_iterations 30 \<rparr>"

lemma demo_intake: "intake demo_env demo_pipeline signed_request = IntakeOk ''p''"
  by (simp add: intake_def fetch_from_ipfs_def demo_pipeline_def max_ipfs_payload_bytes_def sha256_hex_def sha256_def)

lemma demo_can: "canonical \<lparr> ecosystem = ''npm'', pkg_name = ''a'', version = ''1'' \<rparr> = ''npm:a@1''"
  by (simp add: canonical_def)

lemma demo_begin:
  "begin_package demo_env demo_pipeline 0 True signed_request (demo_vnode []) =
     (demo_vnode [])\<lparr> vn_node := (vn_node (demo_vnode []))\<lparr> package_rounds := [(''npm:a@1'', from_vote 0 ''npm:a@1'' vote_a)] \<rparr>,
       vn_sent := [gossip_of_vote signed_request vote_a], vn_waiting := [demo_task] \<rparr>"
proof -
  have k: "signing_key demo_env (vn_node (demo_vnode [])) = Some (demo_key CHR ''a'')"
    by (simp add: signing_key_def demo_vnode_def demo_consensus_def demo_key_def)
  have v: "validate_request_package demo_env demo_pipeline signed_request ''p'' (node_chain (vn_node (demo_vnode []))) = Inr demo_result"
    by (simp add: validate_request_package_def demo_pipeline_def demo_run_validation)
  show ?thesis
    unfolding begin_package_def Let_def demo_intake intake_outcome.case v
    using k by (simp add: demo_vnode_def demo_consensus_def demo_can record_package_vote_def vote_a_def demo_task_def)
qed

lemma vote_fields:
  "vs_validator_pubkey vote_a = demo_key CHR ''a''" "vs_validator_pubkey vote_b = demo_key CHR ''b''"
  "vs_validator_id vote_b = ''b''" "vote vote_a = Approve" "vote vote_b = Approve"
  "vs_model_version vote_a = ''m1''" "vs_model_version vote_b = ''m1''"
  "vs_analysis_bundles vote_a = to_refs (current_bundles (\<lambda>_. None) ''osv-off'')"
  "vs_analysis_bundles vote_b = to_refs (current_bundles (\<lambda>_. None) ''osv-off'')"
  "vs_evidence_digest vote_a = rs_evidence_digest (vr_deterministic_risk demo_result)"
  "vs_evidence_digest vote_b = rs_evidence_digest (vr_deterministic_risk demo_result)"
  by (simp_all add: vote_a_def vote_b_def own_vote_def Let_def demo_pipeline_def demo_result_fields)

definition demo_message :: "string \<Rightarrow> char \<Rightarrow> string" where
  "demo_message h ch = gossip_vote_message ''npm:a@1'' h True (demo_key ch)
     (scanner_profile_digest demo_env ''m1'' (to_refs (current_bundles (\<lambda>_. None) ''osv-off'')))
     (rs_evidence_digest (vr_deterministic_risk demo_result))"

lemma vote_signatures:
  "vs_signature vote_a = demo_key CHR ''a'' @ demo_message ''p'' CHR ''a''"
  "vs_signature vote_b = demo_key CHR ''b'' @ demo_message ''other'' CHR ''b''"
  by (simp_all add: vote_a_def vote_b_def own_vote_def Let_def demo_pipeline_def demo_result_fields vote_message_def demo_message_def
      other_request_def demo_can approves_def)

lemma demo_key_simps [simp]: "demo_key x \<noteq> []" "demo_key x = demo_key y \<longleftrightarrow> x = y"
  by (auto simp: demo_key_def)

lemma vote_b_valid:
  "validate_vote_gossip demo_env (gossip_of_vote other_request vote_b) [demo_voter CHR ''a'', demo_voter CHR ''b''] =
     Inr (gossip_of_vote other_request vote_b)"
  using demo_grade
  by (simp add: validate_vote_gossip_def gossip_of_vote_def demo_voter_def vote_fields vote_signatures demo_message_def other_request_def
      demo_can approves_def)

lemma vote_b_recorded: "vote_gossip_to_signature 0 (gossip_of_vote other_request vote_b) = vote_b"
  by (simp add: vote_gossip_to_signature_def gossip_of_vote_def vote_b_def own_vote_def Let_def demo_result_fields approves_def)

lemma demo_unique: "unique_key vote_a \<noteq> unique_key vote_b"
  by (simp add: unique_key_def vote_fields to_ascii_lowercase_def demo_key_def ascii_lower_def)

lemma demo_aggregate: "aggregate_evidence_votes demo_env [vote_a, vote_b] 2 = Some (EvidenceVerified [vote_a, vote_b])"
proof -
  have "dedupe_votes [vote_a, vote_b] = [vote_a, vote_b]"
    using demo_unique by (simp add: dedupe_fixpoint)
  moreover have "consensus_profile_key demo_env vote_a = consensus_profile_key demo_env vote_b" "consensus_profile_key demo_env vote_b \<noteq> None"
    using demo_grade by (simp_all add: consensus_profile_key_def vote_fields)
  ultimately show ?thesis by (auto simp: aggregate_evidence_votes_def Let_def vote_fields)
qed

definition demo_accepted :: chain_record where
  "demo_accepted = accepted_record 0 signed_request demo_result [vote_a, vote_b]"

lemma demo_reaches:
  "\<exists>vn. pipeline_reachable demo_env demo_pipeline (demo_vnode [signed_request]) vn \<and> vn_queue vn = [Publish demo_accepted]"
proof -
  define s1 where "s1 = begin_package demo_env demo_pipeline 0 True signed_request (demo_vnode [])"
  define s2 where "s2 = receive_vote demo_env demo_readings (gossip_of_vote other_request vote_b) s1"
  define s3 where "s3 = snd (poll_task demo_env 0 True demo_task (s2\<lparr> vn_waiting := [] \<rparr>))"
  have "pipeline_step demo_env demo_pipeline (demo_vnode [signed_request]) s1"
    using pipeline_step.Begin [of "demo_vnode [signed_request]" "[]" signed_request "[]" demo_env demo_pipeline 0 True]
    by (simp add: s1_def demo_vnode_def)
  moreover have "pipeline_step demo_env demo_pipeline s1 s2" unfolding s2_def by (rule pipeline_step.Vote)
  moreover
  have s1: "node_validators (vn_node s1) = [demo_voter CHR ''a'', demo_voter CHR ''b'']"
      "package_rounds (vn_node s1) = [(''npm:a@1'', from_vote 0 ''npm:a@1'' vote_a)]" "vn_waiting s1 = [demo_task]" "vn_queue s1 = []"
    unfolding s1_def demo_begin by (simp_all add: demo_vnode_def)
  have "consensus_subject (gossip_of_vote other_request vote_b) = ''npm:a@1''" "utc demo_readings = 0"
    by (simp_all add: gossip_of_vote_def other_request_def demo_can demo_readings_def)
  then have s2: "s2 = s1\<lparr> vn_node := (vn_node s1)\<lparr> package_rounds :=
      record_package_vote 0 ''npm:a@1'' vote_b (package_rounds (vn_node s1)) \<rparr> \<rparr>"
    unfolding s2_def receive_vote_def on_vote_def s1(1) vote_b_valid by (simp add: vote_b_recorded)
  have rounds: "hm_get (package_rounds (vn_node s2)) ''npm:a@1'' \<noteq> None"
      "pr_signatures (the (hm_get (package_rounds (vn_node s2)) ''npm:a@1'')) = [vote_a, vote_b]"
      "node_validators (vn_node s2) = [demo_voter CHR ''a'', demo_voter CHR ''b'']" "vn_waiting s2 = [demo_task]" "vn_queue s2 = []"
    using demo_unique
    by (simp_all add: s2 s1 record_package_vote_def round_record_vote_def from_vote_def refresh_timestamps_def round_key_eq)
  have out: "poll_outcome demo_env (s2\<lparr> vn_waiting := [] \<rparr>) demo_task = Some (EvidenceVerified [vote_a, vote_b])"
    using rounds demo_aggregate by (auto simp: poll_outcome_def demo_task_def demo_can numeral_2_eq_2)
  have left: "fst (poll_task demo_env 0 True demo_task (s2\<lparr> vn_waiting := [] \<rparr>)) = []" "vn_queue s3 = [Publish demo_accepted]"
    using out rounds by (simp_all add: s3_def poll_task_def Let_def demo_task_def max_iterations_def cleanup_def outcome_transaction_def demo_accepted_def)
  have "pipeline_step demo_env demo_pipeline s2 (s3\<lparr> vn_waiting := [] \<rparr>)"
    using pipeline_step.Poll [of s2 "[]" demo_task "[]" demo_env 0 True "[]" s3 demo_pipeline] rounds left
    by (simp add: s3_def prod_eq_iff)
  ultimately have "pipeline_reachable demo_env demo_pipeline (demo_vnode [signed_request]) (s3\<lparr> vn_waiting := [] \<rparr>)"
    unfolding pipeline_reachable_def by (meson rtranclp.rtrancl_into_rtrancl rtranclp.rtrancl_refl)
  then show ?thesis using left(2) by (intro exI [of _ "s3\<lparr> vn_waiting := [] \<rparr>"]) simp
qed


text \<open>
  The votes of a round name the package but not the content: a vote on another content of the
  same package counts. The record below is published on the node's vote for one content and
  its peer's vote for another, and a node that synchronises the block refuses it.
\<close>

lemma votes_on_other_content_count:
  "\<exists>vn r. pipeline_reachable demo_env demo_pipeline (demo_vnode [signed_request]) vn \<and> vn_queue vn = [Publish r] \<and>
     verify_block_signatures demo_env (demo_proposal\<lparr> transactions := [Publish r] \<rparr>) [demo_voter CHR ''a'', demo_voter CHR ''b''] =
       Inl (TooFewSignatures 0 ''npm:a@1'' 1 2 2)"
proof -
  have r: "canonical (rec_id demo_accepted) = ''npm:a@1''" "content_hash demo_accepted = ''p''"
    "validator_signatures demo_accepted = [vote_a, vote_b]"
    by (simp_all add: demo_accepted_def accepted_record_def demo_can)
  have a: "record_signature_valid demo_env demo_accepted vote_a"
    by (simp add: record_signature_valid_def r vote_fields vote_signatures demo_message_def)
  have b: "\<not> record_signature_valid demo_env demo_accepted vote_b"
    by (simp add: record_signature_valid_def r vote_fields vote_signatures demo_message_def gossip_vote_message_def)
  have low: "to_ascii_lowercase (demo_key CHR ''a'') = demo_key CHR ''a''" "to_ascii_lowercase (demo_key CHR ''b'') = demo_key CHR ''b''"
    by (simp_all add: to_ascii_lowercase_def demo_key_def ascii_lower_def)
  have "valid_approvals demo_env (set (map (\<lambda>v. to_ascii_lowercase (v_pubkey v)) [demo_voter CHR ''a'', demo_voter CHR ''b''])) demo_accepted = 1"
    using a b demo_grade by (simp add: valid_approvals_def r vote_fields demo_voter_def low Let_def)
  then have "verify_block_signatures demo_env (demo_proposal\<lparr> transactions := [Publish demo_accepted] \<rparr>) [demo_voter CHR ''a'', demo_voter CHR ''b''] =
       Inl (TooFewSignatures 0 ''npm:a@1'' 1 2 2)"
    by (simp add: verify_block_signatures_def demo_proposal_def r Let_def)
  then show ?thesis using demo_reaches by blast
qed

section \<open>A forged submission revokes\<close>

lemma submitted_is_ready:
  assumes "\<not> pool_contains p (canonical (req_id req))"
  shows "req \<in> set (fst (ready_for_validation now' ok' (snd (pool_insert now ok req p))))"
proof -
  define e where "e = \<lparr> request = req, received_at = now, attempt_count = 0, in_progress = False \<rparr>"
  have ins: "pool_entries (snd (pool_insert now ok req p)) = hm_insert (canonical (req_id req)) e (pool_entries p)"
    using assms by (simp add: pool_insert_def pool_contains_def Let_def persist_def e_def)
  have "e \<in> set (hm_values (hm_insert (canonical (req_id req)) e (pool_entries p)))"
    by (rule hm_get_values [of _ "canonical (req_id req)"]) (simp add: update_conv')
  moreover have "pool_eligible now' e" "request e = req" by (simp_all add: pool_eligible_def e_def)
  ultimately show ?thesis unfolding ready_for_validation_def Let_def fst_conv ins by force
qed

text \<open>
  C19. Nobody has to sign a submission that revokes a package: on a validator where the package is
  not pending, a gossiped request that is marked shielded and whose decrypted content does not
  have the declared hash brings a revocation of the package it names into the queue of the
  block producer, whatever its signature and publisher, and the block made of the queue takes
  a package that is verified on the chain to revoked.
\<close>

theorem forged_submission_revokes:
  assumes "req_shielded req" and "intake c pe req = IntakeMismatch"
    and "vn_is_validator vn" and "\<not> pool_contains (vn_pool vn) (canonical (req_id req))" and "vn_queue vn = []"
    and "get_package (node_chain (vn_node vn)) (canonical (req_id req)) = Some r"
  shows "\<exists>vn' txs. pipeline_reachable c pe vn vn' \<and> fst (drain_queue vn') = txs \<and> node_chain (vn_node vn') = node_chain (vn_node vn) \<and>
    get_package (insert_block c (b\<lparr> transactions := txs \<rparr>) (node_chain (vn_node vn'))) (canonical (req_id req)) =
      Some (r\<lparr> status := Revoked (''Content hash mismatch '' @ em_dash @ '' possible tampering'') \<rparr>)"
proof -
  define can where "can = canonical (req_id req)"
  define s1 where "s1 = on_submission c (pe_scan pe) 0 True req vn"
  define s2 where "s2 = pipeline_tick 0 True s1"
  have s1: "s1 = vn\<lparr> vn_pool := snd (pool_insert 0 True req (vn_pool vn)) \<rparr>"
    using assms(1,4) by (simp add: s1_def on_submission_def run_pre_mempool_yara_gate_def)
  have started: "vn_started s2 = vn_started vn @ fst (ready_for_validation 0 True (snd (pool_insert 0 True req (vn_pool vn))))"
    and s2: "vn_node s2 = vn_node vn" "vn_queue s2 = []"
    using assms(3,5) by (simp_all add: s2_def s1 pipeline_tick_def split_beta)
  with submitted_is_ready [OF assms(4)] obtain rs rs' where split: "vn_started s2 = rs @ req # rs'"
    by (metis Un_iff set_append split_list)
  define s3 where "s3 = begin_package c pe 0 True req (s2\<lparr> vn_started := rs @ rs' \<rparr>)"
  have "pipeline_step c pe vn s1" unfolding s1_def by (rule pipeline_step.Submission)
  moreover have "pipeline_step c pe s1 s2" unfolding s2_def by (rule pipeline_step.Tick)
  moreover have "pipeline_step c pe s2 s3" unfolding s3_def by (rule pipeline_step.Begin [OF split])
  ultimately have reach: "pipeline_reachable c pe vn s3"
    unfolding pipeline_reachable_def by (meson rtranclp.rtrancl_into_rtrancl rtranclp.rtrancl_refl)
  have q: "vn_queue s3 = [mismatch_revocation req (node_id (vn_node vn))]" "node_chain (vn_node s3) = node_chain (vn_node vn)"
    using assms(2) s2 by (simp_all add: s3_def begin_package_def cleanup_def Let_def)
  have "get_package (insert_block c (b\<lparr> transactions := [mismatch_revocation req (node_id (vn_node vn))] \<rparr>) (node_chain (vn_node vn))) can =
      Some (r\<lparr> status := Revoked (''Content hash mismatch '' @ em_dash @ '' possible tampering'') \<rparr>)"
    using assms(6) index_block_last_revoke [of "packages (node_chain (vn_node vn))" can r c "b\<lparr> transactions := [] \<rparr>"]
    by (simp add: get_package_def mismatch_revocation_def can_def)
  then show ?thesis using reach q by (auto simp: drain_queue_def drain_def can_def intro!: exI [of _ s3])
qed

definition forged_request :: publish_request where
  "forged_request = demo_request\<lparr> req_shielded := True, req_key_bundle := Some ''plain'', req_signature := [] \<rparr>"

definition victim_node :: validator_node where
  "victim_node = (demo_vnode [])\<lparr> vn_node := (vn_node (demo_vnode []))\<lparr>
     node_chain := save_package (demo_record ''a'' ''1'') empty_chain \<rparr> \<rparr>"

theorem forged_submission_revokes_witness:
  "\<exists>vn'. pipeline_reachable demo_env demo_pipeline victim_node vn' \<and>
     get_package (insert_block demo_env (genesis\<lparr> transactions := fst (drain_queue vn') \<rparr>) (node_chain (vn_node vn'))) ''npm:a@1'' =
       Some ((demo_record ''a'' ''1'')\<lparr> status := Revoked (''Content hash mismatch '' @ em_dash @ '' possible tampering'') \<rparr>)"
proof -
  have req: "req_shielded forged_request" "canonical (req_id forged_request) = ''npm:a@1''"
    by (simp_all add: forged_request_def demo_request_def demo_can)
  have "intake demo_env demo_pipeline forged_request = IntakeMismatch"
    by (simp add: intake_def fetch_from_ipfs_def demo_pipeline_def max_ipfs_payload_bytes_def sha256_hex_def sha256_def
        forged_request_def demo_request_def)
  moreover have "vn_is_validator victim_node" "\<not> pool_contains (vn_pool victim_node) ''npm:a@1''" "vn_queue victim_node = []"
    "get_package (node_chain (vn_node victim_node)) ''npm:a@1'' = Some (demo_record ''a'' ''1'')"
    by (simp_all add: victim_node_def demo_vnode_def pool_contains_def pool_new_def get_package_def save_package_def empty_chain_def
        demo_record_def demo_can)
  ultimately show ?thesis
    using forged_submission_revokes [OF req(1), of demo_env demo_pipeline victim_node "demo_record ''a'' ''1''" genesis]
    unfolding req(2) by blast
qed

text \<open>A waiting task ends: after its polls it gives up, at most two for every second of the timeout.\<close>

lemma max_iterations_bound: "max_iterations t \<le> 2 * unat (max t 1)" "0 < max_iterations t"
proof -
  have "1 \<le> max t 1" by simp
  then have pos: "0 < unat (max t 1)" unfolding word_le_nat_alt by simp
  show "max_iterations t \<le> 2 * unat (max t 1)" unfolding max_iterations_def by simp
  show "0 < max_iterations t" unfolding max_iterations_def using pos by (simp add: div_greater_zero_iff min_def)
qed

end
