(* ===== verification/Spec2Isabelle.thy ===== *)
theory Spec2Isabelle
  imports Merkle Vrf Decryption_Service Pipeline
begin

text \<open>
  A verification development for the chain registry (\<^verbatim>\<open>crates/\<close>).
\<close>

section \<open>Merkle proofs\<close>

text \<open>
  Inclusion proofs are complete: for a block whose header carries the Merkle root of its
  transactions, the proof the node builds for any of its transactions is accepted by the
  light client.
\<close>

lemma inclusion_proof_complete:
  assumes "i < length (transactions b)"
    and "merkle_root_field (header b) = merkle_root c (transactions b)"
  shows "\<exists>p. build_merkle_proof c b i = Inr p \<and> proof_verify c p"
  using built_proof_verifies [OF assms] by blast

lemma demo_block_root:
  "merkle_root_field (header demo_block) = merkle_root demo_env (transactions demo_block)"
  by (simp add: demo_block_def merkle_root_def tx_hash_of_def sha256_hex_def
      sha256_def merkle_loop.simps merkle_pad_def genesis_def)

lemma inclusion_proof_complete_witness:
  "\<exists>p. build_merkle_proof demo_env demo_block 2 = Inr p \<and> proof_verify demo_env p"
  by (rule inclusion_proof_complete) (simp_all add: demo_block_root, simp add: demo_block_def)


text \<open>A digest of fixed length, the last character, and a proof in a tree of two leaves.\<close>

definition fixed_env :: env where
  "fixed_env = demo_env\<lparr> hex_encode := (\<lambda>s. [last s]) \<rparr>"


text \<open>
  The Merkle root does not determine the transactions: an odd list of more than one
  transaction and the same list with its last transaction repeated have the same root.
\<close>

lemma merkle_root_repeats_last:
  assumes "odd (length txs)" and "1 < length txs"
  shows "merkle_root c (txs @ [last txs]) = merkle_root c txs"
proof -
  have "txs \<noteq> []" using assms by auto
  then have "map (tx_hash_of c) (txs @ [last txs]) = map (tx_hash_of c) txs @ [last (map (tx_hash_of c) txs)]"
    by (simp add: last_map)
  then show ?thesis
    using merkle_loop_repeat_last [of "map (tx_hash_of c) txs" c] assms \<open>txs \<noteq> []\<close>
    by (simp add: merkle_root_def)
qed

lemma merkle_root_repeats_last_witness:
  "merkle_root demo_env (transactions demo_block @ [ValidatorLeave ''c'']) =
     merkle_root demo_env (transactions demo_block)"
  using merkle_root_repeats_last [of "transactions demo_block" demo_env] by (simp add: demo_block_def)

section \<open>Packages\<close>

text \<open>
  The canonical name of a package determines the package, provided the ecosystem has no
  colon and the version no at sign; the name itself may contain both.
\<close>

lemma canonical_injective:
  assumes "canonical p = canonical q"
    and "CHR '':'' \<notin> set (ecosystem p)" and "CHR '':'' \<notin> set (ecosystem q)"
    and "CHR ''@'' \<notin> set (version p)" and "CHR ''@'' \<notin> set (version q)"
  shows "p = (q :: package_id)"
  using assms by (rule canonical_inj_lemma)

lemma canonical_injective_witness:
  "\<lparr> ecosystem = ''npm'', pkg_name = ''@org/x'', version = ''1.0.0'' \<rparr> =
   (\<lparr> ecosystem = ''npm'', pkg_name = ''@org/x'', version = ''1.0.0'' \<rparr> :: package_id)"
  by (rule canonical_injective) simp_all

section \<open>Validator sets\<close>



text \<open>
  Slashing takes a member's stake down without wrapping and costs ten points of
  reputation at most; it never admits anyone, and a validator whose stake is used up leaves
  the set of members.
\<close>

lemma slash_behaviour:
  assumes "hm_get (validators s) i = Some v"
  shows "\<exists>w. hm_get (validators (slash i amount s)) i = Some w \<and>
      unat (stake w) = unat (stake v) - unat amount \<and>
      unat (reputation w) = unat (reputation v) - 10 \<and>
      members (slash i amount s) = (if stake v \<le> amount then members s - {i} else members s)"
proof -
  have get: "hm_get (validators (slash i amount s)) i = Some (slash_validator amount v)"
    using assms by (simp add: slash_def hm_get_modify)
  have zero: "saturating_sub (stake v) amount = 0 \<longleftrightarrow> stake v \<le> amount"
    by (metis unat_eq_zero unat_saturating_sub diff_is_0_eq word_le_nat_alt)
  have active: "is_active (slash_validator amount v) = (is_active v \<and> \<not> stake v \<le> amount)"
    unfolding zero [symmetric] by (simp add: slash_validator_def Let_def)
  have "members (slash i amount s) = (if stake v \<le> amount then members s - {i} else members s)"
    using assms by (auto simp: members_def slash_def is_member_modify active is_member_def [of s])
  moreover have "unat (stake (slash_validator amount v)) = unat (stake v) - unat amount"
    "unat (reputation (slash_validator amount v)) = unat (reputation v) - 10"
    using unat_saturating_sub [of "stake v" amount] unat_saturating_sub [of "reputation v" 10]
    by (cases "saturating_sub (stake v) amount = 0"; simp add: slash_validator_def Let_def)+
  ultimately show ?thesis using get by blast
qed

lemma slash_behaviour_witness: "members (slash ''v'' 200 demo_vset) = {}"
  using slash_behaviour [of demo_vset "''v''" demo_info 200] by (auto simp: demo_info_def)

text \<open>
  The digest of a validator set does not depend on the order in which the hash map is
  iterated: two maps with the same entries give the same digest.
\<close>

lemma set_hash_order_insensitive:
  assumes "mset m = mset m'"
  shows "set_hash c \<lparr> validators = m \<rparr> = set_hash c \<lparr> validators = m' \<rparr>"
  using assms by (rule vset_digest.mset_cong)

lemma set_hash_order_insensitive_witness:
  "set_hash demo_env \<lparr> validators = [(''v'', demo_info), (''w'', demo_info\<lparr> vi_id := ''w'' \<rparr>)] \<rparr> =
   set_hash demo_env \<lparr> validators = [(''w'', demo_info\<lparr> vi_id := ''w'' \<rparr>), (''v'', demo_info)] \<rparr>"
  by (rule set_hash_order_insensitive) (simp add: add_mset_commute)

section \<open>Verifiable randomness\<close>

text \<open>
  An assignment of validators to a package has exactly the number asked for, all
  different and all active, whenever the shuffle only permutes its input; and asking for more
  validators than are active is an error.
\<close>

lemma assignment_sound:
  assumes "\<And>s xs. mset (shuffle s xs) = mset xs" and "distinct active"
  shows "(length active < n \<longrightarrow>
      select_validators c shuffle active p h n out = Inl (NeedValidators n (length active))) \<and>
    (\<forall>sel. select_validators c shuffle active p h n out = Inr sel \<longrightarrow>
      length sel = n \<and> set sel \<subseteq> set active \<and> distinct sel)"
proof (intro conjI impI allI)
  show "select_validators c shuffle active p h n out = Inl (NeedValidators n (length active))"
    if "length active < n"
    using that by (simp add: select_validators_def)
  fix sel assume "select_validators c shuffle active p h n out = Inr sel"
  note ok = select_validators_ok [OF assms(1) this]
  show "length sel = n" by (rule ok(1))
  show "set sel \<subseteq> set active" by (rule ok(2))
  show "distinct sel" by (rule ok(3) [OF assms(2)])
qed

definition seed_env :: env where
  "seed_env = demo_env\<lparr> hex_decode := (\<lambda>_. Some (replicate 32 CHR ''x'')) \<rparr>"

lemma assignment_sound_witness:
  "\<exists>sel. select_validators seed_env (\<lambda>_ xs. rev xs) [''a'', ''b'', ''c''] ''npm:x@1'' 7 2 None = Inr sel \<and>
     length sel = 2 \<and> distinct sel"
proof -
  have "\<exists>sel. select_validators seed_env (\<lambda>_ xs. rev xs) [''a'', ''b'', ''c''] ''npm:x@1'' 7 2 None = Inr sel"
    by (simp add: select_validators_def decode_hex_def seed_env_def)
  then show ?thesis
    using assignment_sound [of "\<lambda>_ xs. rev xs" "[''a'', ''b'', ''c'']" 2 seed_env "''npm:x@1''" 7 None]
    by auto
qed

text \<open>
  A proof of evaluation verifies: what \<^verbatim>\<open>prove\<close> returns for a private key is accepted by
  \<^verbatim>\<open>verify\<close> under its public key, given that decoding inverts encoding and signatures
  verify under their key.
\<close>

lemma vrf_roundtrip:
  assumes "crypto_roundtrip c" and "hex_decode c (trim priv) = Some sk" and "length sk = 32"
  shows "\<exists>out pf. prove c seed priv = Inr (out, pf) \<and>
    vrf_verify c seed (hex_encode c (ed_public c sk)) out pf = Inr ()"
proof -
  obtain out pf where "prove c seed priv = Inr (out, pf)"
    using assms by (simp add: prove_def decode_hex_def Let_def)
  with prove_then_verify [OF assms(1) this assms(2)] show ?thesis by blast
qed

lemma vrf_roundtrip_witness:
  "\<exists>out pf. prove demo_env ''seed'' (replicate 32 CHR ''k'') = Inr (out, pf) \<and>
     vrf_verify demo_env ''seed'' (replicate 32 CHR ''k'') out pf = Inr ()"
proof -
  have "trim (replicate 32 CHR ''k'') = replicate 32 CHR ''k''"
    by (rule trim_plain) (simp_all add: plain_char_def)
  then show ?thesis
    using vrf_roundtrip [of demo_env "replicate 32 CHR ''k''" "replicate 32 CHR ''k''" "''seed''"]
    by (simp add: crypto_roundtrip_def)
qed

text \<open>
  The ranking of proposers is a permutation of the validators that every node computes
  alike, whatever order it holds them in, and its first element has the least score.
\<close>

lemma ranking_sound:
  assumes "mset vs = mset vs'" and "vs \<noteq> []"
  shows "rank_proposers c vs seed = rank_proposers c vs' seed \<and>
    mset (rank_proposers c vs seed) = mset (map vrf_id vs) \<and>
    (\<exists>v \<in> set vs. hd (rank_proposers c vs seed) = vrf_id v \<and>
      (\<forall>w \<in> set vs. proposer_score c seed v \<le> proposer_score c seed w))"
proof -
  obtain v where "v \<in> set vs" "hd (rank_proposers c vs seed) = vrf_id v"
    "\<forall>w \<in> set vs. (proposer_score c seed v, vrf_id v) \<le> (proposer_score c seed w, vrf_id w)"
    by (rule rank_hd_least [OF assms(2)])
  then have "\<exists>v \<in> set vs. hd (rank_proposers c vs seed) = vrf_id v \<and>
      (\<forall>w \<in> set vs. proposer_score c seed v \<le> proposer_score c seed w)"
    by (intro bexI [of _ v]) (auto simp: less_eq_prod_def)
  then show ?thesis
    using ranking.mset_cong [OF assms(1)] mset_rank_proposers by blast
qed

definition demo_candidates :: "vrf_validator list" where
  "demo_candidates = [\<lparr> vrf_id = ''a'', vrf_pubkey = ''k1'', val_vrf_output = None, val_vrf_proof = None \<rparr>,
     \<lparr> vrf_id = ''b'', vrf_pubkey = ''k0'', val_vrf_output = None, val_vrf_proof = None \<rparr>]"

lemma ranking_sound_witness:
  "rank_proposers demo_env demo_candidates ''s'' = rank_proposers demo_env (rev demo_candidates) ''s''"
  using ranking_sound [of demo_candidates "rev demo_candidates" demo_env "''s''"]
  by (simp add: demo_candidates_def)

text \<open>
  Where no two validators have the same score, the proposer the consensus round expects is
  the first of the ranking.
\<close>

lemma selected_is_first_ranked:
  assumes "vs \<noteq> []" and "inj_on (proposer_score c seed) (set vs)"
  shows "select_proposer_deterministic c vs seed = Some (hd (rank_proposers c vs seed))"
  using assms by (rule rank_hd_selected)

lemma selected_is_first_ranked_witness:
  "select_proposer_deterministic demo_env demo_candidates ''s'' =
     Some (hd (rank_proposers demo_env demo_candidates ''s''))"
  by (rule selected_is_first_ranked)
    (simp_all add: demo_candidates_def proposer_score_def sha256_hex_def sha256_def)

end
